(* ===== verification/Prelude.thy ===== *)
theory Prelude
  imports Main "HOL-Library.Word" "HOL-Library.List_Lexorder" "HOL-Library.Char_ord"
    "HOL-Library.Multiset" "HOL-Library.Sublist" "HOL-Library.AList"
begin

text \<open>
  Shared vocabulary of the development: bytes and strings, C++ faults, the part of the C++
  standard library the program's own code uses (\<open>std::string\<close> searching, \<open>std::stoul\<close>,
  \<open>std::to_string\<close>, \<open>std::tolower\<close>), and generic lemmas on lists, options and words that several
  components share.

  Conventions. A \<open>uint8_t\<close> is an \<^typ>\<open>8 word\<close>; a \<open>std::string\<close> is a list of 8-bit characters, so
  \<open>length\<close> counts bytes. A \<open>size_t\<close> is a \<^typ>\<open>nat\<close>; where the code's 64-bit arithmetic can wrap,
  the reduction modulo \<open>2 ^ 64\<close> is written out with \<open>wrap64\<close>. Pointers into a buffer are
  represented by the suffix of the buffer they point to or by an index, and a read outside the
  buffer is the fault \<open>Out_of_bounds\<close>, never an unspecified value.
\<close>

unbundle bit_operations_syntax

section \<open>Collections of rewrite rules\<close>

named_theorems cpp_string \<open>equations for the std::string operations\<close>
named_theorems byte_simps \<open>conversions between bytes, characters and numbers\<close>
named_theorems assoc_simps \<open>association lists used as hash maps\<close>

section \<open>Faults\<close>

text \<open>
  What a C++ expression can do instead of returning: throw one of the standard (or JSON library)
  exceptions, or read outside an object, which is undefined behaviour.
\<close>

datatype fault =
    Runtime_error
  | Invalid_argument
  | Out_of_range
  | Length_error
  | Json_error
  | Out_of_bounds

text \<open>
  The result of an expression that may fault, its sequencing, and a \<open>try { .. } catch (...)\<close>
  whose handler returns \<open>d\<close>: it intercepts every exception, but not undefined behaviour.
\<close>

type_synonym 'a res = "fault + 'a"

fun bind_res :: "'a res \<Rightarrow> ('a \<Rightarrow> 'b res) \<Rightarrow> 'b res" where
  "bind_res (Inl e) f = Inl e"
| "bind_res (Inr x) f = f x"

fun catch_res :: "'a \<Rightarrow> 'a res \<Rightarrow> 'a res" where
  "catch_res d (Inl e) = (if e = Out_of_bounds then Inl Out_of_bounds else Inr d)"
| "catch_res d (Inr x) = Inr x"

lemma bind_res_Inr [simp]: "bind_res m f = Inr y \<longleftrightarrow> (\<exists>x. m = Inr x \<and> f x = Inr y)"
  by (cases m) auto

lemma bind_res_Inl [simp]:
  "bind_res m f = Inl e \<longleftrightarrow> m = Inl e \<or> (\<exists>x. m = Inr x \<and> f x = Inl e)"
  by (cases m) auto

lemma catch_res_total: "m \<noteq> Inl Out_of_bounds \<Longrightarrow> \<exists>r. catch_res d m = Inr r"
  by (cases m) auto

section \<open>Bytes and characters\<close>

type_synonym byte = "8 word"
type_synonym bytes = "8 word list"

definition byte_of_char :: "char \<Rightarrow> byte" where
  "byte_of_char c = word_of_nat (of_char c)"

definition char_of_byte :: "byte \<Rightarrow> char" where
  "char_of_byte b = char_of (unat b)"

definition bytes_of_string :: "string \<Rightarrow> bytes" where
  "bytes_of_string s = map byte_of_char s"

definition string_of_bytes :: "bytes \<Rightarrow> string" where
  "string_of_bytes bs = map char_of_byte bs"

lemma char_of_byte_of_char [simp, byte_simps]: "char_of_byte (byte_of_char c) = c"
  by (simp add: byte_of_char_def char_of_byte_def unat_of_nat)

lemma unat_byte_less [simp]: "unat (b :: byte) < 256"
  by (rule order_less_le_trans [OF unsigned_less]) simp

lemma byte_of_char_of_byte [simp, byte_simps]: "byte_of_char (char_of_byte b) = b"
  by (simp add: byte_of_char_def char_of_byte_def)

lemma string_of_bytes_of_string [simp, byte_simps]: "string_of_bytes (bytes_of_string s) = s"
  by (simp add: string_of_bytes_def bytes_of_string_def comp_def)

lemma bytes_of_string_of_bytes [simp, byte_simps]: "bytes_of_string (string_of_bytes bs) = bs"
  by (simp add: string_of_bytes_def bytes_of_string_def comp_def)

lemma length_bytes_of_string [simp]: "length (bytes_of_string s) = length s"
  by (simp add: bytes_of_string_def)

lemma length_string_of_bytes [simp]: "length (string_of_bytes bs) = length bs"
  by (simp add: string_of_bytes_def)

lemma bytes_of_string_append [simp]:
  "bytes_of_string (s @ t) = bytes_of_string s @ bytes_of_string t"
  by (simp add: bytes_of_string_def)

lemma string_of_bytes_append [simp]:
  "string_of_bytes (s @ t) = string_of_bytes s @ string_of_bytes t"
  by (simp add: string_of_bytes_def)

section \<open>Reading a buffer\<close>

text \<open>\<open>data[i]\<close> and the range \<open>[data + i, data + i + n)\<close>; outside the buffer the read is undefined.\<close>

definition byte_at :: "'a list \<Rightarrow> nat \<Rightarrow> 'a res" where
  "byte_at data i = (if i < length data then Inr (data ! i) else Inl Out_of_bounds)"

definition slice :: "'a list \<Rightarrow> nat \<Rightarrow> nat \<Rightarrow> 'a list res" where
  "slice data i n = (if i + n \<le> length data then Inr (take n (drop i data)) else Inl Out_of_bounds)"

lemma byte_at_in [simp]: "i < length data \<Longrightarrow> byte_at data i = Inr (data ! i)"
  by (simp add: byte_at_def)

lemma slice_in [simp]: "i + n \<le> length data \<Longrightarrow> slice data i n = Inr (take n (drop i data))"
  by (simp add: slice_def)

text \<open>Masks and shifts of a byte, as arithmetic on its value.\<close>

lemma byte_and_mask: "unat ((b :: byte) AND mask n) = unat b mod 2 ^ n"
  by (simp only: flip: take_bit_eq_mask)
    (simp only: unsigned_take_bit_eq take_bit_eq_mod [of n "unat b"])

lemma byte_drop_bit: "unat (drop_bit n (b :: byte)) = unat b div 2 ^ n"
  unfolding unat_drop_bit_eq by (rule drop_bit_eq_div)

lemma byte_push_bit: "unat (push_bit n (b :: byte)) = unat b * 2 ^ n mod 256"
  unfolding unsigned_push_bit_eq by (simp add: take_bit_eq_mod push_bit_eq_mult)

lemma byte_masks:
  "(0x01 :: byte) = mask 1" "(0x03 :: byte) = mask 2" "(0x0f :: byte) = mask 4"
  "(0x3f :: byte) = mask 6" "(0x7f :: byte) = mask 7"
  by (simp_all add: mask_eq_exp_minus_1)

lemma byte_add: "unat (a :: byte) + unat b < 256 \<Longrightarrow> unat (a + b) = unat a + unat b"
  by (simp add: unat_word_ariths)

text \<open>Two bytes, most significant first, as \<open>(hi << 8) | lo\<close>, and their split.\<close>

definition be16 :: "byte \<Rightarrow> byte \<Rightarrow> 16 word" where
  "be16 hi lo = push_bit 8 (ucast hi) OR ucast lo"

definition hi_byte :: "16 word \<Rightarrow> byte" where
  "hi_byte w = ucast (drop_bit 8 w AND 0xFF)"

definition lo_byte :: "16 word \<Rightarrow> byte" where
  "lo_byte w = ucast (w AND 0xFF)"

lemma mask_8_16: "(0xFF :: 16 word) = mask 8"
  by (simp add: mask_eq_exp_minus_1)

lemma be16_split [simp]: "be16 (hi_byte w) (lo_byte w) = w"
  by (rule bit_word_eqI) (auto simp: be16_def hi_byte_def lo_byte_def mask_8_16 bit_simps)

section \<open>The 64-bit \<open>size_t\<close>\<close>

definition wrap64 :: "nat \<Rightarrow> nat" where
  "wrap64 n = n mod 2 ^ 64"

lemma wrap64_small [simp]: "n < 18446744073709551616 \<Longrightarrow> wrap64 n = n"
  by (simp add: wrap64_def)

lemma wrap64_less: "wrap64 n < 18446744073709551616"
  by (simp add: wrap64_def)

lemma wrap64_once: "2 ^ 64 \<le> n \<Longrightarrow> n < 2 * 2 ^ 64 \<Longrightarrow> wrap64 n = n - 2 ^ 64"
  by (simp add: wrap64_def le_mod_geq)

lemma wrap64_le: "wrap64 n \<le> n"
  by (simp add: wrap64_def)

section \<open>Searching and splitting strings\<close>

text \<open>\<open>s.find(c, pos)\<close>: the index of the first \<open>c\<close> at or after \<open>pos\<close>, \<open>None\<close> for \<open>npos\<close>.\<close>

primrec index_of :: "'a \<Rightarrow> 'a list \<Rightarrow> nat option" where
  "index_of c [] = None"
| "index_of c (x # xs) = (if x = c then Some 0 else map_option Suc (index_of c xs))"

definition find_char :: "'a \<Rightarrow> 'a list \<Rightarrow> nat \<Rightarrow> nat option" where
  "find_char c s pos = map_option ((+) pos) (index_of c (drop pos s))"

text \<open>\<open>s.find(pat)\<close> for a string pattern.\<close>

primrec find_sub :: "'a list \<Rightarrow> 'a list \<Rightarrow> nat option" where
  "find_sub pat [] = (if pat = [] then Some 0 else None)"
| "find_sub pat (x # xs) =
     (if take (length pat) (x # xs) = pat then Some 0 else map_option Suc (find_sub pat xs))"

text \<open>\<open>s.rfind(pat, 0) == 0\<close> and \<open>s.find(pat) == 0\<close>: \<open>pat\<close> is a prefix of \<open>s\<close>.\<close>

definition starts_with :: "'a list \<Rightarrow> 'a list \<Rightarrow> bool" where
  "starts_with pat s = (take (length pat) s = pat)"

lemma starts_with_append [simp]: "starts_with p (p @ s)"
  by (simp add: starts_with_def)

lemma starts_with_prefix: "starts_with p s = prefix p s"
  by (auto simp: starts_with_def prefix_def) (metis append_take_drop_id)

lemma index_of_Some_conv:
  "index_of c xs = Some i \<longleftrightarrow> i < length xs \<and> xs ! i = c \<and> c \<notin> set (take i xs)"
proof (induction xs arbitrary: i)
  case (Cons x xs)
  then show ?case by (cases i) auto
qed simp

lemma index_of_None_conv: "index_of c xs = None \<longleftrightarrow> c \<notin> set xs"
  by (induction xs) auto

lemma index_of_append_Some:
  "index_of c xs = Some i \<Longrightarrow> index_of c (xs @ ys) = Some i"
  by (induction xs arbitrary: i) (auto split: if_splits)

lemma index_of_skip:
  "c \<notin> set xs \<Longrightarrow> index_of c (xs @ c # ys) = Some (length xs)"
  by (induction xs) auto

lemma find_char_Some_less: "find_char c s pos = Some i \<Longrightarrow> pos \<le> i \<and> i < length s"
  by (auto simp: find_char_def index_of_Some_conv)

lemma find_sub_Some_bound:
  "find_sub pat s = Some i \<Longrightarrow> i + length pat \<le> length s"
proof (induction s arbitrary: i)
  case (Cons x xs)
  show ?case
  proof (cases "take (length pat) (x # xs) = pat")
    case True
    with Cons.prems have "i = 0" by simp
    with arg_cong [OF True, of length] show ?thesis by simp
  next
    case False
    with Cons.prems obtain j where "find_sub pat xs = Some j" "i = Suc j" by auto
    with Cons.IH show ?thesis by fastforce
  qed
qed (simp split: if_splits)

lemma find_sub_Some_take:
  "find_sub pat s = Some i \<Longrightarrow> take (length pat) (drop i s) = pat"
proof (induction s arbitrary: i)
  case (Cons x xs)
  then show ?case by (cases "take (length pat) (x # xs) = pat") auto
qed (simp split: if_splits)

lemma find_sub_append:
  "find_sub pat s = Some i \<Longrightarrow> find_sub pat (s @ t) = Some i"
proof (induction s arbitrary: i)
  case Nil
  then show ?case by (cases t) (auto split: if_splits)
next
  case (Cons x xs)
  show ?case
  proof (cases "take (length pat) (x # xs) = pat")
    case True
    from arg_cong [OF True, of length] have "length pat \<le> Suc (length xs)" by simp
    then have "take (length pat) (x # xs @ t) = take (length pat) (x # xs)"
      by (cases "length pat") auto
    with True Cons.prems show ?thesis by simp
  next
    case False
    with Cons.prems obtain j where j: "find_sub pat xs = Some j" "i = Suc j" by auto
    then have "Suc j + length pat \<le> Suc (length xs)" using find_sub_Some_bound by fastforce
    then have "take (length pat) (x # xs @ t) = take (length pat) (x # xs)"
      by (cases "length pat") auto
    with False j Cons.IH show ?thesis by simp
  qed
qed

lemma takeWhile_upto [cpp_string]: "c \<notin> set xs \<Longrightarrow> takeWhile (\<lambda>x. x \<noteq> c) (xs @ c # ys) = xs"
  by (induction xs) auto

lemma takeWhile_absent [cpp_string]: "c \<notin> set xs \<Longrightarrow> takeWhile (\<lambda>x. x \<noteq> c) xs = xs"
  by (induction xs) auto

section \<open>Text protocols\<close>

text \<open>The line ending of HTTP, and the trimming its readers do.\<close>

definition crlf :: string where
  "crlf = [CHR 0x0D, CHR 0x0A]"

definition strip_cr :: "string \<Rightarrow> string" where
  "strip_cr line = (if line \<noteq> [] \<and> last line = CHR 0x0D then butlast line else line)"

definition strip_spaces :: "string \<Rightarrow> string" where
  "strip_spaces s = dropWhile (\<lambda>c. c = CHR '' '') s"

text \<open>Searching past a prefix that cannot contain the first character of the pattern.\<close>

lemma find_sub_skip:
  "c \<notin> set xs \<Longrightarrow> find_sub (c # p) (xs @ t) = map_option ((+) (length xs)) (find_sub (c # p) t)"
  by (induction xs) (cases "find_sub (c # p) t"; auto)+

lemma find_sub_here: "pat \<noteq> [] \<Longrightarrow> find_sub pat (pat @ t) = Some 0"
  by (cases pat) auto

section \<open>ASCII case folding\<close>

text \<open>\<open>std::tolower\<close> in the \<open>"C"\<close> locale, which the program never changes.\<close>

definition to_lower_char :: "char \<Rightarrow> char" where
  "to_lower_char c =
     (let n = (of_char c :: nat) in if 65 \<le> n \<and> n \<le> 90 then char_of (n + 32) else c)"

definition to_lower :: "string \<Rightarrow> string" where
  "to_lower s = map to_lower_char s"

section \<open>Decimal numbers\<close>

text \<open>\<open>std::to_string\<close> and stream output of unsigned and signed integers.\<close>

definition digit_char :: "nat \<Rightarrow> char" where
  "digit_char d = char_of (48 + d)"

fun nat_to_string :: "nat \<Rightarrow> string" where
  "nat_to_string n =
     (if n < 10 then [digit_char n] else nat_to_string (n div 10) @ [digit_char (n mod 10)])"

declare nat_to_string.simps [simp del]

definition int_to_string :: "int \<Rightarrow> string" where
  "int_to_string i =
     (if i < 0 then CHR ''-'' # nat_to_string (nat (- i)) else nat_to_string (nat i))"

definition is_digit :: "char \<Rightarrow> bool" where
  "is_digit c = (CHR ''0'' \<le> c \<and> c \<le> CHR ''9'')"

definition digit_val :: "char \<Rightarrow> nat" where
  "digit_val c = of_char c - 48"

primrec read_digits :: "nat \<Rightarrow> string \<Rightarrow> nat" where
  "read_digits acc [] = acc"
| "read_digits acc (c # cs) = (if is_digit c then read_digits (acc * 10 + digit_val c) cs else acc)"

text \<open>
  \<open>std::stoul\<close> in base 10 with a 64-bit \<open>unsigned long\<close>: leading white space is skipped, one sign
  is accepted, at least one digit is required, trailing characters are ignored, and a negative
  number is negated modulo \<open>2 ^ 64\<close>.
\<close>

definition is_space :: "char \<Rightarrow> bool" where
  "is_space c = (let n = (of_char c :: nat) in n = 32 \<or> (9 \<le> n \<and> n \<le> 13))"

definition stoul :: "string \<Rightarrow> fault + nat" where
  "stoul s =
     (let t = dropWhile is_space s;
          neg = (case t of c # _ \<Rightarrow> c = CHR ''-'' | [] \<Rightarrow> False);
          u = (case t of c # r \<Rightarrow> if c = CHR ''-'' \<or> c = CHR ''+'' then r else t | [] \<Rightarrow> [])
      in if takeWhile is_digit u = [] then Inl Invalid_argument
         else let v = read_digits 0 u in
           if v \<ge> 2 ^ 64 then Inl Out_of_range
           else Inr (if neg then wrap64 (2 ^ 64 - v) else v))"

lemma digit_char_eval:
  "digit_char 0 = CHR ''0''" "digit_char 1 = CHR ''1''" "digit_char (Suc 0) = CHR ''1''"
  "digit_char 2 = CHR ''2''" "digit_char 3 = CHR ''3''" "digit_char 4 = CHR ''4''"
  "digit_char 5 = CHR ''5''" "digit_char 6 = CHR ''6''" "digit_char 7 = CHR ''7''"
  "digit_char 8 = CHR ''8''" "digit_char 9 = CHR ''9''"
  by (simp_all add: digit_char_def char_of_def bit_0)

lemma is_digit_digit_char [simp]: "d < 10 \<Longrightarrow> is_digit (digit_char d)"
  by (simp add: is_digit_def digit_char_def less_eq_char_def of_char_of)

lemma digit_val_digit_char [simp]: "d < 10 \<Longrightarrow> digit_val (digit_char d) = d"
  by (simp add: digit_val_def digit_char_def of_char_of)

lemma read_digits_append:
  "(\<forall>c \<in> set xs. is_digit c) \<Longrightarrow> read_digits a (xs @ ys) = read_digits (read_digits a xs) ys"
  by (induction xs arbitrary: a) auto

lemma digits_nat_to_string: "\<forall>c \<in> set (nat_to_string n). is_digit c"
proof (induction n rule: nat_to_string.induct)
  case (1 n)
  then show ?case by (subst nat_to_string.simps) auto
qed

lemma nat_to_string_nonempty [simp]: "nat_to_string n \<noteq> []"
  by (subst nat_to_string.simps) simp

lemma read_nat_to_string: "read_digits 0 (nat_to_string n) = n"
proof (induction n rule: nat_to_string.induct)
  case (1 n)
  then show ?case
    using digits_nat_to_string [of "n div 10"]
    by (subst nat_to_string.simps) (simp add: read_digits_append)
qed

lemma nat_to_string_inject [simp]: "nat_to_string m = nat_to_string n \<longleftrightarrow> m = n"
  by (metis read_nat_to_string)

lemma is_digit_not_sign:
  "is_digit c \<Longrightarrow> c \<noteq> CHR ''-'' \<and> c \<noteq> CHR ''+'' \<and> \<not> is_space c"
  by (auto simp: is_digit_def is_space_def less_eq_char_def Let_def)

lemma dash_not_in_nat_to_string: "CHR ''-'' \<notin> set (nat_to_string n)"
  using digits_nat_to_string is_digit_not_sign by blast

lemma stoul_nat_to_string: "n < 2 ^ 64 \<Longrightarrow> stoul (nat_to_string n) = Inr n"
proof -
  assume n: "n < 2 ^ 64"
  obtain c cs where s: "nat_to_string n = c # cs"
    by (cases "nat_to_string n") auto
  then have c: "is_digit c" using digits_nat_to_string [of n] by simp
  then have "takeWhile is_digit (nat_to_string n) \<noteq> []"
    by (simp add: s)
  with n c is_digit_not_sign [OF c] read_nat_to_string [of n] show ?thesis
    by (simp add: stoul_def s)
qed

section \<open>Association lists with distinct keys\<close>

text \<open>
  A \<open>std::unordered_map\<close> that is iterated is an association list with distinct keys, updated with
  \<open>AList.update\<close> and \<open>AList.delete\<close>; the order of the list carries no meaning.
\<close>

lemma map_of_update [assoc_simps]: "map_of (AList.update k v kvs) = (map_of kvs)(k \<mapsto> v)"
  by (rule update_conv')

lemma map_of_delete [assoc_simps]: "map_of (AList.delete k kvs) = (map_of kvs)(k := None)"
  by (rule delete_conv')

lemma keys_update: "fst ` set (AList.update k v kvs) = insert k (fst ` set kvs)"
  using dom_update [of k v kvs] by simp

lemma set_update_distinct:
  "distinct (map fst kvs) \<Longrightarrow>
     set (AList.update k v kvs) = insert (k, v) {kv \<in> set kvs. fst kv \<noteq> k}"
  by (induction kvs) (auto simp: image_iff)

lemma set_delete: "set (AList.delete k kvs) = {kv \<in> set kvs. fst kv \<noteq> k}"
  by (auto simp: AList.delete_eq)

text \<open>How a sum over the values changes.\<close>

lemma sum_update:
  fixes f :: "'v \<Rightarrow> int"
  assumes "distinct (map fst kvs)"
  shows "(\<Sum>kv\<leftarrow>AList.update k v kvs. f (snd kv)) =
    (\<Sum>kv\<leftarrow>kvs. f (snd kv)) + f v - (case map_of kvs k of None \<Rightarrow> 0 | Some old \<Rightarrow> f old)"
  using assms by (induction kvs) auto

lemma sum_delete:
  fixes f :: "'v \<Rightarrow> int"
  assumes "distinct (map fst kvs)"
  shows "(\<Sum>kv\<leftarrow>AList.delete k kvs. f (snd kv)) =
    (\<Sum>kv\<leftarrow>kvs. f (snd kv)) - (case map_of kvs k of None \<Rightarrow> 0 | Some old \<Rightarrow> f old)"
  using assms
proof (induction kvs)
  case (Cons kv kvs)
  have "k \<notin> set (map fst kvs) \<Longrightarrow> AList.delete k kvs = kvs"
    by (induction kvs) (auto simp: AList.delete_eq)
  with Cons show ?case by (auto simp: AList.delete_eq map_of_eq_None_iff split: option.split)
qed simp

section \<open>Runs of a step function\<close>

text \<open>
  A component driven by events: what every allowed event keeps holds after any sequence of them. Each
  session and service states its invariant once and interprets one of these locales on its step.
\<close>

locale guarded_events =
  fixes step :: "'e \<Rightarrow> 's \<Rightarrow> 's"
    and inv :: "'s \<Rightarrow> bool"
    and allowed :: "'e \<Rightarrow> bool"
  assumes allowed_inv: "allowed e \<Longrightarrow> inv s \<Longrightarrow> inv (step e s)"
begin

lemma allowed_run_inv: "inv s \<Longrightarrow> \<forall>e \<in> set es. allowed e \<Longrightarrow> inv (fold step es s)"
  by (induction es arbitrary: s) (simp_all add: allowed_inv)

end

locale event_driven =
  fixes step :: "'e \<Rightarrow> 's \<Rightarrow> 's"
    and inv :: "'s \<Rightarrow> bool"
  assumes step_inv: "inv s \<Longrightarrow> inv (step e s)"

sublocale event_driven \<subseteq> every: guarded_events step inv "\<lambda>e. True"
  by unfold_locales (rule step_inv)

context event_driven
begin

lemma run_inv: "inv s \<Longrightarrow> inv (fold step es s)"
  by (rule every.allowed_run_inv) simp_all

end

end
