(* ===== verification/MqttTopic.thy ===== *)
theory MqttTopic
  imports Prelude
begin

text \<open>
  MQTT topic-filter matching (\<open>include/apr/mqtt_topic.hpp\<close>). The code walks two indices
  \<open>p_idx\<close> and \<open>t_idx\<close> through \<open>pattern\<close> and \<open>topic\<close>; the model carries the suffixes that start
  at those indices, so \<open>p_idx < pattern.size()\<close> is a non-empty first suffix and
  \<open>pattern[p_idx]\<close> its head. The reference definition \<open>level_match\<close> works on the list of topic
  levels, as the MQTT standard describes filters.
\<close>

section \<open>The code\<close>

text \<open>The two inner loops stop at the next \<open>'/'\<close>, and the following test steps over it.\<close>

definition skip_level :: "string \<Rightarrow> string" where
  "skip_level s = (case dropWhile (\<lambda>c. c \<noteq> CHR ''/'') s of [] \<Rightarrow> [] | _ # r \<Rightarrow> r)"

lemma length_skip_level [termination_simp]: "length (skip_level s) \<le> length s"
  using length_dropWhile_le [of "\<lambda>c. c \<noteq> CHR ''/''" s]
  by (auto simp: skip_level_def split: list.splits)

lemma length_skip_level_Cons: "length (skip_level (c # s)) < Suc (length s)"
proof (cases "c = CHR ''/''")
  case True
  then show ?thesis by (simp add: skip_level_def)
next
  case False
  then have "skip_level (c # s) = skip_level s" by (simp add: skip_level_def)
  with length_skip_level [of s] show ?thesis by simp
qed

function topic_loop :: "string \<Rightarrow> string \<Rightarrow> bool" where
  "topic_loop [] t = (t = [])"
| "topic_loop (c # p) [] = (c = CHR ''#'' \<and> p = [])"
| "topic_loop (c # p) (d # t) =
     (if c = CHR ''#'' then True
      else if c = CHR ''+'' then topic_loop (skip_level (c # p)) (skip_level (d # t))
      else if c \<noteq> d then False
      else topic_loop p t)"
  by pat_completeness auto
termination
  by (relation "measure (\<lambda>(p, t). length p)") (auto simp: length_skip_level_Cons)

definition topic_matches :: "string \<Rightarrow> string \<Rightarrow> bool" where
  "topic_matches pattern topic =
     (if pattern = ''#'' then True
      else if pattern = topic then True
      else topic_loop pattern topic)"

section \<open>Reference definition on topic levels\<close>

fun join_levels :: "string list \<Rightarrow> string" where
  "join_levels [] = []"
| "join_levels [l] = l"
| "join_levels (l # ls) = l @ CHR ''/'' # join_levels ls"

fun level_match :: "string list \<Rightarrow> string list \<Rightarrow> bool" where
  "level_match [] ts = (ts = [])"
| "level_match (p # ps) [] = (p = ''#'' \<and> ps = [])"
| "level_match (p # ps) (t # ts) =
     (p = ''#'' \<or> ((p = ''+'' \<or> p = t) \<and> level_match ps ts))"

text \<open>
  Well-formed topic names have no empty level; in a well-formed filter a \<open>'+'\<close> or \<open>'#'\<close> is a
  level of its own and \<open>'#'\<close> is the last one.
\<close>

definition topic_level :: "string \<Rightarrow> bool" where
  "topic_level l = (l \<noteq> [] \<and> CHR ''/'' \<notin> set l)"

definition plain_level :: "string \<Rightarrow> bool" where
  "plain_level l = (topic_level l \<and> CHR ''+'' \<notin> set l \<and> CHR ''#'' \<notin> set l)"

definition wf_topic :: "string list \<Rightarrow> bool" where
  "wf_topic ts = (ts \<noteq> [] \<and> list_all topic_level ts)"

fun wf_filter :: "string list \<Rightarrow> bool" where
  "wf_filter [] = False"
| "wf_filter [p] = (p = ''#'' \<or> p = ''+'' \<or> plain_level p)"
| "wf_filter (p # ps) = ((p = ''+'' \<or> plain_level p) \<and> wf_filter ps)"

section \<open>Lemmas\<close>

lemma skip_level_append [simp]:
  "CHR ''/'' \<notin> set l \<Longrightarrow> skip_level (l @ CHR ''/'' # r) = r"
  by (induction l) (auto simp: skip_level_def)

lemma skip_level_last [simp]: "CHR ''/'' \<notin> set l \<Longrightarrow> skip_level l = []"
  by (induction l) (auto simp: skip_level_def)

lemma join_levels_Cons:
  "join_levels (l # ls) = (if ls = [] then l else l @ CHR ''/'' # join_levels ls)"
  by (cases ls) auto

lemma skip_level_join [simp]:
  "topic_level l \<Longrightarrow> skip_level (join_levels (l # ls)) = join_levels ls"
  by (cases ls) (auto simp: topic_level_def)

lemma join_levels_nonempty [simp]:
  "topic_level l \<Longrightarrow> join_levels (l # ls) \<noteq> []"
  by (auto simp: join_levels_Cons topic_level_def)

lemma topic_loop_plain:
  "CHR ''+'' \<notin> set l \<Longrightarrow> CHR ''#'' \<notin> set l \<Longrightarrow> topic_loop (l @ p) (l @ t) = topic_loop p t"
  by (induction l) auto

text \<open>
  Two different plain levels are told apart at the first character where they differ, or where
  the shorter one ends.
\<close>

lemma topic_loop_plain_differ:
  assumes "CHR ''+'' \<notin> set l" "CHR ''#'' \<notin> set l" "l \<noteq> k"
    and "CHR ''/'' \<notin> set l" "CHR ''/'' \<notin> set k"
    and "p = [] \<or> hd p = CHR ''/''" and "t = [] \<or> hd t = CHR ''/''"
  shows "\<not> topic_loop (l @ p) (k @ t)"
  using assms
proof (induction l arbitrary: k)
  case Nil
  then show ?case by (cases k; cases p) auto
next
  case (Cons c l)
  show ?case
  proof (cases k)
    case Nil
    with Cons.prems show ?thesis by (cases t) auto
  next
    case (Cons d k')
    with Cons.prems Cons.IH [of k'] show ?thesis by auto
  qed
qed

lemma topic_loop_hash: "t \<noteq> [] \<Longrightarrow> topic_loop (CHR ''#'' # p) t"
  by (cases t) auto

lemma topic_loop_plus:
  assumes "topic_level t"
  shows "topic_loop (join_levels (''+'' # ps)) (join_levels (t # ts)) =
         topic_loop (join_levels ps) (join_levels ts)"
proof -
  obtain d r where dr: "join_levels (t # ts) = d # r"
    using join_levels_nonempty [OF assms] by (cases "join_levels (t # ts)") auto
  obtain q where q: "join_levels (''+'' # ps) = CHR ''+'' # q"
    by (cases ps) auto
  have "skip_level (CHR ''+'' # q) = join_levels ps"
    using skip_level_join [of "''+''" ps] q by (simp add: topic_level_def)
  moreover have "skip_level (d # r) = join_levels ts"
    using skip_level_join [OF assms, of ts] dr by simp
  ultimately show ?thesis by (simp add: dr q)
qed

lemma wf_filter_tl: "wf_filter (p # q # ps) \<Longrightarrow> wf_filter (q # ps)"
  by simp

lemma join_levels_hash: "join_levels ps = ''#'' \<Longrightarrow> ps = [''#'']"
proof (cases ps rule: join_levels.cases)
  case (3 l v va)
  assume "join_levels ps = ''#''"
  then have "CHR ''/'' \<in> set ''#''"
    using 3 by (metis in_set_conv_decomp join_levels.simps(3))
  then show ?thesis by simp
qed auto

text \<open>What follows a level in a filter or a topic: nothing, or a slash and the other levels.\<close>

definition level_tail :: "string list \<Rightarrow> string" where
  "level_tail ls = (if ls = [] then [] else CHR ''/'' # join_levels ls)"

lemma join_levels_tail: "join_levels (l # ls) = l @ level_tail ls"
  by (simp add: level_tail_def join_levels_Cons)

lemma level_tail_slash: "level_tail ls = [] \<or> hd (level_tail ls) = CHR ''/''"
  by (simp add: level_tail_def)

lemma topic_loop_tails:
  "list_all topic_level ts \<Longrightarrow> topic_loop (level_tail ps) (level_tail ts) =
     (if ps = [] \<or> ts = [] then ps = [] \<and> ts = []
      else topic_loop (join_levels ps) (join_levels ts))"
  by (auto simp: level_tail_def)

lemma topic_loop_joined_end:
  assumes "list_all topic_level ts" "ps = [] \<or> ts = []" "ps = [] \<or> wf_filter ps"
  shows "topic_loop (join_levels ps) (join_levels ts) =
    (ts = [] \<and> (ps = [] \<or> ps = [''#'']))"
proof (cases "ps = []")
  case True
  with assms(1) show ?thesis by (cases ts) auto
next
  case False
  with assms obtain p q where ts: "ts = []" and wf: "wf_filter ps" and j: "ps = p # q"
    by (cases ps) auto
  have "join_levels ps \<noteq> []"
    using wf j by (cases q) (auto simp: plain_level_def topic_level_def)
  then have "topic_loop (join_levels ps) [] = (join_levels ps = ''#'')"
    by (cases "join_levels ps") auto
  with ts wf show ?thesis using join_levels_hash False by auto
qed

definition deep_enough :: "string list \<Rightarrow> string list \<Rightarrow> bool" where
  "deep_enough ps ts = (last ps \<noteq> ''#'' \<or> length ps \<le> length ts)"

lemma topic_loop_levels:
  assumes "wf_filter ps" and "list_all topic_level ts" and "ts \<noteq> []" and "deep_enough ps ts"
  shows "topic_loop (join_levels ps) (join_levels ts) = level_match ps ts"
  using assms
proof (induction ps ts rule: level_match.induct)
  case (3 p ps t ts)
  have t: "topic_level t" and ts: "list_all topic_level ts" using "3.prems" by simp_all
  note ne = join_levels_nonempty [OF t, of ts]
  have rest: "topic_loop (join_levels ps) (join_levels ts) = level_match ps ts"
    if "ps \<noteq> []" "ts \<noteq> []" "p = ''+'' \<or> p = t"
    using that "3.prems" "3.IH" by (cases ps) (auto simp: deep_enough_def split: if_splits)
  consider (hash) "p = ''#''" "ps = []" | (plus) "p = ''+''" | (plain) "plain_level p"
    using "3.prems" by (cases ps) auto
  then show ?case
  proof cases
    case hash
    with ne show ?thesis by (simp add: topic_loop_hash)
  next
    case plus
    have "topic_loop (join_levels ps) (join_levels ts) = level_match ps ts"
    proof (cases "ps = [] \<or> ts = []")
      case True
      have "ps = [] \<or> wf_filter ps" using "3.prems" by (cases ps) auto
      from topic_loop_joined_end [OF ts True this]
      show ?thesis using True "3.prems"(4)
        by (cases ps; cases ts) (auto simp: deep_enough_def split: if_splits)
    qed (use rest plus in auto)
    with plus t show ?thesis by (simp add: topic_loop_plus)
  next
    case plain
    then have p: "CHR ''+'' \<notin> set p" "CHR ''#'' \<notin> set p" "CHR ''/'' \<notin> set p" "p \<noteq> []"
      by (auto simp: plain_level_def topic_level_def)
    then have ph: "p \<noteq> ''#''" "p \<noteq> ''+''" by auto
    have t': "CHR ''/'' \<notin> set t" using t by (simp add: topic_level_def)
    show ?thesis
    proof (cases "p = t")
      case False
      with topic_loop_plain_differ [of p t "level_tail ps" "level_tail ts"] p t' ph
        level_tail_slash show ?thesis by (simp add: join_levels_tail)
    next
      case True
      have "topic_loop (level_tail ps) (level_tail ts) = level_match ps ts"
      proof (cases "ps = [] \<or> ts = []")
        case True
        with "3.prems"(4) ts show ?thesis
          by (cases ps; cases ts) (auto simp: topic_loop_tails deep_enough_def split: if_splits)
      qed (use rest True ts in \<open>auto simp: topic_loop_tails\<close>)
      with True p ph show ?thesis by (simp add: join_levels_tail topic_loop_plain)
    qed
  qed
qed auto

lemma topic_loop_self: "topic_loop p p"
proof (induction "length p" arbitrary: p rule: less_induct)
  case less
  show ?case
  proof (cases p)
    case (Cons c q)
    with less length_skip_level_Cons [of c q] show ?thesis by auto
  qed simp
qed

lemma topic_loop_all: "topic_loop ''#'' t"
  by (cases t) auto

text \<open>The two early returns of the code only save work.\<close>

lemma topic_matches_loop: "topic_matches p t = topic_loop p t"
  using topic_loop_self topic_loop_all by (auto simp: topic_matches_def)

section \<open>Properties\<close>



text \<open>A subscriber of \<open>apr/+\<close> receives the topic \<open>apr/{role}\<close> of a node exactly when the role is
  not empty and holds no \<open>/\<close> before its last character; a node with an empty role or a role
  with an inner slash is announced to no \<open>apr/+\<close> subscriber.\<close>

theorem apr_plus_receives_role:
  "topic_matches ''apr/+'' (''apr/'' @ role) =
     (role \<noteq> [] \<and> CHR ''/'' \<notin> set (butlast role))"
proof (cases role)
  case Nil
  then show ?thesis by (simp add: topic_matches_loop)
next
  case (Cons c r)
  have "skip_level (c # r) = [] \<longleftrightarrow> CHR ''/'' \<notin> set (butlast (c # r))"
    by (induction r arbitrary: c) (auto simp: skip_level_def split: list.splits)
  with Cons show ?thesis
    by (simp add: topic_matches_loop skip_level_def)
qed

text \<open>A filter \<open>l\<^sub>1/../l\<^sub>n/#\<close> of plain levels never matches its parent topic
  \<open>l\<^sub>1/../l\<^sub>n\<close>, although the MQTT standard (and \<open>level_match\<close>) says the multi-level wildcard
  includes the parent level.\<close>

theorem hash_misses_parent_level:
  assumes "ls \<noteq> []" and "list_all plain_level ls"
  shows "\<not> topic_matches (join_levels (ls @ [''#''])) (join_levels ls) \<and>
    level_match (ls @ [''#'']) ls"
proof
  have "join_levels (ls @ [''#'']) = join_levels ls @ ''/#''"
    using assms(1) by (induction ls rule: join_levels.induct) auto
  moreover have "CHR ''+'' \<notin> set (join_levels ls)" "CHR ''#'' \<notin> set (join_levels ls)"
    using assms(2) by (induction ls rule: join_levels.induct) (auto simp: plain_level_def)
  ultimately show "\<not> topic_matches (join_levels (ls @ [''#''])) (join_levels ls)"
    using topic_loop_plain [of "join_levels ls" "''/#''" "[]"] by (simp add: topic_matches_loop)
  show "level_match (ls @ [''#'']) ls"
    by (induction ls) auto
qed

theorem hash_misses_parent_level_witness:
  "\<not> topic_matches ''app/api/#'' ''app/api'' \<and> topic_matches ''app/+/#'' ''app/api''"
  using hash_misses_parent_level [of "[''app'', ''api'']"]
  by (simp add: plain_level_def topic_level_def topic_matches_def skip_level_def)

end
