(* ===== verification/MqttPacket.thy ===== *)
theory MqttPacket
  imports Prelude
begin

text \<open>
  The MQTT packet codec (\<open>src/mqtt/mqtt_packet.hpp\<close>, \<open>mqtt_packet.cpp\<close>). A packet is the byte
  list \<open>data[0..len)\<close>; \<open>offset\<close> is an index into it, and every read goes through \<open>byte_at\<close> or
  \<open>slice\<close>, so that a read past \<open>len\<close> would show as the fault \<open>Out_of_bounds\<close>. The
  \<open>std::runtime_error\<close> of the helper functions is \<open>Runtime_error\<close>, and the \<open>catch (...)\<close> of
  the decoders is \<open>catch_res\<close>: \<open>None\<close> stands for the decoder's \<open>false\<close>.
\<close>

section \<open>Packet types\<close>

datatype mqtt_type =
    Connect | Connack | Publish | Puback | Subscribe | Suback | Pingreq | Pingresp | Disconnect

primrec mqtt_type_byte :: "mqtt_type \<Rightarrow> byte" where
  "mqtt_type_byte Connect = 0x10"
| "mqtt_type_byte Connack = 0x20"
| "mqtt_type_byte Publish = 0x30"
| "mqtt_type_byte Puback = 0x40"
| "mqtt_type_byte Subscribe = 0x82"
| "mqtt_type_byte Suback = 0x90"
| "mqtt_type_byte Pingreq = 0xC0"
| "mqtt_type_byte Pingresp = 0xD0"
| "mqtt_type_byte Disconnect = 0xE0"

record mqtt_connect =
  conn_client_id :: string
  conn_username :: string
  conn_password :: string
  conn_keep_alive :: "16 word"

record mqtt_publish =
  pub_topic :: string
  pub_payload :: string
  pub_packet_id :: "16 word"
  pub_qos :: byte
  pub_retain :: bool

record mqtt_subscribe =
  sub_packet_id :: "16 word"
  sub_topics :: "string list"

section \<open>Field readers and writers\<close>

function encode_remaining_length :: "nat \<Rightarrow> bytes" where
  "encode_remaining_length n =
     (let d = word_of_nat (n mod 128); n' = n div 128
      in if n' > 0 then (d OR 0x80) # encode_remaining_length n' else [d])"
  by pat_completeness auto
termination
  by (relation "measure id") auto

declare encode_remaining_length.simps [simp del]

text \<open>
  The loop of \<open>decode_remaining_length\<close> over the bytes from \<open>data + bytes_read\<close> on; the three
  accumulators are the local variables \<open>multiplier\<close>, \<open>value\<close> and \<open>bytes_read\<close>.
\<close>

fun decode_remaining_length_loop :: "bytes \<Rightarrow> nat \<Rightarrow> nat \<Rightarrow> nat \<Rightarrow> (nat \<times> nat) res" where
  "decode_remaining_length_loop [] m val n = Inl Runtime_error"
| "decode_remaining_length_loop (b # bs) m val n =
     (let val' = val + unat (b AND 127) * m; m' = m * 128
      in if m' > 128 * 128 * 128 then Inl Runtime_error
         else if b AND 128 \<noteq> 0 then decode_remaining_length_loop bs m' val' (n + 1)
         else Inr (val', n + 1))"

definition decode_remaining_length :: "bytes \<Rightarrow> (nat \<times> nat) res" where
  "decode_remaining_length data = decode_remaining_length_loop data 1 0 0"

definition read_string :: "bytes \<Rightarrow> nat \<Rightarrow> (string \<times> nat) res" where
  "read_string data offset =
     (if offset + 2 > length data then Inl Runtime_error
      else bind_res (byte_at data offset) (\<lambda>hi.
        bind_res (byte_at data (offset + 1)) (\<lambda>lo.
          let len = unat (be16 hi lo); offset = offset + 2
          in if offset + len > length data then Inl Runtime_error
             else bind_res (slice data offset len) (\<lambda>bs.
               Inr (string_of_bytes bs, offset + len)))))"

definition read_u8 :: "bytes \<Rightarrow> nat \<Rightarrow> (byte \<times> nat) res" where
  "read_u8 data offset =
     (if offset + 1 > length data then Inl Runtime_error
      else bind_res (byte_at data offset) (\<lambda>b. Inr (b, offset + 1)))"

definition read_u16 :: "bytes \<Rightarrow> nat \<Rightarrow> (16 word \<times> nat) res" where
  "read_u16 data offset =
     (if offset + 2 > length data then Inl Runtime_error
      else bind_res (byte_at data offset) (\<lambda>hi.
        bind_res (byte_at data (offset + 1)) (\<lambda>lo. Inr (be16 hi lo, offset + 2))))"

definition write_string :: "string \<Rightarrow> bytes" where
  "write_string str =
     (let len = word_of_nat (length str) in [hi_byte len, lo_byte len] @ bytes_of_string str)"

section \<open>Encoders\<close>

definition encode_connack :: "byte \<Rightarrow> bytes" where
  "encode_connack return_code = [mqtt_type_byte Connack, 0x02, 0x00, return_code]"

definition encode_puback :: "16 word \<Rightarrow> bytes" where
  "encode_puback pid = [mqtt_type_byte Puback, 0x02, hi_byte pid, lo_byte pid]"

definition encode_suback :: "16 word \<Rightarrow> bytes \<Rightarrow> bytes" where
  "encode_suback pid return_codes =
     (let payload = [hi_byte pid, lo_byte pid] @ return_codes
      in [mqtt_type_byte Suback] @ encode_remaining_length (length payload) @ payload)"

definition encode_pingresp :: bytes where
  "encode_pingresp = [mqtt_type_byte Pingresp, 0x00]"

definition encode_publish :: "string \<Rightarrow> string \<Rightarrow> byte \<Rightarrow> 16 word \<Rightarrow> bytes" where
  "encode_publish t p q pid =
     (let body = write_string t @ (if q > 0 then [hi_byte pid, lo_byte pid] else []) @
            bytes_of_string p;
          header = mqtt_type_byte Publish OR push_bit 1 (q AND 0x03)
      in [header] @ encode_remaining_length (length body) @ body)"

section \<open>Decoders\<close>

definition decode_connect_body :: "bytes \<Rightarrow> mqtt_connect option res" where
  "decode_connect_body data =
     (if length data < 2 then Inr None
      else bind_res (decode_remaining_length (drop 1 data)) (\<lambda>(rem_len, bytes_read).
        let offset = 1 + bytes_read
        in if length data < offset + rem_len then Inr None
           else bind_res (read_string data offset) (\<lambda>(proto_name, offset).
             if proto_name \<noteq> ''MQTT'' \<and> proto_name \<noteq> ''MQIsdp'' then Inr None
             else bind_res (read_u8 data offset) (\<lambda>(_, offset).
               bind_res (read_u8 data offset) (\<lambda>(conn_flags, offset).
               bind_res (read_u16 data offset) (\<lambda>(ka, offset).
               bind_res (read_string data offset) (\<lambda>(cid, offset).
               bind_res
                 (if conn_flags AND 0x04 \<noteq> 0
                  then bind_res (read_string data offset) (\<lambda>(_, offset).
                    bind_res (read_string data offset) (\<lambda>(_, offset). Inr offset))
                  else Inr offset) (\<lambda>offset.
               bind_res
                 (if conn_flags AND 0x80 \<noteq> 0 then read_string data offset else Inr ([], offset))
                 (\<lambda>(user, offset).
               bind_res
                 (if conn_flags AND 0x40 \<noteq> 0 then read_string data offset else Inr ([], offset))
                 (\<lambda>(pass, _).
                   Inr (Some \<lparr>conn_client_id = cid, conn_username = user, conn_password = pass,
                              conn_keep_alive = ka\<rparr>)))))))))))"

definition decode_connect :: "bytes \<Rightarrow> mqtt_connect option res" where
  "decode_connect data = catch_res None (decode_connect_body data)"

definition decode_publish_body :: "bytes \<Rightarrow> mqtt_publish option res" where
  "decode_publish_body data =
     (if length data < 2 then Inr None
      else bind_res (byte_at data 0) (\<lambda>header.
        let q = drop_bit 1 header AND 0x03; r = (header AND 0x01 \<noteq> 0)
        in bind_res (decode_remaining_length (drop 1 data)) (\<lambda>(rem_len, bytes_read).
          let offset = 1 + bytes_read
          in if length data < offset + rem_len then Inr None
             else bind_res (read_string data offset) (\<lambda>(t, offset).
               bind_res (if q > 0 then read_u16 data offset else Inr (0, offset))
                 (\<lambda>(pid, offset).
                   let end_offset = 1 + bytes_read + rem_len
                   in if offset > end_offset then Inr None
                      else bind_res (slice data offset (end_offset - offset)) (\<lambda>bs.
                        Inr (Some \<lparr>pub_topic = t, pub_payload = string_of_bytes bs, pub_packet_id = pid,
                                   pub_qos = q, pub_retain = r\<rparr>)))))))"

definition decode_publish :: "bytes \<Rightarrow> mqtt_publish option res" where
  "decode_publish data = catch_res None (decode_publish_body data)"

text \<open>The \<open>while (offset < end_offset)\<close> loop of \<open>decode_subscribe\<close>.\<close>

lemma read_string_advances:
  "read_string data offset = Inr (s, offset') \<Longrightarrow>
     offset + 2 \<le> offset' \<and> offset' \<le> length data \<and> offset' = offset + 2 + length s"
  by (auto simp: read_string_def Let_def split: if_splits)

lemma read_u8_advances:
  "read_u8 data offset = Inr (b, offset') \<Longrightarrow> offset' = offset + 1 \<and> offset' \<le> length data"
  by (auto simp: read_u8_def split: if_splits)

function decode_topics :: "bytes \<Rightarrow> nat \<Rightarrow> nat \<Rightarrow> string list \<Rightarrow> string list res" where
  "decode_topics data offset end_offset ts =
     (if offset < end_offset
      then case read_string data offset of Inl e \<Rightarrow> Inl e
        | Inr (t, offset1) \<Rightarrow>
            (case read_u8 data offset1 of Inl e \<Rightarrow> Inl e
             | Inr (_, offset2) \<Rightarrow> decode_topics data offset2 end_offset (ts @ [t]))
      else Inr ts)"
  by pat_completeness auto
termination
  by (relation "measure (\<lambda>(data, offset, end_offset, ts). end_offset - offset)")
    (auto dest!: read_string_advances read_u8_advances)

declare decode_topics.simps [simp del]

definition decode_subscribe_body :: "bytes \<Rightarrow> mqtt_subscribe option res" where
  "decode_subscribe_body data =
     (if length data < 2 then Inr None
      else bind_res (decode_remaining_length (drop 1 data)) (\<lambda>(rem_len, bytes_read).
        let offset = 1 + bytes_read
        in if length data < offset + rem_len then Inr None
           else bind_res (read_u16 data offset) (\<lambda>(pid, offset).
             bind_res (decode_topics data offset (1 + bytes_read + rem_len) []) (\<lambda>ts.
               Inr (Some \<lparr>sub_packet_id = pid, sub_topics = ts\<rparr>)))))"

definition decode_subscribe :: "bytes \<Rightarrow> mqtt_subscribe option res" where
  "decode_subscribe data = catch_res None (decode_subscribe_body data)"

section \<open>The remaining-length field\<close>

lemma byte_and_127: "unat ((b :: byte) AND 127) = unat b mod 128"
proof -
  have "b AND 127 = take_bit 7 b"
    by (simp add: take_bit_eq_mask mask_eq_exp_minus_1)
  moreover have "unat (take_bit 7 b) = take_bit 7 (unat b)"
    by (rule unsigned_take_bit_eq)
  ultimately show ?thesis by (simp add: take_bit_eq_mod [of 7 "unat b"])
qed

lemma byte_or_128_and_127: "unat (((b :: byte) OR 128) AND 127) = unat b mod 128"
proof -
  have "(b OR 128) AND 127 = b AND 127"
    by (simp add: bit.conj_disj_distrib2)
  then show ?thesis by (simp add: byte_and_127)
qed

lemma byte_and_128: "(b :: byte) AND 128 = 0 \<longleftrightarrow> unat b < 128"
proof -
  have "b AND 128 = 0 \<longleftrightarrow> \<not> bit b 7"
    using and_exp_eq_0_iff_not_bit [of b 7] by simp
  moreover have "bit b 7 \<longleftrightarrow> odd (unat b div 128)"
    using bit_unsigned_iff [of b 7, where ?'a = nat] by (simp add: bit_iff_odd)
  moreover have "unat b div 128 < 2"
    by (rule less_mult_imp_div_less) (use unat_byte_less [of b] in simp)
  ultimately show ?thesis
    by (auto simp: less_2_cases_iff div_eq_0_iff odd_iff_mod_2_eq_one)
qed

lemma byte_or_128_and_128: "((b :: byte) OR 128) AND 128 \<noteq> 0"
  by (simp add: bit.conj_disj_distrib2)

lemma unat_byte_of_nat: "k < 256 \<Longrightarrow> unat (word_of_nat k :: byte) = k"
  by (simp add: unat_of_nat)

text \<open>
  Decoding an encoded length gives it back when the accumulated multiplier stays within the
  bound the decoder checks, and is refused as soon as it would exceed it.
\<close>

lemma decode_remaining_length_loop_encode:
  "decode_remaining_length_loop (encode_remaining_length n @ rest) m v k =
     (if m * 128 ^ length (encode_remaining_length n) \<le> 128 ^ 3
      then Inr (v + n * m, k + length (encode_remaining_length n))
      else Inl Runtime_error)"
proof (induction n arbitrary: m v k rule: encode_remaining_length.induct)
  case (1 n)
  let ?d = "word_of_nat (n mod 128) :: byte"
  have d: "unat ?d = n mod 128" by (rule unat_byte_of_nat) (simp add: less_trans)
  show ?case
  proof (cases "n div 128 > 0")
    case True
    have enc: "encode_remaining_length n = (?d OR 0x80) # encode_remaining_length (n div 128)"
      using True by (subst encode_remaining_length.simps) (simp add: Let_def)
    have len: "0 < length (encode_remaining_length (n div 128))"
      by (subst encode_remaining_length.simps) (simp add: Let_def)
    have "v + n mod 128 * m + n div 128 * (m * 128) = v + n * m"
      by (simp add: algebra_simps flip: mult.assoc distrib_left)
        (metis add.commute distrib_left mod_mult_div_eq mult.commute mult.left_commute)
    moreover have "\<not> m * 128 \<le> 128 ^ 3 \<Longrightarrow>
        \<not> m * 128 ^ length (encode_remaining_length n) \<le> 128 ^ 3"
      using len by (auto simp: enc not_le intro: less_le_trans)
    ultimately show ?thesis
      using "1.IH" [OF refl refl True] d
      by (auto simp: enc byte_or_128_and_128 byte_or_128_and_127 Let_def mult.assoc)
  next
    case False
    then have enc: "encode_remaining_length n = [?d]" and "n mod 128 = n"
      by (subst encode_remaining_length.simps, simp_all add: Let_def div_eq_0_iff)
    moreover have "?d AND 128 = 0" using d by (simp add: byte_and_128)
    ultimately show ?thesis using d by (simp add: byte_and_127 Let_def)
  qed
qed

lemma length_encode_remaining_length:
  "length (encode_remaining_length n) \<le> Suc j \<longleftrightarrow> n < 128 ^ Suc j"
proof (induction n arbitrary: j rule: encode_remaining_length.induct)
  case (1 n)
  show ?case
  proof (cases "n div 128 > 0")
    case True
    have "length (encode_remaining_length n) = Suc (length (encode_remaining_length (n div 128)))"
      using True by (subst encode_remaining_length.simps) (simp add: Let_def)
    moreover have "0 < length (encode_remaining_length (n div 128))"
      by (subst encode_remaining_length.simps) (simp add: Let_def)
    ultimately show ?thesis
      using "1.IH" [OF refl refl True] True
      by (cases j) (auto simp: div_less_iff_less_mult mult.commute div_greater_zero_iff)
  next
    case False
    then have "length (encode_remaining_length n) = 1" "n < 128"
      by (subst encode_remaining_length.simps, simp_all add: Let_def div_eq_0_iff)
    moreover have "(128::nat) \<le> 128 ^ Suc j" by simp
    ultimately show ?thesis by linarith
  qed
qed

lemma decode_remaining_length_encode:
  "decode_remaining_length (encode_remaining_length n @ rest) =
     (if n < 2 ^ 21 then Inr (n, length (encode_remaining_length n)) else Inl Runtime_error)"
proof -
  have "(128::nat) ^ l \<le> 128 ^ 3 \<longleftrightarrow> l \<le> 3" for l
    by (simp only: power_increasing_iff [of "128::nat"] numeral_less_iff)
  then show ?thesis
    using length_encode_remaining_length [of n 2]
    by (simp add: decode_remaining_length_def decode_remaining_length_loop_encode numeral_3_eq_3)
qed

section \<open>The decoders stay inside the packet\<close>

named_theorems no_oob \<open>computations that never read outside the packet\<close>

lemma decode_remaining_length_loop_bounds:
  "decode_remaining_length_loop data m v k = Inr (r, n) \<Longrightarrow> k < n \<and> n \<le> k + length data"
  by (induction data m v k rule: decode_remaining_length_loop.induct)
    (fastforce simp: Let_def split: if_splits)+

lemma decode_remaining_length_bounds:
  "decode_remaining_length data = Inr (r, n) \<Longrightarrow> 0 < n \<and> n \<le> length data"
  by (drule decode_remaining_length_loop_bounds [of data 1 0 0, folded decode_remaining_length_def])
    simp

lemma decode_remaining_length_no_oob [no_oob]:
  "decode_remaining_length data \<noteq> Inl Out_of_bounds"
proof -
  have "decode_remaining_length_loop data m v k \<noteq> Inl Out_of_bounds" for m v k
    by (induction data m v k rule: decode_remaining_length_loop.induct) (auto simp: Let_def)
  then show ?thesis by (simp add: decode_remaining_length_def)
qed

lemma read_string_no_oob [no_oob]: "read_string data offset \<noteq> Inl Out_of_bounds"
  by (simp add: read_string_def Let_def)

lemma read_u8_no_oob [no_oob]: "read_u8 data offset \<noteq> Inl Out_of_bounds"
  by (simp add: read_u8_def)

lemma read_u16_no_oob [no_oob]: "read_u16 data offset \<noteq> Inl Out_of_bounds"
  by (simp add: read_u16_def)

lemma read_u16_advances:
  "read_u16 data offset = Inr (w, offset') \<Longrightarrow> offset' = offset + 2 \<and> offset' \<le> length data"
  by (auto simp: read_u16_def split: if_splits)

lemma decode_topics_no_oob [no_oob]: "decode_topics data offset e ts \<noteq> Inl Out_of_bounds"
proof (induction data offset e ts rule: decode_topics.induct)
  case (1 data offset e ts)
  then show ?case
    using read_string_no_oob [of data offset] read_u8_no_oob [of data]
    by (subst decode_topics.simps) (auto split: sum.splits)
qed

lemma decode_connect_body_no_oob [no_oob]: "decode_connect_body data \<noteq> Inl Out_of_bounds"
  by (simp add: decode_connect_body_def no_oob Let_def split: prod.splits)

lemma decode_subscribe_body_no_oob [no_oob]: "decode_subscribe_body data \<noteq> Inl Out_of_bounds"
  by (simp add: decode_subscribe_body_def no_oob Let_def split: prod.splits)

lemma decode_publish_body_no_oob [no_oob]: "decode_publish_body data \<noteq> Inl Out_of_bounds"
  by (simp add: decode_publish_body_def byte_at_def no_oob Let_def split: prod.splits)

text \<open>C20: Every decoder returns on every byte sequence: it reads no byte outside the packet and
  lets no exception escape, whatever the lengths inside the packet claim.\<close>

theorem mqtt_decoders_total:
  "(\<exists>c. decode_connect data = Inr c) \<and> (\<exists>p. decode_publish data = Inr p) \<and>
   (\<exists>s. decode_subscribe data = Inr s)"
  by (simp add: decode_connect_def decode_publish_def decode_subscribe_def catch_res_total no_oob)

section \<open>Fields and their readers\<close>

text \<open>
  The contract between a field's writer and its reader: wherever the written field stands in a
  packet, the reader started at its first byte returns the value and the offset behind it. A
  packet's round trip is a chain of these facts.
\<close>

locale field_codec =
  fixes writer :: "'a \<Rightarrow> bytes"
    and reader :: "bytes \<Rightarrow> nat \<Rightarrow> ('a \<times> nat) res"
    and valid :: "'a \<Rightarrow> bool"
  assumes read_written: "valid x \<Longrightarrow> data = pre @ writer x @ rest \<Longrightarrow>
    reader data (length pre) = Inr (x, length pre + length (writer x))"
begin

lemma read_at: "valid x \<Longrightarrow> length pre = n \<Longrightarrow>
    reader (pre @ writer x @ rest) n = Inr (x, n + length (writer x))"
  using read_written by blast

lemma read_two:
  assumes "valid x" "valid y"
  shows "bind_res (reader (pre @ writer x @ writer y @ rest) (length pre)) (\<lambda>(a, n).
      bind_res (reader (pre @ writer x @ writer y @ rest) n) (\<lambda>(b, n'). f a b n')) =
    f x y (length pre + length (writer x) + length (writer y))"
proof -
  have "reader (pre @ writer x @ writer y @ rest) (length pre + length (writer x)) =
      Inr (y, length pre + length (writer x) + length (writer y))"
    using read_at [OF assms(2), of "pre @ writer x" _ rest] by simp
  then show ?thesis using read_at [OF assms(1) refl] by simp
qed

end

definition write_u8 :: "byte \<Rightarrow> bytes" where
  "write_u8 b = [b]"

definition write_u16 :: "16 word \<Rightarrow> bytes" where
  "write_u16 w = [hi_byte w, lo_byte w]"

interpretation u8: field_codec write_u8 read_u8 "\<lambda>_. True"
  by unfold_locales (simp add: read_u8_def write_u8_def nth_append)

interpretation u16: field_codec write_u16 read_u16 "\<lambda>_. True"
  by unfold_locales (simp add: read_u16_def write_u16_def nth_append)

interpretation str: field_codec write_string read_string "\<lambda>s. length s < 65536"
proof
  fix s :: string and data pre rest
  assume s: "length s < 65536" and data: "data = pre @ write_string s @ rest"
  have len: "unat (be16 (data ! length pre) (data ! Suc (length pre))) = length s"
    using s by (simp add: data write_string_def Let_def nth_append unat_of_nat)
  moreover have "take (length s) (drop (length pre + 2) data) = bytes_of_string s"
    by (simp add: data write_string_def Let_def)
  moreover have "length pre + 2 + length s \<le> length data"
    by (simp add: data write_string_def Let_def)
  ultimately show "read_string data (length pre) = Inr (s, length pre + length (write_string s))"
    by (simp add: read_string_def write_string_def Let_def)
qed

lemma length_write_string [simp]: "length (write_string s) = 2 + length s"
  by (simp add: write_string_def Let_def)

section \<open>Round trip of PUBLISH\<close>

lemma qos_cases: "(q :: byte) < 4 \<Longrightarrow> q = 0 \<or> q = 1 \<or> q = 2 \<or> q = 3"
  by unat_arith

definition publish_header :: "byte \<Rightarrow> byte" where
  "publish_header q = mqtt_type_byte Publish OR push_bit 1 (q AND 0x03)"

lemma publish_header_fields:
  assumes "q < 4"
  shows "drop_bit 1 (publish_header q) AND 0x03 = q" "publish_header q AND 0x01 = 0"
    "publish_header q AND 0xF0 = 0x30"
  using qos_cases [OF assms] by (auto simp: publish_header_def)

definition publish_body :: "string \<Rightarrow> string \<Rightarrow> byte \<Rightarrow> 16 word \<Rightarrow> bytes" where
  "publish_body t p q pid =
     write_string t @ (if q > 0 then write_u16 pid else []) @ bytes_of_string p"

lemma encode_publish_body:
  "encode_publish t p q pid = publish_header q #
     encode_remaining_length (length (publish_body t p q pid)) @ publish_body t p q pid"
  by (simp add: encode_publish_def publish_body_def publish_header_def write_u16_def Let_def)

text \<open>The decoder's steps on a packet whose fields are known.\<close>

lemma decode_publish_steps:
  assumes "2 \<le> length data" "data ! 0 = publish_header q" "q < 4"
    and "decode_remaining_length (drop 1 data) = Inr (n, l)" "1 + l + n \<le> length data"
    and "read_string data (1 + l) = Inr (t, a)"
    and "(if q > 0 then read_u16 data a else Inr (0, a)) = Inr (pid, b)"
    and "b \<le> 1 + l + n" "take (1 + l + n - b) (drop b data) = bytes_of_string p"
  shows "decode_publish data = Inr (Some \<lparr>pub_topic = t, pub_payload = p, pub_packet_id = pid,
    pub_qos = q, pub_retain = False\<rparr>)"
proof -
  note h = publish_header_fields [OF assms(3)]
  have "byte_at data 0 = Inr (publish_header q)" using assms(1,2) by (auto simp: byte_at_def)
  moreover have "slice data b (1 + l + n - b) = Inr (bytes_of_string p)"
    using assms(5,8,9) by (simp add: slice_def)
  ultimately show ?thesis
    using assms(1,4-8) h
    by (simp add: decode_publish_def decode_publish_body_def Let_def del: One_nat_def)
qed

lemma decode_publish_framed:
  assumes "q < 4" "length t < 65536"
    and n: "n = length (publish_body t p q pid)" "n < 2 ^ 21"
  shows "decode_publish (encode_publish t p q pid @ rest) =
    Inr (Some \<lparr>pub_topic = t, pub_payload = p, pub_packet_id = (if q > 0 then pid else 0),
               pub_qos = q, pub_retain = False\<rparr>)"
proof -
  obtain L where L: "L = encode_remaining_length n" by simp
  let ?pre = "publish_header q # L"
  let ?mid = "if q > 0 then write_u16 pid else []"
  let ?b = "1 + length L + (2 + length t) + length ?mid"
  obtain data where data: "data = ?pre @ write_string t @ ?mid @ bytes_of_string p @ rest" by simp
  have enc: "encode_publish t p q pid @ rest = data"
    by (simp add: encode_publish_body n(1) publish_body_def data L)
  have nl: "n = 2 + length t + length ?mid + length p"
    by (simp add: n(1) publish_body_def)
  have rl: "decode_remaining_length (drop 1 data) = Inr (n, length L)"
    using decode_remaining_length_encode [of n] n(2) by (simp add: data L)
  have t: "read_string data (1 + length L) = Inr (t, 1 + length L + (2 + length t))"
    unfolding data using str.read_at [OF assms(2), where pre = ?pre] by simp
  have pid: "(if q > 0 then read_u16 data (1 + length L + (2 + length t))
       else Inr (0, 1 + length L + (2 + length t))) = Inr (if q > 0 then pid else 0, ?b)"
    unfolding data
    using u16.read_at [where x = pid and pre = "?pre @ write_string t"
        and rest = "bytes_of_string p @ rest"]
    by (simp add: write_u16_def)
  have pay: "take (1 + length L + n - ?b) (drop ?b data) = bytes_of_string p"
    by (simp add: data nl)
  show ?thesis unfolding enc
    by (rule decode_publish_steps [OF _ _ assms(1) rl _ t pid _ pay]) (auto simp: data nl)
qed

text \<open>C21: A PUBLISH packet the server encodes decodes to the same topic, payload, QoS and packet
  identifier, also when other bytes follow it, as long as the topic is shorter than 65536 bytes
  and the packet body than \<open>2 ^ 21\<close> bytes.\<close>

theorem publish_roundtrip:
  assumes "q < 4" "length t < 65536" "length (publish_body t p q pid) < 2 ^ 21"
  shows "decode_publish (encode_publish t p q pid @ rest) =
    Inr (Some \<lparr>pub_topic = t, pub_payload = p, pub_packet_id = (if q > 0 then pid else 0),
               pub_qos = q, pub_retain = False\<rparr>)"
  by (rule decode_publish_framed [OF assms(1,2) refl assms(3)])

theorem publish_roundtrip_witness:
  "decode_publish (encode_publish ''apr/api'' ''{}'' 1 7 @ [0xC0, 0]) =
    Inr (Some \<lparr>pub_topic = ''apr/api'', pub_payload = ''{}'', pub_packet_id = 7,
               pub_qos = 1, pub_retain = False\<rparr>)"
  using publish_roundtrip [of 1 "''apr/api''" "''{}''" 7 "[0xC0, 0]"]
  by (simp add: publish_body_def write_u16_def)

text \<open>The encoder also writes bodies of \<open>2 ^ 21\<close> bytes and more, with the four length bytes the
  MQTT standard allows, but the decoder refuses each of them: its multiplier check runs one
  byte too early.\<close>

theorem publish_large_refused:
  assumes "2 ^ 21 \<le> length (publish_body t p q pid)"
  shows "decode_publish (encode_publish t p q pid) = Inr None"
proof -
  have "decode_remaining_length (drop 1 (encode_publish t p q pid)) = Inl Runtime_error"
    using decode_remaining_length_encode [of "length (publish_body t p q pid)"] assms
    by (simp add: encode_publish_body)
  moreover have "2 \<le> length (encode_publish t p q pid)"
    using assms by (simp add: encode_publish_body)
  ultimately show ?thesis
    by (auto simp: decode_publish_def decode_publish_body_def byte_at_def Let_def)
qed

theorem publish_large_refused_witness:
  "decode_publish (encode_publish [] (replicate (2 ^ 21) (CHR ''x'')) 0 0) = Inr None"
  by (rule publish_large_refused) (simp add: publish_body_def)

end
