(* ===== verification/Sha1.thy ===== *)
theory Sha1
  imports Prelude
begin

text \<open>
  \<open>websocket_codec::sha1\<close> (\<open>src/mqtt/websocket_codec.cpp\<close>) and the reference definition it is
  compared with, written after FIPS 180-4: recursive message schedule, \<open>Ch\<close>, \<open>Parity\<close> and
  \<open>Maj\<close> with exclusive or, rotation as the library's \<open>word_rotl\<close>, big-endian words as numbers.
\<close>

section \<open>The code\<close>

type_synonym w32 = "32 word"
type_synonym sha1_state = "w32 \<times> w32 \<times> w32 \<times> w32 \<times> w32"

definition left_rotate :: "w32 \<Rightarrow> nat \<Rightarrow> w32" where
  "left_rotate v n = push_bit n v OR drop_bit (32 - n) v"

text \<open>\<open>while ((msg.size() % 64) != 56) msg.push_back(0x00);\<close>\<close>

definition zeros_needed :: "nat \<Rightarrow> nat" where
  "zeros_needed l = (let r = l mod 64 in if r \<le> 56 then 56 - r else 120 - r)"

lemma zeros_needed_Suc: "l mod 64 \<noteq> 56 \<Longrightarrow> zeros_needed l = Suc (zeros_needed (Suc l))"
proof -
  assume "l mod 64 \<noteq> 56"
  moreover have "l mod 64 < 64" by simp
  ultimately show ?thesis by (auto simp: zeros_needed_def Let_def mod_Suc)
qed

function pad_zeros :: "bytes \<Rightarrow> bytes" where
  "pad_zeros msg = (if length msg mod 64 \<noteq> 56 then pad_zeros (msg @ [0]) else msg)"
  by pat_completeness auto
termination
  by (relation "measure (\<lambda>msg. zeros_needed (length msg))") (auto dest: zeros_needed_Suc)

declare pad_zeros.simps [simp del]

definition length_bytes :: "64 word \<Rightarrow> bytes" where
  "length_bytes bit_len = map (\<lambda>i. ucast (drop_bit (i * 8) bit_len AND 0xFF)) [7, 6, 5, 4, 3, 2, 1, 0]"

definition sha1_message :: "string \<Rightarrow> bytes" where
  "sha1_message input =
     pad_zeros (bytes_of_string input @ [0x80]) @ length_bytes (word_of_nat (length input) * 8)"

definition load_word :: "bytes \<Rightarrow> nat \<Rightarrow> w32" where
  "load_word msg k = push_bit 24 (ucast (msg ! k)) OR push_bit 16 (ucast (msg ! (k + 1))) OR
     push_bit 8 (ucast (msg ! (k + 2))) OR ucast (msg ! (k + 3))"

definition schedule :: "bytes \<Rightarrow> nat \<Rightarrow> w32 list" where
  "schedule msg chunk =
     fold (\<lambda>i w. w @ [left_rotate (w ! (i - 3) XOR w ! (i - 8) XOR w ! (i - 14) XOR w ! (i - 16)) 1])
       [16..<80] (map (\<lambda>i. load_word msg (chunk + i * 4)) [0..<16])"

fun sha1_round :: "w32 list \<Rightarrow> nat \<Rightarrow> sha1_state \<Rightarrow> sha1_state" where
  "sha1_round w i (a, b, c, d, e) =
     (let (f, k) =
        (if i < 20 then ((b AND c) OR (NOT b AND d), 0x5A827999)
         else if i < 40 then (b XOR c XOR d, 0x6ED9EBA1)
         else if i < 60 then ((b AND c) OR (b AND d) OR (c AND d), 0x8F1BBCDC)
         else (b XOR c XOR d, 0xCA62C1D6));
        temp = left_rotate a 5 + f + e + k + w ! i
      in (temp, a, left_rotate b 30, c, d))"

fun add_state :: "sha1_state \<Rightarrow> sha1_state \<Rightarrow> sha1_state" where
  "add_state (h0, h1, h2, h3, h4) (a, b, c, d, e) = (h0 + a, h1 + b, h2 + c, h3 + d, h4 + e)"

definition sha1_chunk :: "bytes \<Rightarrow> nat \<Rightarrow> sha1_state \<Rightarrow> sha1_state" where
  "sha1_chunk msg chunk h =
     (let w = schedule msg chunk in add_state h (fold (sha1_round w) [0..<80] h))"

function sha1_loop :: "bytes \<Rightarrow> nat \<Rightarrow> sha1_state \<Rightarrow> sha1_state" where
  "sha1_loop msg chunk h =
     (if chunk < length msg then sha1_loop msg (chunk + 64) (sha1_chunk msg chunk h) else h)"
  by pat_completeness auto
termination
  by (relation "measure (\<lambda>(msg, chunk, h). length msg - chunk)") auto

declare sha1_loop.simps [simp del]

definition store_word :: "w32 \<Rightarrow> bytes" where
  "store_word h = [ucast (drop_bit 24 h AND 0xFF), ucast (drop_bit 16 h AND 0xFF),
     ucast (drop_bit 8 h AND 0xFF), ucast (h AND 0xFF)]"

definition sha1_init :: sha1_state where
  "sha1_init = (0x67452301, 0xEFCDAB89, 0x98BADCFE, 0x10325476, 0xC3D2E1F0)"

definition sha1 :: "string \<Rightarrow> bytes" where
  "sha1 input =
     (case sha1_loop (sha1_message input) 0 sha1_init of (h0, h1, h2, h3, h4) \<Rightarrow>
        store_word h0 @ store_word h1 @ store_word h2 @ store_word h3 @ store_word h4)"

section \<open>The standard\<close>

text \<open>FIPS 180-4, section 4.1.1 and 4.2.1.\<close>

definition fips_f :: "nat \<Rightarrow> w32 \<Rightarrow> w32 \<Rightarrow> w32 \<Rightarrow> w32" where
  "fips_f t x y z =
     (if t \<le> 19 then (x AND y) XOR (NOT x AND z)
      else if t \<le> 39 then x XOR y XOR z
      else if t \<le> 59 then (x AND y) XOR (x AND z) XOR (y AND z)
      else x XOR y XOR z)"

definition fips_K :: "nat \<Rightarrow> w32" where
  "fips_K t =
     (if t \<le> 19 then 0x5a827999 else if t \<le> 39 then 0x6ed9eba1
      else if t \<le> 59 then 0x8f1bbcdc else 0xca62c1d6)"

text \<open>Section 5.1.1 and 5.2.1, for messages of whole bytes.\<close>

definition fips_pad :: "bytes \<Rightarrow> bytes" where
  "fips_pad M = M @ [0x80] @ replicate (zeros_needed (length M + 1)) 0 @
     map (\<lambda>i. word_of_nat (8 * length M div 256 ^ (7 - i))) [0..<8]"

definition fips_block_word :: "bytes \<Rightarrow> nat \<Rightarrow> nat \<Rightarrow> w32" where
  "fips_block_word P i t = word_of_nat
     (unat (P ! (64 * i + 4 * t)) * 2 ^ 24 + unat (P ! (64 * i + 4 * t + 1)) * 2 ^ 16 +
      unat (P ! (64 * i + 4 * t + 2)) * 2 ^ 8 + unat (P ! (64 * i + 4 * t + 3)))"

text \<open>Section 6.1.2.\<close>

fun fips_W :: "(nat \<Rightarrow> w32) \<Rightarrow> nat \<Rightarrow> w32" where
  "fips_W M t =
     (if t < 16 then M t
      else word_rotl 1 (fips_W M (t - 3) XOR fips_W M (t - 8) XOR fips_W M (t - 14) XOR
        fips_W M (t - 16)))"

declare fips_W.simps [simp del]

primrec fips_rounds :: "(nat \<Rightarrow> w32) \<Rightarrow> nat \<Rightarrow> sha1_state \<Rightarrow> sha1_state" where
  "fips_rounds W 0 s = s"
| "fips_rounds W (Suc t) s =
     (case fips_rounds W t s of (a, b, c, d, e) \<Rightarrow>
        (word_rotl 5 a + fips_f t b c d + e + fips_K t + W t, a, word_rotl 30 b, c, d))"

definition fips_compress :: "(nat \<Rightarrow> w32) \<Rightarrow> sha1_state \<Rightarrow> sha1_state" where
  "fips_compress M H =
     (case (H, fips_rounds (fips_W M) 80 H) of ((h0, h1, h2, h3, h4), (a, b, c, d, e)) \<Rightarrow>
        (a + h0, b + h1, c + h2, d + h3, e + h4))"

definition fips_digest_word :: "w32 \<Rightarrow> bytes" where
  "fips_digest_word h = map (\<lambda>i. word_of_nat (unat h div 256 ^ (3 - i))) [0..<4]"

definition fips_sha1 :: "bytes \<Rightarrow> bytes" where
  "fips_sha1 M =
     (let P = fips_pad M in
      case fold (\<lambda>i. fips_compress (fips_block_word P i)) [0..<length P div 64]
             (0x67452301, 0xefcdab89, 0x98badcfe, 0x10325476, 0xc3d2e1f0) of
        (h0, h1, h2, h3, h4) \<Rightarrow> concat (map fips_digest_word [h0, h1, h2, h3, h4]))"

section \<open>Equivalence\<close>

lemma left_rotate_rotl: "0 < n \<Longrightarrow> n < 32 \<Longrightarrow> left_rotate v n = word_rotl n v"
  by (rule bit_word_eqI) (auto simp: left_rotate_def bit_simps mod_if add.commute [of _ 32] dest: bit_imp_le_length)

lemma pad_zeros_replicate: "pad_zeros msg = msg @ replicate (zeros_needed (length msg)) 0"
proof (induction msg rule: pad_zeros.induct)
  case (1 msg)
  show ?case
  proof (cases "length msg mod 64 = 56")
    case False
    with "1.IH" show ?thesis by (subst pad_zeros.simps) (simp add: zeros_needed_Suc)
  next
    case True
    then show ?thesis by (subst pad_zeros.simps) (simp add: zeros_needed_def)
  qed
qed

lemma length_pad_zeros: "length (pad_zeros msg) mod 64 = 56"
  by (induction msg rule: pad_zeros.induct) (subst pad_zeros.simps, simp)

lemma length_sha1_message: "length (sha1_message s) mod 64 = 0"
proof -
  have "(m + 8) mod 64 = 0" if "m mod 64 = 56" for m :: nat
    using that by presburger
  from this [OF length_pad_zeros [of "bytes_of_string s @ [0x80]"]] show ?thesis
    by (simp add: sha1_message_def length_bytes_def add.commute)
qed

lemma sha1_f_eq:
  "(if i < 20 then ((b AND c) OR (NOT b AND d), 0x5A827999)
    else if i < 40 then (b XOR c XOR d, 0x6ED9EBA1)
    else if i < 60 then ((b AND c) OR (b AND d) OR (c AND d), 0x8F1BBCDC)
    else (b XOR c XOR d, 0xCA62C1D6)) = (fips_f i b c d, fips_K i)"
proof -
  have "(b AND c) OR (NOT b AND d) = (b AND c) XOR (NOT b AND d)"
    "(b AND c) OR (b AND d) OR (c AND d) = (b AND c) XOR (b AND d) XOR (c AND d)"
    by (rule bit_word_eqI; auto simp: bit_simps)+
  then show ?thesis by (auto simp: fips_f_def fips_K_def)
qed

lemma word_of_nat_drop:
  "(word_of_nat (n div 2 ^ (8 * i)) :: byte) = ucast (drop_bit (8 * i) (word_of_nat n :: 64 word))"
  if "i < 8"
  using that
  by (intro bit_word_eqI) (simp add: bit_simps flip: drop_bit_eq_div)

lemma mask_8_words: "(0xFF :: 64 word) = mask 8" "(0xFF :: w32) = mask 8"
  by (simp_all add: mask_eq_exp_minus_1)

lemma ucast_and_ff:
  "(ucast ((x :: 64 word) AND 0xFF) :: byte) = ucast x"
  "(ucast ((y :: w32) AND 0xFF) :: byte) = ucast y"
  unfolding mask_8_words by (rule bit_word_eqI; simp add: bit_simps)+

lemma length_bytes_eq:
  "length_bytes (word_of_nat n) = map (\<lambda>i. word_of_nat (n div 256 ^ (7 - i))) [0..<8]"
proof -
  have "(256::nat) ^ k = 2 ^ (8 * k)" for k by (simp add: power_mult)
  then show ?thesis
    by (simp add: length_bytes_def ucast_and_ff word_of_nat_drop upt_rec mult.commute)
qed

lemma store_word_eq: "store_word h = fips_digest_word h"
proof -
  have "(word_of_nat (unat h div 2 ^ k) :: byte) = ucast (drop_bit k h)" for k
    by (intro bit_word_eqI) (simp add: bit_simps flip: drop_bit_eq_div)
  from this [of 24] this [of 16] this [of 8] this [of 0] show ?thesis
    by (simp add: store_word_def fips_digest_word_def ucast_and_ff upt_rec)
qed

lemma load_word_block:
  "load_word P (64 * i + t * 4) = fips_block_word P i t"
proof -
  have or: "push_bit 24 (ucast a) OR push_bit 16 (ucast b) OR push_bit 8 (ucast c) OR ucast d =
      (word_of_nat (unat a * 2 ^ 24 + unat b * 2 ^ 16 + unat c * 2 ^ 8 + unat d) :: w32)"
    for a b c d :: byte
  proof -
    have 1: "push_bit 8 (ucast c) + (ucast d :: w32) = push_bit 8 (ucast c) OR ucast d"
      by (rule disjunctive_add_eq_or, rule bit_eqI) (auto simp: bit_simps dest: bit_imp_le_length)
    have 2: "push_bit 16 (ucast b) + (push_bit 8 (ucast c) OR (ucast d :: w32)) =
        push_bit 16 (ucast b) OR (push_bit 8 (ucast c) OR ucast d)"
      by (rule disjunctive_add_eq_or, rule bit_eqI) (auto simp: bit_simps dest: bit_imp_le_length)
    have 3: "push_bit 24 (ucast a) + (push_bit 16 (ucast b) OR (push_bit 8 (ucast c) OR
        (ucast d :: w32))) =
        push_bit 24 (ucast a) OR (push_bit 16 (ucast b) OR (push_bit 8 (ucast c) OR ucast d))"
      by (rule disjunctive_add_eq_or, rule bit_eqI) (auto simp: bit_simps dest: bit_imp_le_length)
    have "push_bit 24 (ucast a) OR push_bit 16 (ucast b) OR push_bit 8 (ucast c) OR ucast d =
        push_bit 24 (ucast a) + (push_bit 16 (ucast b) + (push_bit 8 (ucast c) + (ucast d :: w32)))"
      unfolding 1 2 3 by (simp only: or.assoc)
    also have "\<dots> = word_of_nat (unat a * 2 ^ 24 + unat b * 2 ^ 16 + unat c * 2 ^ 8 + unat d)"
      by (simp add: push_bit_eq_mult unsigned_ucast_eq)
    finally show ?thesis .
  qed
  show ?thesis unfolding load_word_def fips_block_word_def by (subst or) (simp add: mult.commute)
qed

lemma schedule_upto:
  assumes "16 \<le> n"
  shows "fold (\<lambda>i w. w @ [left_rotate (w ! (i - 3) XOR w ! (i - 8) XOR w ! (i - 14) XOR w ! (i - 16)) 1])
     [16..<n] (map M [0..<16]) = map (fips_W M) [0..<n]"
  using assms
proof (induction n rule: nat_induct_at_least)
  case base
  show ?case by (simp add: fips_W.simps)
next
  case (Suc n)
  have "map (fips_W M) [0..<n] ! (n - k) = fips_W M (n - k)" if "0 < k" "k \<le> 16" for k
    using that Suc.hyps by simp
  then show ?case
    using Suc by (simp add: left_rotate_rotl fips_W.simps [of M n])
qed

lemma schedule_eq: "schedule P (64 * i) = map (fips_W (fips_block_word P i)) [0..<80]"
  using schedule_upto [of 80 "fips_block_word P i"]
  by (simp only: schedule_def load_word_block)

lemma rounds_eq:
  "n \<le> 80 \<Longrightarrow> fold (sha1_round (map W [0..<80])) [0..<n] h = fips_rounds W n h"
proof (induction n)
  case (Suc n)
  obtain a b c d e where s: "fips_rounds W n h = (a, b, c, d, e)"
    by (cases "fips_rounds W n h") auto
  with Suc show ?case
    by (simp only: upt_Suc_append fold_append comp_def fold_simps sha1_round.simps
          fips_rounds.simps sha1_f_eq prod.case Let_def zero_le)
      (simp add: left_rotate_rotl)
qed simp

lemma sha1_chunk_eq: "sha1_chunk P (64 * i) h = fips_compress (fips_block_word P i) h"
proof -
  obtain a b c d e where s: "fips_rounds (fips_W (fips_block_word P i)) 80 h = (a, b, c, d, e)"
    by (metis prod_cases5)
  then show ?thesis
    by (cases h) (simp only: sha1_chunk_def schedule_eq rounds_eq [OF order_refl] Let_def s
        fips_compress_def prod.case add_state.simps add.commute)
qed

lemma sha1_loop_eq:
  assumes "length P mod 64 = 0"
  shows "sha1_loop P (64 * i) h =
    fold (\<lambda>i. fips_compress (fips_block_word P i)) [i..<length P div 64] h"
proof -
  from assms obtain q where q: "length P = 64 * q" by (auto elim: dvdE simp: mod_eq_0_iff_dvd)
  have "sha1_loop P (64 * i) h = fold (\<lambda>i. fips_compress (fips_block_word P i)) [i..<q] h" for i h
  proof (induction "q - i" arbitrary: i h)
    case 0
    then show ?case by (subst sha1_loop.simps) (simp add: q)
  next
    case (Suc k)
    then have "i < q" "k = q - Suc i" by simp_all
    moreover have "64 * i + 64 = 64 * Suc i" by simp
    ultimately show ?case
      using Suc.hyps(1) [of "Suc i"]
      by (subst sha1_loop.simps) (simp add: q sha1_chunk_eq upt_conv_Cons del: mult_Suc_right)
  qed
  then show ?thesis by (simp add: q)
qed

lemma sha1_message_eq: "sha1_message s = fips_pad (bytes_of_string s)"
  using length_bytes_eq [of "8 * length s"]
  by (simp add: sha1_message_def fips_pad_def pad_zeros_replicate mult.commute)

section \<open>Properties\<close>

text \<open>C22: The hand-written SHA-1 of the code computes the hash function of FIPS 180-4 on every
  input: its padding loop, its in-place message schedule and its round functions agree with
  the standard's.\<close>

theorem sha1_fips: "sha1 s = fips_sha1 (bytes_of_string s)"
  using sha1_loop_eq [OF length_sha1_message, of s 0 sha1_init]
  by (simp add: sha1_def fips_sha1_def sha1_message_eq sha1_init_def store_word_eq Let_def
      split: prod.splits)

lemma length_sha1: "length (sha1 s) = 20"
  by (simp add: sha1_def store_word_def split: prod.splits)

end
