(* ===== verification/Base64.thy ===== *)
theory Base64
  imports Prelude
begin

text \<open>
  \<open>websocket_codec::base64_encode\<close> (\<open>src/mqtt/websocket_codec.cpp\<close>). The main loop collects
  three bytes in \<open>char_array_3\<close> and emits four characters; the model consumes the input three
  bytes at a time, and its two last equations are the tail after the loop, where \<open>i\<close> is 2 or 1
  and the missing bytes are zero. A decoder written for the proof shows that nothing is lost.
\<close>

section \<open>The encoder\<close>

definition b64_chars :: string where
  "b64_chars = ''ABCDEFGHIJKLMNOPQRSTUVWXYZabcdefghijklmnopqrstuvwxyz0123456789+/''"

definition b64_char :: "byte \<Rightarrow> char" where
  "b64_char b = b64_chars ! unat b"

text \<open>The four 6-bit groups of three bytes, in the code's bit operations.\<close>

definition group0 :: "byte \<Rightarrow> byte" where
  "group0 a = drop_bit 2 (a AND 0xfc)"

definition group1 :: "byte \<Rightarrow> byte \<Rightarrow> byte" where
  "group1 a b = push_bit 4 (a AND 0x03) + drop_bit 4 (b AND 0xf0)"

definition group2 :: "byte \<Rightarrow> byte \<Rightarrow> byte" where
  "group2 b c = push_bit 2 (b AND 0x0f) + drop_bit 6 (c AND 0xc0)"

definition group3 :: "byte \<Rightarrow> byte" where
  "group3 c = c AND 0x3f"

fun base64_encode :: "bytes \<Rightarrow> string" where
  "base64_encode (a # b # c # rest) =
     b64_char (group0 a) # b64_char (group1 a b) # b64_char (group2 b c) #
     b64_char (group3 c) # base64_encode rest"
| "base64_encode [a, b] =
     [b64_char (group0 a), b64_char (group1 a b), b64_char (group2 b 0), CHR ''='']"
| "base64_encode [a] = [b64_char (group0 a), b64_char (group1 a 0), CHR ''='', CHR ''='']"
| "base64_encode [] = []"

section \<open>The groups as numbers\<close>

lemma drop_bit_and_high:
  "drop_bit 2 ((a :: byte) AND 0xfc) = drop_bit 2 a"
  "drop_bit 4 (a AND 0xf0) = drop_bit 4 a"
  "drop_bit 6 (a AND 0xc0) = drop_bit 6 a"
proof -
  have h: "(0xfc :: byte) = push_bit 2 (mask 6)" "(0xf0 :: byte) = push_bit 4 (mask 4)"
    "(0xc0 :: byte) = push_bit 6 (mask 2)"
    by (simp_all add: mask_eq_exp_minus_1)
  show "drop_bit 2 (a AND 0xfc) = drop_bit 2 a" "drop_bit 4 (a AND 0xf0) = drop_bit 4 a"
    "drop_bit 6 (a AND 0xc0) = drop_bit 6 a"
    unfolding h by (rule bit_word_eqI; auto simp: bit_simps dest: bit_imp_le_length)+
qed

lemma group0_nat: "unat (group0 a) = unat a div 4"
  unfolding group0_def drop_bit_and_high by (subst byte_drop_bit) simp

lemma group3_nat: "unat (group3 c) = unat c mod 64"
  by (simp add: group3_def byte_masks byte_and_mask)

lemma group1_nat: "unat (group1 a b) = unat a mod 4 * 16 + unat b div 16"
proof -
  have hi: "unat (push_bit 4 (a AND 0x03)) = unat a mod 4 * 16"
    by (subst byte_push_bit) (simp add: byte_masks byte_and_mask)
  have lo: "unat (drop_bit 4 (b AND 0xf0)) = unat b div 16"
    unfolding drop_bit_and_high by (subst byte_drop_bit) simp
  have "unat b div 16 < 16" by (rule less_mult_imp_div_less) simp
  moreover have "unat a mod 4 < 4" by simp
  ultimately show ?thesis unfolding group1_def by (subst byte_add; unfold hi lo; linarith)
qed

lemma group2_nat: "unat (group2 b c) = unat b mod 16 * 4 + unat c div 64"
proof -
  have hi: "unat (push_bit 2 (b AND 0x0f)) = unat b mod 16 * 4"
    by (subst byte_push_bit) (simp add: byte_masks byte_and_mask)
  have lo: "unat (drop_bit 6 (c AND 0xc0)) = unat c div 64"
    unfolding drop_bit_and_high by (subst byte_drop_bit) simp
  have "unat c div 64 < 4" by (rule less_mult_imp_div_less) simp
  moreover have "unat b mod 16 < 16" by simp
  ultimately show ?thesis unfolding group2_def by (subst byte_add; unfold hi lo; linarith)
qed

section \<open>A decoder for the alphabet\<close>

definition b64_value :: "char \<Rightarrow> nat option" where
  "b64_value c = index_of c b64_chars"

text \<open>Three bytes from four 6-bit values, arithmetically; \<open>None\<close> stands for the padding.\<close>

definition byte0 :: "nat \<Rightarrow> nat \<Rightarrow> byte" where
  "byte0 u v = word_of_nat (u * 4 + v div 16)"

definition byte1 :: "nat \<Rightarrow> nat \<Rightarrow> byte" where
  "byte1 v w = word_of_nat (v mod 16 * 16 + w div 4)"

definition byte2 :: "nat \<Rightarrow> nat \<Rightarrow> byte" where
  "byte2 w x = word_of_nat (w mod 4 * 64 + x)"

fun base64_decode :: "string \<Rightarrow> bytes option" where
  "base64_decode [] = Some []"
| "base64_decode (p # q # r # s # rest) =
     (case (b64_value p, b64_value q, b64_value r, b64_value s) of
        (Some u, Some v, Some w, Some x) \<Rightarrow>
          map_option (\<lambda>bs. byte0 u v # byte1 v w # byte2 w x # bs) (base64_decode rest)
      | (Some u, Some v, Some w, None) \<Rightarrow>
          if s = CHR ''='' \<and> rest = []
          then Some [byte0 u v, byte1 v w] else None
      | (Some u, Some v, None, None) \<Rightarrow>
          if r = CHR ''='' \<and> s = CHR ''='' \<and> rest = [] then Some [byte0 u v] else None
      | _ \<Rightarrow> None)"
| "base64_decode _ = None"

lemma b64_chars_distinct: "distinct b64_chars"
  by (simp add: b64_chars_def)

lemma length_b64_chars: "length b64_chars = 64"
  by (simp add: b64_chars_def)

lemma b64_value_char: "unat g < 64 \<Longrightarrow> b64_value (b64_char g) = Some (unat g)"
  using b64_chars_distinct length_b64_chars
  by (auto simp: b64_value_def b64_char_def index_of_Some_conv in_set_conv_nth nth_eq_iff_index_eq)

lemma b64_value_pad: "b64_value CHR ''='' = None"
  by (simp add: b64_value_def b64_chars_def)

lemma group_bounds:
  "unat (group0 a) < 64" "unat (group1 a b) < 64" "unat (group2 b c) < 64" "unat (group3 c) < 64"
proof -
  have "unat a div 4 < 64" "unat b div 16 < 16" "unat c div 64 < 4"
    by (rule less_mult_imp_div_less; simp)+
  moreover have "unat a mod 4 < 4" "unat b mod 16 < 16" "unat c mod 64 < 64" by simp_all
  ultimately show "unat (group0 a) < 64" "unat (group1 a b) < 64" "unat (group2 b c) < 64"
    "unat (group3 c) < 64"
    unfolding group0_nat group1_nat group2_nat group3_nat by linarith+
qed

lemma regroup:
  fixes a b c :: nat
  assumes "b < 256" "c < 256"
  shows "a div 4 * 4 + (a mod 4 * 16 + b div 16) div 16 = a"
    "(a mod 4 * 16 + b div 16) mod 16 * 16 + (b mod 16 * 4 + c div 64) div 4 = b"
    "(b mod 16 * 4 + c div 64) mod 4 * 64 + c mod 64 = c"
proof -
  have "b div 16 < 16" "c div 64 < 4"
    using assms by (simp_all add: less_mult_imp_div_less)
  then show "a div 4 * 4 + (a mod 4 * 16 + b div 16) div 16 = a"
    "(a mod 4 * 16 + b div 16) mod 16 * 16 + (b mod 16 * 4 + c div 64) div 4 = b"
    "(b mod 16 * 4 + c div 64) mod 4 * 64 + c mod 64 = c"
    by (simp_all add: div_add1_eq mod_mult_div_eq)
qed

lemmas group_values = group0_nat group1_nat group2_nat group3_nat

lemma ungroup:
  "byte0 (unat (group0 a)) (unat (group1 a b)) = a"
  "byte1 (unat (group1 a b)) (unat (group2 b c)) = b"
  "byte2 (unat (group2 b c)) (unat (group3 c)) = c"
proof -
  note r = regroup [OF unat_byte_less unat_byte_less]
  show "byte0 (unat (group0 a)) (unat (group1 a b)) = a"
    unfolding byte0_def group_values by (simp only: r(1)) simp
  show "byte1 (unat (group1 a b)) (unat (group2 b c)) = b"
    unfolding byte1_def group_values by (simp only: r(2)) simp
  show "byte2 (unat (group2 b c)) (unat (group3 c)) = c"
    unfolding byte2_def group_values by (simp only: r(3)) simp
qed

lemmas b64_group = group_bounds [THEN b64_value_char]

lemma base64_decode_encode: "base64_decode (base64_encode bs) = Some bs"
  by (induction bs rule: base64_encode.induct) (simp_all add: b64_group b64_value_pad ungroup)

lemma length_base64_encode: "length (base64_encode bs) = (length bs + 2) div 3 * 4"
proof (induction bs rule: base64_encode.induct)
  case (1 a b c rest)
  have "(length rest + 5) div 3 = Suc ((length rest + 2) div 3)" by arith
  with "1.IH" show ?case by (simp add: ac_simps)
qed auto

lemma b64_char_in: "unat g < 64 \<Longrightarrow> b64_char g \<in> set b64_chars"
  by (simp add: b64_char_def length_b64_chars)

lemma set_base64_encode: "set (base64_encode bs) \<subseteq> insert (CHR ''='') (set b64_chars)"
  by (induction bs rule: base64_encode.induct) (auto simp: b64_char_in group_bounds)

section \<open>Property\<close>

text \<open>C23: The Base64 encoder loses nothing (a decoder of the standard alphabet gives the input
  back), produces four characters for every started group of three bytes, and only characters
  of the alphabet and the padding sign.\<close>

theorem base64_correct:
  "base64_decode (base64_encode bs) = Some bs \<and>
   length (base64_encode bs) = (length bs + 2) div 3 * 4 \<and>
   set (base64_encode bs) \<subseteq> insert (CHR ''='') (set b64_chars)"
  by (simp add: base64_decode_encode length_base64_encode set_base64_encode)

end
