(* ===== verification/StreamAcc.thy ===== *)
theory StreamAcc
  imports Prelude
begin

text \<open>
  The receive buffer every session uses (\<open>include/apr/stream_accumulator.hpp\<close>): bytes are appended
  at the end, a consumer advances an offset, and \<open>compact_if_needed\<close> reclaims the consumed prefix.

  Two interfaces are stated here. \<open>byte_stream\<close> is what a session relies on in this buffer: it is a
  FIFO of bytes whatever the compaction does. \<open>frame_decoder\<close> is what a session relies on in the
  decoder it runs over the buffer (WebSocket frames, HTTP requests, the MQTT packets of the client
  library): a complete frame is recognised from its own bytes only. From the second follows that
  the frames a stream delivers do not depend on how the network cuts it into reads.
\<close>

section \<open>The accumulator\<close>

record 'a stream_acc =
  acc_buf :: "'a list"
  acc_offset :: nat

definition acc_empty :: "'a stream_acc" where
  "acc_empty = \<lparr>acc_buf = [], acc_offset = 0\<rparr>"

definition acc_append :: "'a list \<Rightarrow> 'a stream_acc \<Rightarrow> 'a stream_acc" where
  "acc_append xs s = s\<lparr>acc_buf := acc_buf s @ xs\<rparr>"

text \<open>\<open>size()\<close> is an unsigned subtraction, which wraps if the offset passes the end.\<close>

definition acc_size :: "'a stream_acc \<Rightarrow> nat" where
  "acc_size s = wrap64 (length (acc_buf s) + (2 ^ 64 - acc_offset s mod 2 ^ 64))"

text \<open>The range \<open>[data(), data() + size())\<close>.\<close>

definition acc_data :: "'a stream_acc \<Rightarrow> 'a list" where
  "acc_data s = drop (acc_offset s) (acc_buf s)"

definition acc_is_empty :: "'a stream_acc \<Rightarrow> bool" where
  "acc_is_empty s = (acc_size s = 0)"

definition acc_consume :: "nat \<Rightarrow> 'a stream_acc \<Rightarrow> 'a stream_acc" where
  "acc_consume n s = s\<lparr>acc_offset := acc_offset s + n\<rparr>"

definition acc_compact_at :: "nat \<Rightarrow> 'a stream_acc \<Rightarrow> 'a stream_acc" where
  "acc_compact_at threshold s =
     (if acc_offset s = 0 then s
      else if acc_offset s = length (acc_buf s) then \<lparr>acc_buf = [], acc_offset = 0\<rparr>
      else if acc_offset s \<ge> threshold
        then \<lparr>acc_buf = drop (acc_offset s) (acc_buf s), acc_offset = 0\<rparr>
      else s)"

abbreviation acc_compact :: "'a stream_acc \<Rightarrow> 'a stream_acc" where
  "acc_compact \<equiv> acc_compact_at 4096"

definition acc_total_capacity :: "'a stream_acc \<Rightarrow> nat" where
  "acc_total_capacity s = length (acc_buf s)"

definition acc_clear :: "'a stream_acc \<Rightarrow> 'a stream_acc" where
  "acc_clear s = \<lparr>acc_buf = [], acc_offset = 0\<rparr>"

text \<open>The offset never passes the end of the buffer, and the buffer fits the address space.\<close>

definition acc_ok :: "'a stream_acc \<Rightarrow> bool" where
  "acc_ok s = (acc_offset s \<le> length (acc_buf s) \<and> length (acc_buf s) < 2 ^ 64)"

lemma acc_ok_empty [simp, intro]: "acc_ok acc_empty" "acc_ok (acc_clear s)"
  by (simp_all add: acc_ok_def acc_empty_def acc_clear_def)

lemma acc_ok_append [intro]:
  "acc_ok s \<Longrightarrow> acc_total_capacity s + length xs < 2 ^ 64 \<Longrightarrow> acc_ok (acc_append xs s)"
  by (simp add: acc_ok_def acc_append_def acc_total_capacity_def)

lemma acc_ok_consume [intro]:
  "acc_ok s \<Longrightarrow> n \<le> length (acc_data s) \<Longrightarrow> acc_ok (acc_consume n s)"
  by (auto simp: acc_ok_def acc_consume_def acc_data_def)

lemma acc_ok_compact [intro]: "acc_ok s \<Longrightarrow> acc_ok (acc_compact_at t s)"
  by (auto simp: acc_ok_def acc_compact_at_def)

lemma acc_size_data: "acc_ok s \<Longrightarrow> acc_size s = length (acc_data s)"
proof -
  assume ok: "acc_ok s"
  let ?a = "length (acc_buf s)" and ?o = "acc_offset s"
  have o: "?o \<le> ?a" "?a < 2 ^ 64" using ok by (auto simp: acc_ok_def)
  then have "?o mod 2 ^ 64 = ?o" by simp
  moreover have "?a + (2 ^ 64 - ?o) = (?a - ?o) + 2 ^ 64" using o by simp
  ultimately have "acc_size s = (?a - ?o) mod 2 ^ 64"
    by (simp only: acc_size_def wrap64_def mod_add_self2)
  also have "\<dots> = ?a - ?o" using o by (intro mod_less) linarith
  finally show ?thesis by (simp add: acc_data_def)
qed

lemma acc_data_empty [simp]: "acc_data acc_empty = []" "acc_total_capacity acc_empty = 0"
  by (simp_all add: acc_data_def acc_empty_def acc_total_capacity_def)

lemma acc_is_empty_data: "acc_ok s \<Longrightarrow> acc_is_empty s \<longleftrightarrow> acc_data s = []"
  by (simp add: acc_is_empty_def acc_size_data)

section \<open>The buffer as a FIFO of bytes\<close>

text \<open>
  What the sessions use: a view of the unconsumed bytes, and operations that act on it as on a
  queue. \<open>ok\<close> is the representation invariant, \<open>cap\<close> the memory held.
\<close>

locale byte_stream =
  fixes ok :: "'s \<Rightarrow> bool"
    and view :: "'s \<Rightarrow> 'a list"
    and cap :: "'s \<Rightarrow> nat"
    and app :: "'a list \<Rightarrow> 's \<Rightarrow> 's"
    and adv :: "nat \<Rightarrow> 's \<Rightarrow> 's"
    and pack :: "'s \<Rightarrow> 's"
  assumes app_ok: "ok s \<Longrightarrow> cap s + length xs < 2 ^ 64 \<Longrightarrow> ok (app xs s)"
    and app_view: "ok s \<Longrightarrow> view (app xs s) = view s @ xs"
    and adv_ok: "ok s \<Longrightarrow> n \<le> length (view s) \<Longrightarrow> ok (adv n s)"
    and adv_view: "ok s \<Longrightarrow> n \<le> length (view s) \<Longrightarrow> view (adv n s) = drop n (view s)"
    and pack_ok: "ok s \<Longrightarrow> ok (pack s)"
    and pack_view: "ok s \<Longrightarrow> view (pack s) = view s"
    and view_cap: "ok s \<Longrightarrow> length (view s) \<le> cap s"
begin

lemma round_view:
  assumes "ok s" "cap s + length xs < 2 ^ 64" "n \<le> length (view s) + length xs"
  shows "view (pack (adv n (app xs s))) = drop n (view s @ xs) \<and> ok (pack (adv n (app xs s)))"
  using assms by (simp add: app_ok app_view adv_ok adv_view pack_ok pack_view)

lemma adv_adv:
  assumes "ok s" "m + n \<le> length (view s)"
  shows "view (adv n (adv m s)) = view (adv (m + n) s)"
  using assms by (simp add: adv_ok adv_view add.commute)

end

interpretation acc: byte_stream acc_ok acc_data acc_total_capacity acc_append acc_consume
  "acc_compact_at t" for t
  by unfold_locales
    (auto simp: acc_ok_def acc_data_def acc_append_def acc_consume_def acc_compact_at_def
      acc_total_capacity_def add.commute)

text \<open>One round of a session: append a read, consume \<open>n\<close> bytes, compact.\<close>

definition acc_round :: "'a list \<times> nat \<Rightarrow> 'a stream_acc \<Rightarrow> 'a stream_acc" where
  "acc_round r s = acc_compact (acc_consume (snd r) (acc_append (fst r) s))"

definition queue_round :: "'a list \<times> nat \<Rightarrow> 'a list \<Rightarrow> 'a list" where
  "queue_round r q = drop (snd r) (q @ fst r)"

text \<open>A schedule of rounds is legal if no round consumes bytes that have not been received.\<close>

fun legal_rounds :: "('a list \<times> nat) list \<Rightarrow> 'a list \<Rightarrow> bool" where
  "legal_rounds [] q = True"
| "legal_rounds (r # rs) q =
     (snd r \<le> length q + length (fst r) \<and> legal_rounds rs (queue_round r q))"

lemma acc_compact_cap: "acc_total_capacity (acc_compact_at t s) \<le> acc_total_capacity s"
  by (simp add: acc_compact_at_def acc_total_capacity_def)

lemma acc_round_ok:
  assumes "acc_ok s" "acc_total_capacity s + length (fst r) < 2 ^ 64"
    and "snd r \<le> length (acc_data s) + length (fst r)"
  shows "acc_ok (acc_round r s) \<and> acc_data (acc_round r s) = queue_round r (acc_data s)
    \<and> acc_total_capacity (acc_round r s) \<le> acc_total_capacity s + length (fst r)"
  using acc.round_view [OF assms(1,2), of "snd r" 4096] assms(3)
    acc_compact_cap [of 4096 "acc_consume (snd r) (acc_append (fst r) s)"]
  by (simp add: acc_round_def queue_round_def acc_total_capacity_def acc_consume_def acc_append_def)

lemma acc_rounds_refine:
  assumes "acc_ok s" "legal_rounds rs (acc_data s)"
    and "acc_total_capacity s + length (concat (map fst rs)) < 2 ^ 64"
  shows "acc_ok (fold acc_round rs s) \<and>
    acc_data (fold acc_round rs s) = fold queue_round rs (acc_data s)"
  using assms
proof (induction rs arbitrary: s)
  case (Cons r rs)
  then show ?case using acc_round_ok [of s r] by simp
qed simp

lemma acc_compact_bound:
  assumes "acc_ok s" "0 < t"
  shows "acc_total_capacity (acc_compact_at t s) < length (acc_data s) + t"
  using assms by (auto simp: acc_compact_at_def acc_total_capacity_def acc_data_def acc_ok_def)

text \<open>
  C25: The accumulator implements a byte queue: over any legal schedule of reads and consumptions,
  compacting after each round, the unconsumed bytes are exactly those of a plain queue, \<open>size()\<close> is
  their number, and the memory retained stays below that number plus the 4096-byte threshold.
\<close>

theorem accumulator_refines_queue:
  assumes "legal_rounds (rs @ [r]) []" "length (concat (map fst (rs @ [r]))) < 2 ^ 64"
  defines "s \<equiv> fold acc_round (rs @ [r]) acc_empty"
  shows "acc_data s = fold queue_round (rs @ [r]) [] \<and> acc_size s = length (acc_data s)
    \<and> acc_total_capacity s < length (acc_data s) + 4096"
proof -
  have split: "legal_rounds (xs @ ys) q \<longleftrightarrow>
      legal_rounds xs q \<and> legal_rounds ys (fold queue_round xs q)" for xs ys and q :: "'a list"
    by (induction xs arbitrary: q) auto
  have all: "acc_ok s" "acc_data s = fold queue_round (rs @ [r]) []"
    using acc_rounds_refine [of "acc_empty" "rs @ [r]"] assms(1,2)
    unfolding s_def by simp_all
  let ?p = "fold acc_round rs acc_empty"
  let ?m = "acc_consume (snd r) (acc_append (fst r) ?p)"
  have p: "acc_ok ?p" "acc_data ?p = fold queue_round rs []"
    using acc_rounds_refine [of "acc_empty" rs] assms(1,2) by (simp_all add: split)
  have len: "length (acc_buf (fold acc_round xs q)) \<le>
      length (acc_buf q) + length (concat (map fst xs))" for xs and q :: "'a stream_acc"
  proof (induction xs arbitrary: q)
    case (Cons x xs)
    have "length (acc_buf (acc_round x q)) \<le> length (acc_buf q) + length (fst x)"
      by (auto simp: acc_round_def acc_compact_at_def acc_consume_def acc_append_def)
    then show ?case using Cons [of "acc_round x q"] by simp
  qed simp
  have "acc_total_capacity ?p + length (fst r) < 2 ^ 64"
    using len [of rs acc_empty] assms(2) by (simp add: acc_total_capacity_def acc_empty_def)
  moreover have "snd r \<le> length (acc_data ?p) + length (fst r)"
    using assms(1) p(2) by (simp add: split)
  ultimately have m: "acc_ok ?m" using p(1) by (simp add: acc.app_ok acc.adv_ok acc.app_view)
  have s: "s = acc_compact ?m" by (simp add: s_def acc_round_def)
  have "acc_total_capacity s < length (acc_data ?m) + 4096"
    unfolding s by (rule acc_compact_bound [OF m]) simp
  then show ?thesis using all acc_size_data [of s] acc.pack_view [OF m, of 4096] by (simp add: s)
qed

theorem accumulator_refines_queue_witness:
  "acc_data (fold acc_round ([([1, 2, 3], 1)] @ [([4 :: nat], 2)]) acc_empty) = [4]"
  using accumulator_refines_queue [of "[([1, 2, 3], 1)]" "([4 :: nat], 2)"]
  by (simp add: queue_round_def)

section \<open>Frames cut from a stream\<close>

text \<open>
  A decoder looks at the unconsumed bytes and reports a frame with the number of bytes it took, or
  that it needs more. \<open>drain\<close> is the loop every consumer runs: decode, consume, repeat. Every frame
  takes at least one byte, so the length of the buffer is enough fuel.
\<close>

type_synonym ('a, 'f) decoder = "'a list \<Rightarrow> (nat \<times> 'f) option"

fun drain_fuel :: "nat \<Rightarrow> ('a, 'f) decoder \<Rightarrow> 'a list \<Rightarrow> 'f list \<times> 'a list" where
  "drain_fuel 0 dec s = ([], s)"
| "drain_fuel (Suc k) dec s =
     (case dec s of None \<Rightarrow> ([], s)
      | Some (n, f) \<Rightarrow> (let (fs, r) = drain_fuel k dec (drop n s) in (f # fs, r)))"

definition drain :: "('a, 'f) decoder \<Rightarrow> 'a list \<Rightarrow> 'f list \<times> 'a list" where
  "drain dec s = drain_fuel (length s) dec s"

text \<open>Feeding a read: the frames so far and the undecoded rest.\<close>

definition feed :: "('a, 'f) decoder \<Rightarrow> 'f list \<times> 'a list \<Rightarrow> 'a list \<Rightarrow> 'f list \<times> 'a list" where
  "feed dec st chunk = (let (fs, r) = drain dec (snd st @ chunk) in (fst st @ fs, r))"

definition feed_all :: "('a, 'f) decoder \<Rightarrow> 'a list list \<Rightarrow> 'f list \<times> 'a list" where
  "feed_all dec chunks = foldl (feed dec) ([], []) chunks"

locale frame_decoder =
  fixes dec :: "'a list \<Rightarrow> (nat \<times> 'f) option"
  assumes dec_bound: "dec s = Some (n, f) \<Longrightarrow> 0 < n \<and> n \<le> length s"
    and dec_stable: "dec s = Some (n, f) \<Longrightarrow> dec (s @ t) = Some (n, f)"
begin

lemma dec_nil: "dec [] = None"
  using dec_bound [of "[]"] by (cases "dec []") fastforce+

lemma drain_fuel_enough:
  "length s \<le> k \<Longrightarrow> length s \<le> l \<Longrightarrow> drain_fuel k dec s = drain_fuel l dec s"
proof (induction k arbitrary: s l)
  case 0
  then show ?case using dec_nil by (cases l) auto
next
  case (Suc k)
  show ?case
  proof (cases l)
    case 0
    then show ?thesis using Suc.prems dec_nil by simp
  next
    case (Suc l')
    show ?thesis
    proof (cases "dec s")
      case (Some nf)
      obtain n f where nf: "nf = (n, f)" by (cases nf)
      have "0 < n" "n \<le> length s" using dec_bound Some nf by auto
      then have "drain_fuel k dec (drop n s) = drain_fuel l' dec (drop n s)"
        using Suc.prems \<open>l = Suc l'\<close> by (intro Suc.IH) auto
      with Some nf \<open>l = Suc l'\<close> show ?thesis by simp
    qed (simp add: \<open>l = Suc l'\<close>)
  qed
qed

lemma drain_eq:
  "drain dec s = (case dec s of None \<Rightarrow> ([], s)
    | Some (n, f) \<Rightarrow> (let (fs, r) = drain dec (drop n s) in (f # fs, r)))"
proof (cases "dec s")
  case None
  then show ?thesis by (cases s) (simp_all add: drain_def)
next
  case (Some nf)
  obtain n f where nf: "nf = (n, f)" by (cases nf)
  have n: "0 < n" "n \<le> length s" using dec_bound Some nf by auto
  then obtain k where k: "length s = Suc k" by (cases s) auto
  have "drain_fuel k dec (drop n s) = drain_fuel (length (drop n s)) dec (drop n s)"
    using n k by (intro drain_fuel_enough) auto
  then show ?thesis using Some nf k by (simp add: drain_def)
qed

lemma drain_append:
  "drain dec s = (fs, r) \<Longrightarrow> drain dec (s @ t) = (let (gs, q) = drain dec (r @ t) in (fs @ gs, q))"
proof (induction "length s" arbitrary: s fs rule: less_induct)
  case less
  show ?case
  proof (cases "dec s")
    case None
    then have "fs = [] \<and> r = s" using less.prems drain_eq [of s] by simp
    then show ?thesis by (simp split: prod.splits)
  next
    case (Some nf)
    obtain n f where nf: "nf = (n, f)" by (cases nf)
    have n: "0 < n" "n \<le> length s" using dec_bound Some nf by auto
    obtain gs where gs: "drain dec (drop n s) = (gs, r)" "fs = f # gs"
      using less.prems drain_eq [of s] Some nf by (auto split: prod.splits)
    have "drain dec (drop n s @ t) = (let (hs, q) = drain dec (r @ t) in (gs @ hs, q))"
      using n by (intro less.hyps gs(1)) auto
    moreover have "dec (s @ t) = Some (n, f)" using dec_stable Some nf by blast
    ultimately show ?thesis
      using drain_eq [of "s @ t"] n gs(2) by (auto split: prod.splits)
  qed
qed

lemma drain_idle: "drain dec s = (fs, r) \<Longrightarrow> drain dec r = ([], r)"
proof (induction "length s" arbitrary: s fs rule: less_induct)
  case less
  show ?case
  proof (cases "dec s")
    case None
    then show ?thesis using less.prems drain_eq [of s] by simp
  next
    case (Some nf)
    obtain n f where nf: "nf = (n, f)" by (cases nf)
    have n: "0 < n" "n \<le> length s" using dec_bound Some nf by auto
    obtain gs where "drain dec (drop n s) = (gs, r)"
      using less.prems drain_eq [of s] Some nf by (auto split: prod.splits)
    moreover have "length (drop n s) < length s" using n by simp
    ultimately show ?thesis using less.hyps by blast
  qed
qed

lemma drain_suffix: "drain dec s = (fs, r) \<Longrightarrow> r = drop (length s - length r) s \<and> length r \<le> length s"
proof (induction "length s" arbitrary: s fs rule: less_induct)
  case less
  show ?case
  proof (cases "dec s")
    case None
    then show ?thesis using less.prems drain_eq [of s] by simp
  next
    case (Some nf)
    obtain n f where nf: "nf = (n, f)" by (cases nf)
    have n: "0 < n" "n \<le> length s" using dec_bound Some nf by auto
    obtain gs where g: "drain dec (drop n s) = (gs, r)"
      using less.prems drain_eq [of s] Some nf by (auto split: prod.splits)
    have r: "r = drop (length (drop n s) - length r) (drop n s)" "length r \<le> length (drop n s)"
      using n less.hyps [OF _ g] by auto
    have "n + (length (drop n s) - length r) = length s - length r" using n r(2) by simp
    then have "drop (length (drop n s) - length r) (drop n s) = drop (length s - length r) s"
      by (simp add: add.commute)
    with r show ?thesis by simp
  qed
qed

lemma feed_invariant:
  "drain dec s = st \<Longrightarrow> foldl (feed dec) st chunks = drain dec (s @ concat chunks)"
proof (induction chunks arbitrary: s st)
  case (Cons c cs)
  obtain fs r where st: "st = (fs, r)" by (cases st)
  have "feed dec st c = drain dec (s @ c)"
    using drain_append [of s fs r c] Cons.prems st by (simp add: feed_def)
  then show ?case using Cons.IH [of "s @ c"] by simp
qed simp

lemma feed_all_concat: "feed_all dec chunks = drain dec (concat chunks)"
proof -
  have "drain dec [] = ([], [])" by (simp add: drain_def)
  then show ?thesis using feed_invariant [of "[]" "([], [])" chunks] by (simp add: feed_all_def)
qed

lemma chunking_irrelevant:
  "concat xs = concat ys \<Longrightarrow> feed_all dec xs = feed_all dec ys"
  by (simp add: feed_all_concat)

end

end
