(* ===== verification/WebSocket.thy ===== *)
theory WebSocket
  imports Sha1 Base64 StreamAcc
begin

text \<open>
  The WebSocket layer (\<open>src/mqtt/websocket_codec.hpp\<close>, \<open>websocket_codec.cpp\<close>) on top of SHA-1 and
  Base64: opening handshake, frame decoder and frame encoder. \<open>decode_frame\<close> returns \<open>Inr None\<close>
  where the code returns 0 (more bytes needed) and \<open>Inr (Some (n, f))\<close> where it returns the
  \<open>n\<close> bytes consumed. The sum \<open>header_len + payload_len\<close> is a 64-bit addition that wraps, and
  \<open>std::string::resize\<close> throws \<open>std::length_error\<close> beyond \<open>max_size()\<close>; both are in the model.
\<close>

section \<open>Frames\<close>

record ws_frame =
  opcode :: byte
  fin :: bool
  frame_payload :: bytes

text \<open>No implementation's \<open>std::string::max_size()\<close> exceeds \<open>PTRDIFF_MAX\<close>.\<close>

definition string_max_size :: nat where
  "string_max_size = 2 ^ 63 - 1"

definition be64 :: "bytes \<Rightarrow> 64 word" where
  "be64 bs = fold (\<lambda>b acc. push_bit 8 acc OR ucast b) bs 0"

definition apply_mask :: "bytes \<Rightarrow> bytes \<Rightarrow> bytes" where
  "apply_mask mkey src = map (\<lambda>i. src ! i XOR mkey ! (i mod 4)) [0..<length src]"

text \<open>The length field: payload length and header length so far, \<open>None\<close> if bytes are missing.\<close>

definition decode_length :: "bytes \<Rightarrow> byte \<Rightarrow> (nat \<times> nat) option res" where
  "decode_length data b1 =
     (let len7 = unat (b1 AND 0x7F)
      in if len7 = 126
         then if length data < 4 then Inr None
              else bind_res (byte_at data 2) (\<lambda>x. bind_res (byte_at data 3) (\<lambda>y.
                Inr (Some (unat (be16 x y), 4))))
         else if len7 = 127
         then if length data < 10 then Inr None
              else bind_res (slice data 2 8) (\<lambda>bs. Inr (Some (unat (be64 bs), 10)))
         else Inr (Some (len7, 2)))"

definition decode_mask :: "bytes \<Rightarrow> bool \<Rightarrow> nat \<Rightarrow> (bytes \<times> nat) option res" where
  "decode_mask data masked header_len =
     (if masked
      then if length data < header_len + 4 then Inr None
           else bind_res (slice data header_len 4) (\<lambda>m. Inr (Some (m, header_len + 4)))
      else Inr (Some ([0, 0, 0, 0], header_len)))"

definition decode_frame :: "bytes \<Rightarrow> (nat \<times> ws_frame) option res" where
  "decode_frame data =
     (if length data < 2 then Inr None
      else bind_res (byte_at data 0) (\<lambda>b0. bind_res (byte_at data 1) (\<lambda>b1.
        let masked = (b1 AND 0x80 \<noteq> 0)
        in bind_res (decode_length data b1) (\<lambda>r. case r of None \<Rightarrow> Inr None
          | Some (payload_len, header_len) \<Rightarrow>
              bind_res (decode_mask data masked header_len) (\<lambda>r. case r of None \<Rightarrow> Inr None
                | Some (mkey, header_len) \<Rightarrow>
                    if length data < wrap64 (header_len + payload_len) then Inr None
                    else if payload_len > string_max_size then Inl Length_error
                    else bind_res (slice data header_len payload_len) (\<lambda>src.
                      Inr (Some (wrap64 (header_len + payload_len),
                        \<lparr>opcode = b0 AND 0x0F, fin = (b0 AND 0x80 \<noteq> 0),
                         frame_payload = (if masked then apply_mask mkey src else src)\<rparr>))))))))"

definition encode_length :: "nat \<Rightarrow> bytes" where
  "encode_length n =
     (if n \<le> 125 then [word_of_nat n]
      else if n \<le> 65535 then [126, hi_byte (word_of_nat n), lo_byte (word_of_nat n)]
      else 127 # map (\<lambda>i. ucast (drop_bit (i * 8) (word_of_nat n :: 64 word) AND 0xFF))
        [7, 6, 5, 4, 3, 2, 1, 0])"

definition encode_frame :: "bytes \<Rightarrow> byte \<Rightarrow> bytes" where
  "encode_frame p opc = [0x80 OR (opc AND 0x0F)] @ encode_length (length p) @ p"

section \<open>Opening handshake\<close>

text \<open>\<open>while (std::getline(ss, line))\<close>: the pieces between newlines, none after a final newline.\<close>

function getlines :: "string \<Rightarrow> string list" where
  "getlines [] = []"
| "getlines (c # cs) =
     takeWhile (\<lambda>x. x \<noteq> CHR 0x0A) (c # cs) #
     getlines (drop 1 (dropWhile (\<lambda>x. x \<noteq> CHR 0x0A) (c # cs)))"
  by pat_completeness auto
termination
  by (relation "measure length")
    (auto intro: le_imp_less_Suc le_trans [OF _ length_dropWhile_le] le_trans [OF diff_le_self])

text \<open>One iteration: the current values of \<open>out_key\<close> and \<open>out_protocol\<close> and the line.\<close>

fun handshake_line :: "string \<Rightarrow> string \<times> string \<Rightarrow> string \<times> string" where
  "handshake_line line (key, proto) =
     (let line = strip_cr line
      in case find_char CHR '':'' line 0 of
           None \<Rightarrow> (key, proto)
         | Some colon \<Rightarrow>
             let header_name = take colon line;
                 header_val = strip_spaces (drop (colon + 1) line);
                 lower_name = to_lower header_name
             in if lower_name = ''sec-websocket-key'' then (header_val, proto)
                else if lower_name = ''sec-websocket-protocol'' then (key, header_val)
                else (key, proto))"

definition parse_handshake_request :: "string \<Rightarrow> (string \<times> string) option" where
  "parse_handshake_request request =
     (if \<not> starts_with ''GET '' request \<and> \<not> starts_with ''get '' request then None
      else if find_sub ''Upgrade: websocket'' request = None \<and>
              find_sub ''upgrade: websocket'' request = None \<and>
              find_sub ''Upgrade: WebSocket'' request = None then None
      else let (key, proto) = fold handshake_line (getlines request) ([], [])
           in if key = [] then None else Some (key, proto))"

definition magic_guid :: string where
  "magic_guid = ''258EAFA5-E914-47DA-95CA-C5AB0DC85B11''"

definition compute_accept_key :: "string \<Rightarrow> string" where
  "compute_accept_key client_key = base64_encode (sha1 (client_key @ magic_guid))"

definition generate_handshake_response :: "string \<Rightarrow> string \<Rightarrow> string" where
  "generate_handshake_response accept_key protocol =
     ''HTTP/1.1 101 Switching Protocols'' @ crlf @
     ''Upgrade: websocket'' @ crlf @
     ''Connection: Upgrade'' @ crlf @
     ''Sec-WebSocket-Accept: '' @ accept_key @ crlf @
     (if protocol \<noteq> [] then ''Sec-WebSocket-Protocol: '' @ protocol @ crlf else []) @
     crlf"

section \<open>The frame codec\<close>

lemma mask_8_64: "(0xFF :: 64 word) = mask 8"
  by (simp add: mask_eq_exp_minus_1)

lemma low_byte_join:
  "push_bit 8 (drop_bit (k + 8) w) OR ucast (ucast (drop_bit k w AND 0xFF) :: byte)
    = drop_bit k (w :: 64 word)"
proof (rule bit_word_eqI)
  fix n assume "n < LENGTH(64)"
  then show "bit (push_bit 8 (drop_bit (k + 8) w) OR ucast (ucast (drop_bit k w AND 0xFF) :: byte)) n
    \<longleftrightarrow> bit (drop_bit k w) n"
    by (cases "n < 8") (auto simp: mask_8_64 bit_simps add.assoc)
qed

lemma be64_split:
  "be64 (map (\<lambda>i. ucast (drop_bit (i * 8) (w :: 64 word) AND 0xFF)) [7, 6, 5, 4, 3, 2, 1, 0]) = w"
proof -
  have "drop_bit 64 w = 0" by (rule bit_word_eqI) (simp add: bit_simps)
  then show ?thesis
    using low_byte_join [of 56 w] low_byte_join [of 48 w] low_byte_join [of 40 w]
      low_byte_join [of 32 w] low_byte_join [of 24 w] low_byte_join [of 16 w]
      low_byte_join [of 8 w] low_byte_join [of 0 w]
    by (simp add: be64_def)
qed

text \<open>Decoding what the encoder wrote in front of a payload of \<open>n\<close> bytes.\<close>

lemma length_bytes_small:
  "n \<le> 125 \<Longrightarrow> unat ((word_of_nat n :: byte) AND 0x7F) = n"
  "n \<le> 125 \<Longrightarrow> (word_of_nat n :: byte) AND 0x80 = 0"
proof -
  assume n: "n \<le> 125"
  have u: "unat (word_of_nat n :: byte) = n" using n by (simp add: unat_of_nat)
  show "unat ((word_of_nat n :: byte) AND 0x7F) = n"
    using n u by (simp add: byte_masks byte_and_mask)
  have "\<not> bit (word_of_nat n :: byte) 7" 
    using u n bit_unsigned_iff [of "word_of_nat n :: byte" 7, where ?'a = nat]
    by (simp add: bit_iff_odd)
  then show "(word_of_nat n :: byte) AND 0x80 = 0"
    using and_exp_eq_0_iff_not_bit [of "word_of_nat n :: byte" 7] by simp
qed

lemma decode_length_encode:
  assumes "n < 2 ^ 63"
  shows "decode_length (b0 # encode_length n @ p) (hd (encode_length n)) =
      Inr (Some (n, 1 + length (encode_length n)))
    \<and> hd (encode_length n) AND 0x80 = 0"
proof -
  consider "n \<le> 125" | "125 < n" "n \<le> 65535" | "65535 < n" by linarith
  then show ?thesis
  proof cases
    case 1
    then show ?thesis using length_bytes_small [OF 1] by (simp add: encode_length_def decode_length_def)
  next
    case 2
    then have "unat (word_of_nat n :: 16 word) = n" by (simp add: unat_of_nat)
    with 2 show ?thesis by (simp add: encode_length_def decode_length_def)
  next
    case 3
    have "unat (word_of_nat n :: 64 word) = n" using assms by (simp add: unat_of_nat)
    moreover have "unat (127 AND 0x7F :: byte) = 127" "(127 :: byte) AND 0x80 = 0" by simp_all
    ultimately show ?thesis using 3 be64_split [of "word_of_nat n"]
      by (simp add: encode_length_def decode_length_def slice_def)
  qed
qed

text \<open>The steps of the decoder, once the first bytes are there.\<close>

lemma decode_length_cases:
  "decode_length data b1 = Inr (Some (n, h)) \<Longrightarrow>
     2 \<le> h \<and> h \<le> 10 \<and> (h = 2 \<or> h \<le> length data) \<and> n < 2 ^ 64"
  using order_less_trans [OF unat_byte_less [of "b1 AND 0x7F"], of "2 ^ 64"]
    unsigned_less [of "be64 (take 8 (drop 2 data))", where ?'a = nat]
    unsigned_less [of "be16 (data ! 2) (data ! 3)", where ?'a = nat]
  by (auto simp: decode_length_def Let_def slice_def split: if_splits)

lemma decode_length_no_fault [simp]: "decode_length data b1 \<noteq> Inl e"
  by (auto simp: decode_length_def Let_def byte_at_def slice_def)

lemma decode_mask_cases:
  "decode_mask data masked h = Inr (Some (m, h')) \<Longrightarrow>
     h' = (if masked then h + 4 else h) \<and> (masked \<longrightarrow> h' \<le> length data)"
  by (auto simp: decode_mask_def slice_def split: if_splits)

lemma decode_mask_no_fault [simp]: "decode_mask data masked h \<noteq> Inl e"
  by (auto simp: decode_mask_def slice_def)

lemma decode_length_append:
  "decode_length data b1 = Inr (Some r) \<Longrightarrow> decode_length (data @ t) b1 = Inr (Some r)"
  by (auto simp: decode_length_def Let_def slice_def byte_at_def nth_append split: if_splits)

lemma decode_mask_append:
  "decode_mask data masked h = Inr (Some r) \<Longrightarrow> decode_mask (data @ t) masked h = Inr (Some r)"
  by (auto simp: decode_mask_def slice_def split: if_splits)

lemma decode_frame_eq:
  "length data \<ge> 2 \<Longrightarrow> decode_frame data =
     bind_res (decode_length data (data ! 1)) (\<lambda>r. case r of None \<Rightarrow> Inr None
       | Some (n, h) \<Rightarrow>
           bind_res (decode_mask data (data ! 1 AND 0x80 \<noteq> 0) h) (\<lambda>r. case r of None \<Rightarrow> Inr None
             | Some (m, h) \<Rightarrow>
                 if length data < wrap64 (h + n) then Inr None
                 else if n > string_max_size then Inl Length_error
                 else bind_res (slice data h n) (\<lambda>src. Inr (Some (wrap64 (h + n),
                    \<lparr>opcode = data ! 0 AND 0x0F, fin = (data ! 0 AND 0x80 \<noteq> 0),
                     frame_payload = (if data ! 1 AND 0x80 \<noteq> 0 then apply_mask m src else src)\<rparr>)))))"
proof -
  assume len: "length data \<ge> 2"
  then have "byte_at data 0 = Inr (data ! 0)" "byte_at data 1 = Inr (data ! 1)"
    "\<not> length data < 2"
    by (auto simp: byte_at_def)
  then show ?thesis
    by (simp only: decode_frame_def Let_def bind_res.simps if_False)
qed

lemma header_sum_small:
  "decode_length data b1 = Inr (Some (n, h)) \<Longrightarrow> decode_mask data masked h = Inr (Some (m, h')) \<Longrightarrow>
   n \<le> string_max_size \<Longrightarrow> wrap64 (h' + n) = h' + n \<and> 2 \<le> h' \<and> h' \<le> 14"
  using decode_length_cases [of data b1 n h] decode_mask_cases [of data masked h m h']
  by (auto simp: string_max_size_def)

lemma decode_frame_cases:
  assumes "2 \<le> length data"
  obtains "decode_frame data = Inr None"
  | n h m h' where "decode_length data (data ! 1) = Inr (Some (n, h))"
      "decode_mask data (data ! 1 AND 0x80 \<noteq> 0) h = Inr (Some (m, h'))"
      "decode_frame data = (if length data < wrap64 (h' + n) then Inr None
         else if n > string_max_size then Inl Length_error
         else Inr (Some (h' + n, \<lparr>opcode = data ! 0 AND 0x0F, fin = (data ! 0 AND 0x80 \<noteq> 0),
           frame_payload = (if data ! 1 AND 0x80 \<noteq> 0 then apply_mask m (take n (drop h' data))
                            else take n (drop h' data))\<rparr>)))"
proof (cases "decode_length data (data ! 1)")
  case (Inr r)
  show thesis
  proof (cases r)
    case None
    then show thesis using that(1) Inr assms by (simp add: decode_frame_eq)
  next
    case (Some nh)
    obtain n h where nh: "nh = (n, h)" by (cases nh)
    show thesis
    proof (cases "decode_mask data (data ! 1 AND 0x80 \<noteq> 0) h")
      case Inr': (Inr q)
      show thesis
      proof (cases q)
        case None
        then show thesis using that(1) Inr Inr' Some nh assms by (simp add: decode_frame_eq)
      next
        case Some': (Some mh)
        obtain m h' where mh: "mh = (m, h')" by (cases mh)
        have *: "decode_length data (data ! 1) = Inr (Some (n, h))"
          "decode_mask data (data ! 1 AND 0x80 \<noteq> 0) h = Inr (Some (m, h'))"
          using Inr Some nh Inr' Some' mh by simp_all
        have "n \<le> string_max_size \<Longrightarrow> wrap64 (h' + n) = h' + n"
          using header_sum_small [OF *] by blast
        with * assms that(2) [OF *] show thesis by (simp add: decode_frame_eq)
      qed
    qed simp
  qed
qed simp

lemma decode_frame_SomeE:
  assumes "decode_frame data = Inr (Some (k, f))"
  obtains n h m h' where "2 \<le> length data"
    "decode_length data (data ! 1) = Inr (Some (n, h))"
    "decode_mask data (data ! 1 AND 0x80 \<noteq> 0) h = Inr (Some (m, h'))"
    "k = h' + n" "n \<le> string_max_size" "k \<le> length data" "2 \<le> h'" "h' \<le> 14"
    "f = \<lparr>opcode = data ! 0 AND 0x0F, fin = (data ! 0 AND 0x80 \<noteq> 0),
        frame_payload = (if data ! 1 AND 0x80 \<noteq> 0 then apply_mask m (take n (drop h' data))
                         else take n (drop h' data))\<rparr>"
proof -
  have len: "2 \<le> length data" using assms by (auto simp: decode_frame_def split: if_splits)
  then show thesis
  proof (cases rule: decode_frame_cases)
    case (2 n h m h')
    with assms header_sum_small [OF 2(1,2)] that [OF len 2(1,2)] show thesis
      by (auto split: if_splits)
  qed (use assms in simp)
qed

lemma decode_frame_no_oob: "decode_frame data \<noteq> Inl Out_of_bounds"
proof (cases "2 \<le> length data")
  case True
  then show ?thesis by (cases rule: decode_frame_cases) auto
qed (simp add: decode_frame_def)

lemma decode_frame_append:
  assumes "decode_frame data = Inr (Some (k, f))"
  shows "decode_frame (data @ t) = Inr (Some (k, f))"
  using assms
proof (cases rule: decode_frame_SomeE)
  case (1 n h m h')
  have nth: "(data @ t) ! 0 = data ! 0" "(data @ t) ! 1 = data ! 1"
    using 1(1) by (auto simp: nth_append)
  have w: "wrap64 (h' + n) = h' + n" using header_sum_small [OF 1(2,3,5)] by simp
  show ?thesis
    using 1 w nth decode_length_append [OF 1(2), of t] decode_mask_append [OF 1(3), of t]
    by (simp add: decode_frame_eq slice_def)
qed

text \<open>What a session sees of the decoder: a frame, or nothing yet.\<close>

definition ws_dec :: "(byte, ws_frame) decoder" where
  "ws_dec s = (case decode_frame s of Inr (Some r) \<Rightarrow> Some r | _ \<Rightarrow> None)"

lemma ws_dec_Some [simp]: "ws_dec s = Some r \<longleftrightarrow> decode_frame s = Inr (Some r)"
  by (auto simp: ws_dec_def split: sum.splits option.splits)

interpretation ws: frame_decoder ws_dec
  by unfold_locales (auto elim: decode_frame_SomeE intro: decode_frame_append)

section \<open>Properties of the codec\<close>

text \<open>
  C19: The frame decoder reads only inside the buffer, whatever the peer sends: it asks for more
  bytes, delivers a frame and consumes between 2 bytes and the whole buffer with the payload taken
  from it, or throws \<open>std::length_error\<close>; no other outcome exists.
\<close>

theorem ws_decoder_safe:
  "case decode_frame data of
     Inl e \<Rightarrow> e = Length_error
   | Inr None \<Rightarrow> True
   | Inr (Some (n, f)) \<Rightarrow> 2 + length (frame_payload f) \<le> n \<and> n \<le> length data"
proof (cases "2 \<le> length data")
  case True
  then show ?thesis
  proof (cases rule: decode_frame_cases)
    case (2 n h m h')
    then show ?thesis using header_sum_small [OF 2(1,2)] by (auto simp: apply_mask_def)
  qed simp
qed (simp add: decode_frame_def)

text \<open>
  A frame as RFC 6455 lays it out, independently of the codec: the shortest of three length fields, in
  network byte order, and a mask whose key is used cyclically.
\<close>

definition rfc_length :: "nat \<Rightarrow> bytes" where
  "rfc_length n =
     (if n < 126 then [word_of_nat n]
      else if n < 2 ^ 16 then 126 # map (\<lambda>i. word_of_nat (n div 256 ^ i)) [1, 0]
      else 127 # map (\<lambda>i. word_of_nat (n div 256 ^ i)) [7, 6, 5, 4, 3, 2, 1, 0])"

fun rfc_mask :: "bytes \<Rightarrow> bytes \<Rightarrow> bytes" where
  "rfc_mask mkey [] = []"
| "rfc_mask mkey (x # xs) = (x XOR hd mkey) # rfc_mask (rotate1 mkey) xs"

definition rfc_frame :: "bytes option \<Rightarrow> byte \<Rightarrow> bytes \<Rightarrow> bytes" where
  "rfc_frame k opc p =
     [0x80 OR (opc AND 0x0F)] @
     (case k of
        None \<Rightarrow> rfc_length (length p) @ p
      | Some mkey \<Rightarrow> [0x80 OR hd (rfc_length (length p))] @ tl (rfc_length (length p)) @
          mkey @ rfc_mask mkey p)"

text \<open>The same frame in terms of the codec's own functions.\<close>

definition codec_frame :: "bytes option \<Rightarrow> byte \<Rightarrow> bytes \<Rightarrow> bytes" where
  "codec_frame k opc p =
     [0x80 OR (opc AND 0x0F)] @
     (case k of
        None \<Rightarrow> encode_length (length p) @ p
      | Some mkey \<Rightarrow> [0x80 OR hd (encode_length (length p))] @ tl (encode_length (length p)) @
          mkey @ apply_mask mkey p)"

lemma length_digit:
  assumes "n < 2 ^ 64"
  shows "ucast (drop_bit (i * 8) (word_of_nat n :: 64 word) AND 0xFF) = (word_of_nat (n div 256 ^ i) :: byte)"
proof (rule word_unat_eq_iff [THEN iffD2])
  have "unat (drop_bit (i * 8) (word_of_nat n :: 64 word)) = n div 256 ^ i"
    using assms by (simp add: unat_drop_bit_eq drop_bit_nat_def unat_of_nat take_bit_nat_eq_self power_mult mult.commute [of i])
  moreover have "w AND 0xFF = take_bit 8 w" for w :: "64 word"
    by (simp add: take_bit_eq_mask mask_eq_exp_minus_1)
  ultimately show "unat (ucast (drop_bit (i * 8) (word_of_nat n :: 64 word) AND 0xFF) :: byte) = unat (word_of_nat (n div 256 ^ i) :: byte)"
    by (simp add: unsigned_ucast_eq unsigned_take_bit_eq unsigned_of_nat take_bit_nat_def)
qed

lemma rfc_mask_nth: "mkey \<noteq> [] \<Longrightarrow> i < length p \<Longrightarrow> rfc_mask mkey p ! i = p ! i XOR mkey ! (i mod length mkey)"
proof (induction p arbitrary: mkey i)
  case (Cons x xs)
  then show ?case by (cases i) (simp_all add: hd_conv_nth nth_rotate1 mod_Suc_eq)
qed simp

lemma length_rfc_mask [simp]: "length (rfc_mask mkey p) = length p"
  by (induction p arbitrary: mkey) simp_all
lemma word_digit16:
  assumes "n < 2 ^ 16"
  shows "ucast (drop_bit 8 (word_of_nat n :: 16 word) AND 0xFF) = (word_of_nat (n div 256) :: byte)"
    "ucast ((word_of_nat n :: 16 word) AND 0xFF) = (word_of_nat n :: byte)"
proof -
  have "w AND 0xFF = take_bit 8 w" for w :: "16 word"
    by (simp add: take_bit_eq_mask mask_eq_exp_minus_1)
  moreover have "unat (drop_bit 8 (word_of_nat n :: 16 word)) = n div 256"
    using assms by (simp add: unat_drop_bit_eq drop_bit_nat_def unat_of_nat take_bit_nat_eq_self)
  ultimately show "ucast (drop_bit 8 (word_of_nat n :: 16 word) AND 0xFF) = (word_of_nat (n div 256) :: byte)"
    "ucast ((word_of_nat n :: 16 word) AND 0xFF) = (word_of_nat n :: byte)"
    using assms by (simp_all add: word_unat_eq_iff unsigned_ucast_eq unsigned_take_bit_eq unsigned_of_nat take_bit_nat_def)
qed

lemma rfc_mask_codec: "length mkey = 4 \<Longrightarrow> rfc_mask mkey p = apply_mask mkey p"
  by (rule nth_equalityI) (auto simp: apply_mask_def rfc_mask_nth simp flip: length_greater_0_conv)

lemma rfc_length_codec:
  assumes "n < 2 ^ 63" shows "rfc_length n = encode_length n"
proof -
  have "word_of_nat (n div 256) = hi_byte (word_of_nat n)" "word_of_nat n = lo_byte (word_of_nat n)" if "n < 2 ^ 16"
    using that by (simp_all add: hi_byte_def lo_byte_def word_digit16)
  with assms show ?thesis by (simp add: rfc_length_def encode_length_def length_digit)
qed

lemma rfc_frame_codec:
  assumes "length p < 2 ^ 63" and "\<And>mkey. k = Some mkey \<Longrightarrow> length mkey = 4"
  shows "rfc_frame k opc p = codec_frame k opc p"
  using assms by (cases k) (simp_all add: rfc_frame_def codec_frame_def rfc_length_codec rfc_mask_codec)

lemma encode_frame_codec: "encode_frame p opc = codec_frame None opc p"
  by (simp add: encode_frame_def codec_frame_def)

lemma apply_mask_twice: "apply_mask k (apply_mask k p) = p"
  by (rule nth_equalityI) (auto simp: apply_mask_def xor.assoc)

lemma opcode_bits:
  "(0x80 OR ((b :: byte) AND 0x0F)) AND 0x0F = b AND 0x0F"
  "(0x80 OR (b AND 0x0F)) AND 0x80 \<noteq> 0"
proof -
  show "(0x80 OR (b AND 0x0F)) AND 0x0F = b AND 0x0F"
    by (simp add: bit.conj_disj_distrib2 and.assoc)
  show "(0x80 OR (b AND 0x0F)) AND 0x80 \<noteq> 0"
    by (simp add: bit.conj_disj_distrib2 and.assoc)
qed

lemma mask_flag:
  "(0x80 OR (b :: byte)) AND 0x80 \<noteq> 0" "unat ((0x80 OR (b :: byte)) AND 0x7F) = unat (b AND 0x7F)"
  by (simp_all add: bit.conj_disj_distrib2)

lemma encode_length_nonempty [simp]: "encode_length n \<noteq> []"
  by (simp add: encode_length_def)

lemma decode_length_flag:
  "decode_length (b0 # (0x80 OR b1) # t) (0x80 OR b1) = decode_length (b0 # b1 # t) b1"
  by (simp add: decode_length_def mask_flag byte_at_def slice_def Let_def)

lemma length_encode_length: "length (encode_length n) \<le> 9 \<and> 1 \<le> length (encode_length n)"
  by (simp add: encode_length_def)

lemma decode_codec_frame:
  assumes n: "length p < 2 ^ 63" and k: "\<And>mkey. k = Some mkey \<Longrightarrow> length mkey = 4"
  shows "decode_frame (codec_frame k opc p) = Inr (Some (length (codec_frame k opc p),
    \<lparr>opcode = opc AND 0x0F, fin = True, frame_payload = p\<rparr>))"
proof -
  let ?n = "length p" and ?l = "encode_length (length p)" and ?b0 = "0x80 OR (opc AND 0x0F) :: byte"
  obtain x xs where l: "?l = x # xs" by (cases ?l) auto
  have small: "length xs \<le> 8" using length_encode_length [of ?n] by (simp add: l)
  have dl: "decode_length (?b0 # x # xs @ q) x = Inr (Some (?n, 2 + length xs))" "x AND 0x80 = 0" for q
    using decode_length_encode [OF n, of ?b0 q] by (simp_all add: l)
  show ?thesis
  proof (cases k)
    case None
    let ?d = "?b0 # x # xs @ p"
    have d: "codec_frame k opc p = ?d" by (simp add: codec_frame_def None l)
    have "decode_mask ?d False (2 + length xs) = Inr (Some ([0, 0, 0, 0], 2 + length xs))"
      by (simp add: decode_mask_def)
    then show ?thesis unfolding d
      using dl n small opcode_bits [of opc]
      by (simp add: decode_frame_eq string_max_size_def slice_def)
  next
    case (Some mkey)
    let ?y = "0x80 OR x" and ?m = "apply_mask mkey p"
    let ?d = "?b0 # ?y # xs @ mkey @ ?m"
    have m: "length mkey = 4" "length ?m = ?n" using k Some by (simp_all add: apply_mask_def)
    have d: "codec_frame k opc p = ?d" by (simp add: codec_frame_def Some l)
    have "decode_length ?d ?y = Inr (Some (?n, 2 + length xs))"
      unfolding decode_length_flag by (rule dl(1))
    moreover have "decode_mask ?d True (2 + length xs) = Inr (Some (mkey, 6 + length xs))"
      using m by (simp add: decode_mask_def slice_def)
    moreover have "drop (6 + length xs) ?d = ?m"
    proof -
      have "?d = (?b0 # ?y # xs @ mkey) @ ?m" "length (?b0 # ?y # xs @ mkey) = 6 + length xs"
        using m by simp_all
      then show ?thesis by (metis append_eq_conv_conj)
    qed
    ultimately show ?thesis unfolding d
      using n small m opcode_bits [of opc] mask_flag(1) [of x] apply_mask_twice [of mkey p]
      by (simp add: decode_frame_eq string_max_size_def slice_def)
  qed
qed

lemma drain_frames:
  assumes "\<forall>(k, opc, p) \<in> set ms. length p < 2 ^ 63 \<and> (\<forall>mkey. k = Some mkey \<longrightarrow> length mkey = 4)"
  shows "drain ws_dec (concat (map (\<lambda>(k, opc, p). rfc_frame k opc p) ms)) =
    (map (\<lambda>(k, opc, p). \<lparr>opcode = opc AND 0x0F, fin = True, frame_payload = p\<rparr>) ms, [])"
  using assms
proof (induction ms)
  case Nil
  show ?case by (simp add: drain_def)
next
  case (Cons m ms)
  obtain k opc p where m: "m = (k, opc, p)" by (cases m)
  let ?f = "rfc_frame k opc p" and ?r = "concat (map (\<lambda>(k, opc, p). rfc_frame k opc p) ms)"
  have "decode_frame ?f = Inr (Some (length ?f,
      \<lparr>opcode = opc AND 0x0F, fin = True, frame_payload = p\<rparr>))"
    using Cons.prems m decode_codec_frame [of p k opc] rfc_frame_codec [of p k opc] by auto
  then have "decode_frame (?f @ ?r) = Inr (Some (length ?f,
      \<lparr>opcode = opc AND 0x0F, fin = True, frame_payload = p\<rparr>))"
    by (rule decode_frame_append)
  then have "drain ws_dec (?f @ ?r) = (let (fs, q) = drain ws_dec ?r in
      (\<lparr>opcode = opc AND 0x0F, fin = True, frame_payload = p\<rparr> # fs, q))"
    by (subst ws.drain_eq) (simp add: ws_dec_def)
  then show ?case using Cons m by simp
qed

text \<open>
  C18: WebSocket messages survive the byte stream: however the network cuts a sequence of complete
  frames of RFC 6455, masked or not, into reads, decoding what has arrived after each read delivers
  exactly the original payloads and opcodes, in order, with no byte left; and the frames of
  \<open>encode_frame\<close> are those of the RFC.
\<close>

theorem ws_stream_roundtrip:
  assumes "\<forall>(k, opc, p) \<in> set ms. length p < 2 ^ 63 \<and> (\<forall>mkey. k = Some mkey \<longrightarrow> length mkey = 4)"
    and "concat chunks = concat (map (\<lambda>(k, opc, p). rfc_frame k opc p) ms)"
  shows "feed_all ws_dec chunks =
    (map (\<lambda>(k, opc, p). \<lparr>opcode = opc AND 0x0F, fin = True, frame_payload = p\<rparr>) ms, []) \<and>
    (\<forall>(k, opc, p) \<in> set ms. encode_frame p opc = rfc_frame None opc p)"
proof
  show "feed_all ws_dec chunks = (map (\<lambda>(k, opc, p). \<lparr>opcode = opc AND 0x0F, fin = True, frame_payload = p\<rparr>) ms, [])"
    by (simp add: ws.feed_all_concat assms(2) drain_frames [OF assms(1)])
  show "\<forall>(k, opc, p) \<in> set ms. encode_frame p opc = rfc_frame None opc p"
    using assms(1) by (fastforce simp: encode_frame_codec intro: rfc_frame_codec [symmetric])
qed

theorem ws_stream_roundtrip_witness:
  "feed_all ws_dec [[0x82], [0x81, 1, 2, 3], [4, 6]] =
     ([\<lparr>opcode = 2, fin = True, frame_payload = [7]\<rparr>], [])"
  using ws_stream_roundtrip [of "[(Some [1, 2, 3, 4], 2, [7])]" "[[0x82], [0x81, 1, 2, 3], [4, 6]]"]
  by (simp add: rfc_frame_def rfc_length_def)

text \<open>
  A 64-bit length field close to \<open>2 ^ 64\<close> defeats the completeness check: \<open>header_len +
  payload_len\<close> wraps to a small number, and the decoder goes on to resize the payload to the
  declared length, which throws. Fourteen bytes suffice, before any authentication.
\<close>

theorem ws_length_wrap_throws:
  assumes "length lenb = 8" "length mkey = 4" "2 ^ 64 - 14 \<le> unat (be64 lenb)"
    and "unat (be64 lenb) + 14 - 2 ^ 64 \<le> 14 + length rest"
  shows "decode_frame (b0 # 0xFF # lenb @ mkey @ rest) = Inl Length_error"
proof -
  let ?d = "b0 # 0xFF # lenb @ mkey @ rest" and ?n = "unat (be64 lenb)"
  have l: "?n < 2 ^ 64" by (rule order_less_le_trans [OF unsigned_less]) simp
  have "decode_length ?d 0xFF = Inr (Some (?n, 10))"
    using assms(1,2) by (simp add: decode_length_def slice_def)
  moreover have "decode_mask ?d True 10 = Inr (Some (mkey, 14))"
    using assms(1,2) by (simp add: decode_mask_def slice_def)
  moreover have "wrap64 (14 + ?n) = ?n + 14 - 2 ^ 64"
  proof -
    have "14 + ?n = (?n + 14 - 2 ^ 64) + 2 ^ 64" using assms(3) by simp
    then have "wrap64 (14 + ?n) = (?n + 14 - 2 ^ 64) mod 2 ^ 64"
      by (simp only: wrap64_def mod_add_self2)
    also have "\<dots> = ?n + 14 - 2 ^ 64" using l by (intro mod_less) simp
    finally show ?thesis .
  qed
  ultimately show ?thesis
    using assms by (simp add: decode_frame_eq string_max_size_def)
qed

theorem ws_length_wrap_throws_witness:
  "decode_frame (0x82 # 0xFF # [0xFF, 0xFF, 0xFF, 0xFF, 0xFF, 0xFF, 0xFF, 0xFF] @ [0, 0, 0, 0] @ [])
    = Inl Length_error"
  using ws_length_wrap_throws [of "[0xFF, 0xFF, 0xFF, 0xFF, 0xFF, 0xFF, 0xFF, 0xFF]" "[0, 0, 0, 0]"
      "[]" "0x82"]
  by (simp add: be64_def)

lemma length_compute_accept_key: "length (compute_accept_key k) = 28"
  by (simp add: compute_accept_key_def length_base64_encode length_sha1)

end
