(* ===== verification/ConnGuard.thy ===== *)
theory ConnGuard
  imports Prelude
begin

text \<open>
  The process-wide connection guard (\<open>include/apr/connection_guard.hpp\<close>,
  \<open>src/core/connection_guard.cpp\<close>): a total, a count per source address and a sliding window of
  recent admissions per source address. The two hash maps are only looked up and updated, so they
  are maps here. \<open>steady_clock::now()\<close> is an argument; times and durations are integers in the
  clock's unit.

  The abstract state of the guard is the multiset of the addresses of the live connections. The
  locale \<open>admission\<close> is the contract the listeners rely on.
\<close>

section \<open>State and operations\<close>

record connection_limits =
  max_total_connections :: nat
  max_connections_per_ip :: nat
  max_new_connections_per_ip :: nat
  rate_window :: int

record guard =
  g_total :: nat
  g_count :: "string \<rightharpoonup> nat"
  g_recent :: "string \<rightharpoonup> int list"

definition guard_init :: guard where
  "guard_init = \<lparr>g_total = 0, g_count = (\<lambda>_. None), g_recent = (\<lambda>_. None)\<rparr>"

definition count_of :: "(string \<rightharpoonup> nat) \<Rightarrow> string \<Rightarrow> nat" where
  "count_of m ip = (case m ip of None \<Rightarrow> 0 | Some n \<Rightarrow> n)"

definition recent_of :: "(string \<rightharpoonup> int list) \<Rightarrow> string \<Rightarrow> int list" where
  "recent_of m ip = (case m ip of None \<Rightarrow> [] | Some ts \<Rightarrow> ts)"

text \<open>\<open>while (!recent.empty() && now - recent.front() > window) recent.pop_front();\<close>\<close>

definition expire :: "int \<Rightarrow> int \<Rightarrow> int list \<Rightarrow> int list" where
  "expire w now ts = dropWhile (\<lambda>t. now - t > w) ts"

definition admit :: "string \<Rightarrow> guard \<Rightarrow> guard" where
  "admit ip s = s\<lparr>g_total := g_total s + 1, g_count := (g_count s)(ip \<mapsto> count_of (g_count s) ip + 1)\<rparr>"

definition try_acquire :: "connection_limits \<Rightarrow> int \<Rightarrow> string \<Rightarrow> guard \<Rightarrow> bool \<times> guard" where
  "try_acquire lim now ip s =
     (if max_total_connections lim > 0 \<and> g_total s \<ge> max_total_connections lim then (False, s)
      else if max_connections_per_ip lim > 0 \<and>
              count_of (g_count s) ip \<ge> max_connections_per_ip lim then (False, s)
      else if max_new_connections_per_ip lim > 0
        then let recent = expire (rate_window lim) now (recent_of (g_recent s) ip)
             in if length recent \<ge> max_new_connections_per_ip lim
                then (False, s\<lparr>g_recent := (g_recent s)(ip \<mapsto> recent)\<rparr>)
                else (True, admit ip (s\<lparr>g_recent := (g_recent s)(ip \<mapsto> recent @ [now])\<rparr>))
      else (True, admit ip s))"

definition release :: "string \<Rightarrow> guard \<Rightarrow> guard" where
  "release ip s =
     (let s1 = (if g_total s > 0 then s\<lparr>g_total := g_total s - 1\<rparr> else s)
      in case g_count s1 ip of
           None \<Rightarrow> s1
         | Some n \<Rightarrow>
             let n' = (if n > 0 then n - 1 else n)
             in if n' = 0 then s1\<lparr>g_count := (g_count s1)(ip := None)\<rparr>
                else s1\<lparr>g_count := (g_count s1)(ip \<mapsto> n')\<rparr>)"

definition total_connections :: "guard \<Rightarrow> nat" where
  "total_connections s = g_total s"

section \<open>The live connections\<close>

text \<open>The guard counts the live connections \<open>M\<close>: in total and per address, absent when zero.\<close>

definition counts :: "guard \<Rightarrow> string multiset \<Rightarrow> bool" where
  "counts s M = (g_total s = size M \<and>
     (\<forall>ip. g_count s ip = (if count M ip = 0 then None else Some (count M ip))))"

definition within_limits :: "connection_limits \<Rightarrow> string multiset \<Rightarrow> bool" where
  "within_limits lim M =
     ((max_total_connections lim = 0 \<or> size M \<le> max_total_connections lim) \<and>
      (\<forall>ip. max_connections_per_ip lim = 0 \<or> count M ip \<le> max_connections_per_ip lim))"

text \<open>What a listener relies on: admission adds one live connection, and only within the limits.\<close>

locale admission =
  fixes rep :: "'s \<Rightarrow> string multiset \<Rightarrow> bool"
    and init :: 's
    and acquire :: "'t \<Rightarrow> string \<Rightarrow> 's \<Rightarrow> bool \<times> 's"
    and rel :: "string \<Rightarrow> 's \<Rightarrow> 's"
    and lim_ok :: "string multiset \<Rightarrow> bool"
  assumes init_rep: "rep init {#}"
    and init_lim: "lim_ok {#}"
    and acquire_yes: "rep s M \<Longrightarrow> lim_ok M \<Longrightarrow> acquire t ip s = (True, s') \<Longrightarrow>
        rep s' (add_mset ip M) \<and> lim_ok (add_mset ip M)"
    and acquire_no: "rep s M \<Longrightarrow> acquire t ip s = (False, s') \<Longrightarrow> rep s' M"
    and rel_rep: "rep s M \<Longrightarrow> ip \<in># M \<Longrightarrow> rep (rel ip s) (M - {#ip#})"
    and lim_mono: "lim_ok M \<Longrightarrow> N \<subseteq># M \<Longrightarrow> lim_ok N"
begin

text \<open>One event of a run: an accepted socket, or a held connection that ends.\<close>

lemma acquire_step:
  assumes "rep s M" "lim_ok M" "acquire t ip s = (b, s')"
  shows "rep s' (if b then add_mset ip M else M) \<and> lim_ok (if b then add_mset ip M else M)"
  using assms acquire_yes acquire_no by (cases b) auto

lemma rel_step:
  assumes "rep s M" "lim_ok M" "ip \<in># M"
  shows "rep (rel ip s) (M - {#ip#}) \<and> lim_ok (M - {#ip#})"
  using assms rel_rep lim_mono [of M "M - {#ip#}"] by simp

lemma acquire_release:
  assumes "rep s M" "lim_ok M" "acquire t ip s = (True, s')"
  shows "rep (rel ip s') M"
  using acquire_yes [OF assms] rel_rep [of s' "add_mset ip M" ip] by simp

end

lemma count_of_counts: "counts s M \<Longrightarrow> count_of (g_count s) ip = count M ip"
  by (simp add: counts_def count_of_def)

lemma counts_recent [simp]: "counts (s\<lparr>g_recent := r\<rparr>) M = counts s M"
  by (simp add: counts_def)

lemma counts_admit: "counts s M \<Longrightarrow> counts (admit ip s) (add_mset ip M)"
  using count_of_counts [of s M ip] by (auto simp: counts_def admit_def count_eq_zero_iff)

lemma counts_admit_recent [simp]:
  "counts (admit ip (s\<lparr>g_recent := r\<rparr>)) M = counts (admit ip s) M"
  by (simp add: counts_def admit_def)

lemma try_acquire_True:
  assumes "try_acquire lim now ip s = (True, s')"
  shows "(max_total_connections lim = 0 \<or> g_total s < max_total_connections lim) \<and>
    (max_connections_per_ip lim = 0 \<or> count_of (g_count s) ip < max_connections_per_ip lim) \<and>
    counts s' M = counts (admit ip s) M"
  using assms by (auto simp: try_acquire_def Let_def split: if_splits)

lemma try_acquire_False: "try_acquire lim now ip s = (False, s') \<Longrightarrow> counts s' M = counts s M"
  by (auto simp: try_acquire_def Let_def split: if_splits)

lemma counts_release:
  assumes "counts s M" "ip \<in># M"
  shows "counts (release ip s) (M - {#ip#})"
proof -
  have "0 < count M ip" using assms(2) by simp
  moreover have "0 < size M" using assms(2) by (metis empty_iff nonempty_has_size set_mset_empty)
  moreover have "size (M - {#ip#}) = size M - 1" using assms(2) by (simp add: size_Diff_singleton)
  ultimately show ?thesis using assms(1)
    by (auto simp: counts_def release_def Let_def count_eq_zero_iff)
qed

interpretation cg: admission counts guard_init "try_acquire lim" release "within_limits lim" for lim
proof unfold_locales
  show "counts guard_init {#}" by (simp add: counts_def guard_init_def)
  show "within_limits lim {#}" by (simp add: within_limits_def)
  fix s M t ip s'
  show "counts s M \<Longrightarrow> within_limits lim M \<Longrightarrow> try_acquire lim t ip s = (True, s') \<Longrightarrow>
      counts s' (add_mset ip M) \<and> within_limits lim (add_mset ip M)"
    using try_acquire_True [of lim t ip s s' "add_mset ip M"] counts_admit [of _ M ip] count_of_counts [of s M]
    by (auto simp: within_limits_def counts_def)
  show "counts s M \<Longrightarrow> try_acquire lim t ip s = (False, s') \<Longrightarrow> counts s' M"
    using try_acquire_False [of lim t ip s s' M] by auto
  show "counts s M \<Longrightarrow> ip \<in># M \<Longrightarrow> counts (release ip s) (M - {#ip#})"
    by (rule counts_release)
  fix N
  show "within_limits lim M \<Longrightarrow> N \<subseteq># M \<Longrightarrow> within_limits lim N"
    using mset_subset_eq_count [of N M] size_mset_mono [of N M]
    by (auto simp: within_limits_def intro: le_trans)
qed

section \<open>Who is connected\<close>

text \<open>The addresses of the sessions of a list that are not closed: what the guard is to count.\<close>

definition open_of :: "('a \<Rightarrow> string) \<Rightarrow> ('a \<Rightarrow> bool) \<Rightarrow> 'a list \<Rightarrow> string multiset" where
  "open_of peer closed ss = image_mset peer (filter_mset (\<lambda>s. \<not> closed s) (mset ss))"

lemma open_of_same:
  "list_all2 (\<lambda>s s'. peer s' = peer s \<and> closed s' = closed s) ss ss' \<Longrightarrow>
     open_of peer closed ss' = open_of peer closed ss"
  by (induction rule: list_all2_induct) (auto simp: open_of_def)

lemma open_of_update:
  assumes "peer x = peer (ss ! i)" "closed x = closed (ss ! i)"
  shows "open_of peer closed (ss[i := x]) = open_of peer closed ss"
proof (cases "i < length ss")
  case True
  then show ?thesis using assms
    by (intro open_of_same) (auto simp: list_all2_conv_all_nth nth_list_update)
qed (simp add: list_update_beyond)

lemma open_of_close:
  assumes "i < length ss" "\<not> closed (ss ! i)" "closed x"
  shows "peer (ss ! i) \<in># open_of peer closed ss \<and>
    open_of peer closed (ss[i := x]) = open_of peer closed ss - {#peer (ss ! i)#}"
proof -
  have "open_of peer closed ss = open_of peer closed (take i ss @ ss ! i # drop (Suc i) ss)"
    using id_take_nth_drop [OF assms(1)] by simp
  then show ?thesis using assms by (simp add: upd_conv_take_nth_drop open_of_def)
qed

section \<open>Runs of the guard\<close>

text \<open>
  The listeners' use: sockets are accepted at given times, connections end. A run returns the guard,
  the live connections and the admissions made so far, in order.
\<close>

datatype guard_event = Accept int string | End_session string

record guard_run =
  run_guard :: guard
  run_live :: "string multiset"
  run_admitted :: "(int \<times> string) list"

definition run_init :: guard_run where
  "run_init = \<lparr>run_guard = guard_init, run_live = {#}, run_admitted = []\<rparr>"

fun guard_step :: "connection_limits \<Rightarrow> guard_event \<Rightarrow> guard_run \<Rightarrow> guard_run" where
  "guard_step lim (Accept now ip) r =
     (case try_acquire lim now ip (run_guard r) of
        (True, s) \<Rightarrow> \<lparr>run_guard = s, run_live = add_mset ip (run_live r),
                      run_admitted = run_admitted r @ [(now, ip)]\<rparr>
      | (False, s) \<Rightarrow> r\<lparr>run_guard := s\<rparr>)"
| "guard_step lim (End_session ip) r =
     (if ip \<in># run_live r
      then r\<lparr>run_guard := release ip (run_guard r), run_live := run_live r - {#ip#}\<rparr>
      else r)"

text \<open>
  C16: The guard counts exactly the live connections and enforces its limits: after any sequence of
  accepted sockets and ended sessions, \<open>total_connections()\<close> is the number of live connections, the
  per-address table holds the exact positive counts, and neither the total limit nor any
  per-address limit is exceeded.
\<close>

theorem guard_counts_live:
  "let r = fold (guard_step lim) evs run_init
   in counts (run_guard r) (run_live r) \<and> within_limits lim (run_live r)
      \<and> total_connections (run_guard r) = size (run_live r)"
proof -
  define ok where "ok (r :: guard_run) = (counts (run_guard r) (run_live r) \<and> within_limits lim (run_live r))" for r
  have "ok (guard_step lim e r)" if "ok r" for e and r :: guard_run
  proof (cases e)
    case (Accept now ip)
    obtain b s where "try_acquire lim now ip (run_guard r) = (b, s)" by fastforce
    then show ?thesis using that cg.acquire_step [of "run_guard r" "run_live r" lim now ip b s] Accept
      by (cases b) (auto simp: ok_def)
  next
    case (End_session ip)
    then show ?thesis using that cg.rel_step [of "run_guard r" "run_live r" lim ip] by (auto simp: ok_def)
  qed
  then have "ok r \<Longrightarrow> ok (fold (guard_step lim) evs r)" for r :: guard_run
    by (induction evs arbitrary: r) auto
  moreover have "ok run_init" using cg.init_rep cg.init_lim by (simp add: ok_def run_init_def)
  ultimately have "ok (fold (guard_step lim) evs run_init)" by blast
  then show ?thesis by (simp add: ok_def Let_def total_connections_def counts_def)
qed

section \<open>The rate limit\<close>

definition admitted_times :: "string \<Rightarrow> (int \<times> string) list \<Rightarrow> int list" where
  "admitted_times ip h = map fst (filter (\<lambda>(t, a). a = ip) h)"

fun accept_times :: "guard_event list \<Rightarrow> int list" where
  "accept_times [] = []"
| "accept_times (Accept now ip # es) = now # accept_times es"
| "accept_times (End_session ip # es) = accept_times es"

lemma recent_of_upd [simp]:
  "recent_of (m(ip \<mapsto> ts)) ip' = (if ip' = ip then ts else recent_of m ip')"
  by (simp add: recent_of_def)

lemma admitted_times_snoc [simp]:
  "admitted_times ip (h @ [(t, a)]) = admitted_times ip h @ (if a = ip then [t] else [])"
  by (simp add: admitted_times_def)

lemma expire_split: "\<exists>gone. ts = gone @ expire w now ts \<and> (\<forall>t \<in> set gone. now - t > w)"
  by (rule exI [of _ "takeWhile (\<lambda>t. now - t > w) ts"]) (auto simp: expire_def dest: set_takeWhileD)

lemma release_recent [simp]: "g_recent (release ip s) = g_recent s"
  by (simp add: release_def Let_def split: option.split)

lemma admit_recent [simp]: "g_recent (admit ip s) = g_recent s"
  by (simp add: admit_def)

text \<open>The guard's table after an admission decision, when the rate limit is on.\<close>

lemma try_acquire_recent:
  assumes "try_acquire lim now ip s = (b, s')" "0 < max_new_connections_per_ip lim"
  defines "r \<equiv> expire (rate_window lim) now (recent_of (g_recent s) ip)"
  shows "(b \<longrightarrow> length r < max_new_connections_per_ip lim) \<and>
    (recent_of (g_recent s') ip' = recent_of (g_recent s) ip' \<and> \<not> b \<or>
     recent_of (g_recent s') ip' =
      (if ip' = ip then (if b then r @ [now] else r) else recent_of (g_recent s) ip'))"
  using assms by (auto simp: try_acquire_def Let_def split: if_splits)

text \<open>One address's window across one accepted socket.\<close>

definition expired_prefix :: "int \<Rightarrow> int \<Rightarrow> int list \<Rightarrow> int list \<Rightarrow> bool" where
  "expired_prefix w now h r = (\<exists>old. h = old @ r \<and> (\<forall>t \<in> set old. now - t > w))"

definition window1 :: "connection_limits \<Rightarrow> int \<Rightarrow> int list \<Rightarrow> int list \<Rightarrow> bool" where
  "window1 lim now hist recent =
     (expired_prefix (rate_window lim) now hist recent \<and>
      (\<forall>t \<in> set hist. t \<le> now) \<and> length recent \<le> max_new_connections_per_ip lim \<and>
      (\<forall>x. length (filter (\<lambda>t. x \<le> t \<and> t \<le> x + rate_window lim) hist)
            \<le> max_new_connections_per_ip lim))"

lemma expired_prefix_later:
  assumes "expired_prefix w now h r" "now \<le> now'"
  shows "expired_prefix w now' h r"
proof -
  obtain old where "h = old @ r" "\<forall>t \<in> set old. now - t > w"
    using assms(1) by (auto simp: expired_prefix_def)
  moreover from this have "\<forall>t \<in> set old. now' - t > w" using assms(2) by fastforce
  ultimately show ?thesis unfolding expired_prefix_def by blast
qed

lemma window1_later: "window1 lim now h r \<Longrightarrow> now \<le> now' \<Longrightarrow> window1 lim now' h r"
  using expired_prefix_later [of _ now h r now'] by (auto simp: window1_def intro: order_trans)

lemma window1_expire:
  assumes "window1 lim now h r"
  shows "window1 lim now h (expire (rate_window lim) now r)"
proof -
  obtain gone where "r = gone @ expire (rate_window lim) now r"
    "\<forall>t \<in> set gone. now - t > rate_window lim" using expire_split by blast
  then obtain q where q: "r = gone @ q" "q = expire (rate_window lim) now r"
    "\<forall>t \<in> set gone. now - t > rate_window lim" by blast
  obtain old where "h = old @ r" "\<forall>t \<in> set old. now - t > rate_window lim"
    using assms by (auto simp: window1_def expired_prefix_def)
  with q have "h = (old @ gone) @ q" "\<forall>t \<in> set (old @ gone). now - t > rate_window lim" by auto
  then have "expired_prefix (rate_window lim) now h q" unfolding expired_prefix_def by blast
  moreover have "length q \<le> length r" using q(1) by simp
  ultimately have "window1 lim now h q" using assms unfolding window1_def by (meson le_trans)
  then show ?thesis using q(2) by simp
qed

lemma window1_admit:
  assumes "window1 lim now h r" "length r < max_new_connections_per_ip lim"
  shows "window1 lim now (h @ [now]) (r @ [now])"
proof -
  let ?w = "rate_window lim" and ?m = "max_new_connections_per_ip lim"
  obtain old where old: "h = old @ r" "\<forall>t \<in> set old. now - t > ?w"
    using assms(1) by (auto simp: window1_def expired_prefix_def)
  have "length (filter (\<lambda>t. x \<le> t \<and> t \<le> x + ?w) (h @ [now])) \<le> ?m" for x
  proof (cases "x \<le> now \<and> now \<le> x + ?w")
    case True
    then have "filter (\<lambda>t. x \<le> t \<and> t \<le> x + ?w) old = []"
      using old(2) by (intro filter_False) auto
    then have "filter (\<lambda>t. x \<le> t \<and> t \<le> x + ?w) (h @ [now])
        = filter (\<lambda>t. x \<le> t \<and> t \<le> x + ?w) (r @ [now])"
      by (simp add: old(1))
    also have "length \<dots> \<le> length (r @ [now])" by (rule length_filter_le)
    finally show ?thesis using assms(2) by simp
  next
    case False
    then have "filter (\<lambda>t. x \<le> t \<and> t \<le> x + ?w) (h @ [now])
        = filter (\<lambda>t. x \<le> t \<and> t \<le> x + ?w) h" by auto
    then show ?thesis using assms(1) by (simp add: window1_def)
  qed
  moreover have "expired_prefix ?w now (h @ [now]) (r @ [now])"
    unfolding expired_prefix_def using old by (intro exI [of _ old]) auto
  ultimately show ?thesis using assms by (auto simp: window1_def)
qed

definition windows :: "connection_limits \<Rightarrow> int \<Rightarrow> guard_run \<Rightarrow> bool" where
  "windows lim now r = (\<forall>ip. window1 lim now (admitted_times ip (run_admitted r))
     (recent_of (g_recent (run_guard r)) ip))"

lemma windows_accept:
  assumes "windows lim now r" "now \<le> now'" "0 < max_new_connections_per_ip lim"
  shows "windows lim now' (guard_step lim (Accept now' ip) r)"
proof -
  obtain b s where acq: "try_acquire lim now' ip (run_guard r) = (b, s)" by fastforce
  show ?thesis unfolding windows_def
  proof
    fix a
    let ?h = "admitted_times a (run_admitted r)" and ?q = "recent_of (g_recent (run_guard r)) a"
    have w: "window1 lim now' ?h ?q"
      using window1_later assms(1,2) unfolding windows_def by blast
    note e = window1_expire [OF w]
    show "window1 lim now' (admitted_times a (run_admitted (guard_step lim (Accept now' ip) r)))
        (recent_of (g_recent (run_guard (guard_step lim (Accept now' ip) r))) a)"
      using try_acquire_recent [OF acq assms(3), of a] w e window1_admit [OF e]
      by (cases b) (auto simp: acq)
  qed
qed

lemma windows_end: "windows lim now r \<Longrightarrow> windows lim now (guard_step lim (End_session ip) r)"
  by (simp add: windows_def)

lemma windows_run:
  assumes "windows lim now r" "sorted (now # accept_times evs)" "0 < max_new_connections_per_ip lim"
  shows "\<exists>t. windows lim t (fold (guard_step lim) evs r)"
  using assms
proof (induction evs arbitrary: now r)
  case (Cons e evs)
  show ?case
  proof (cases e)
    case (Accept now' ip)
    then have "windows lim now' (guard_step lim e r)" "sorted (now' # accept_times evs)"
      using Cons.prems windows_accept by auto
    then show ?thesis using Cons.IH Cons.prems(3) by (metis fold_simps(2))
  next
    case (End_session ip)
    then have "windows lim now (guard_step lim e r)" "sorted (now # accept_times evs)"
      using Cons.prems windows_end by auto
    then show ?thesis using Cons.IH Cons.prems(3) by (metis fold_simps(2))
  qed
qed auto

text \<open>
  C17: The per-address rate limit holds for every window, not only for windows aligned to anything:
  with the limit on and a monotone clock, no closed interval of length \<open>rate_window\<close> ever contains
  more than \<open>max_new_connections_per_ip\<close> admissions of one address, in any interleaving with other
  addresses and with sessions that end (ending a session does not give its admission back).
\<close>

theorem guard_rate_limit:
  assumes "0 < max_new_connections_per_ip lim" "sorted (accept_times evs)"
  shows "length (filter (\<lambda>t. x \<le> t \<and> t \<le> x + rate_window lim)
      (admitted_times ip (run_admitted (fold (guard_step lim) evs run_init))))
    \<le> max_new_connections_per_ip lim"
proof -
  define now where "now = (case accept_times evs of [] \<Rightarrow> 0 | t # _ \<Rightarrow> t)"
  have "sorted (now # accept_times evs)"
    using assms(2) by (cases "accept_times evs") (auto simp: now_def)
  moreover have "windows lim now run_init"
    by (simp add: windows_def window1_def expired_prefix_def run_init_def admitted_times_def guard_init_def recent_of_def)
  ultimately obtain t where "windows lim t (fold (guard_step lim) evs run_init)"
    using windows_run assms(1) by blast
  then show ?thesis by (simp add: windows_def window1_def)
qed

theorem guard_rate_limit_witness:
  "length (filter (\<lambda>t. 0 \<le> t \<and> t \<le> 10) (admitted_times ''a'' (run_admitted
     (fold (guard_step \<lparr>max_total_connections = 0, max_connections_per_ip = 0,
        max_new_connections_per_ip = 1, rate_window = 10\<rparr>)
       [Accept 1 ''a'', End_session ''a'', Accept 2 ''a''] run_init)))) \<le> 1"
  using guard_rate_limit [of "\<lparr>max_total_connections = 0, max_connections_per_ip = 0,
        max_new_connections_per_ip = 1, rate_window = 10\<rparr>"
      "[Accept 1 ''a'', End_session ''a'', Accept 2 ''a'']" 0 "''a''"]
  by simp

text \<open>
  The rate table only grows: an address that was ever examined keeps its entry, also after all its
  connections have ended and its window has expired.
\<close>

lemma recent_table_grows:
  "dom (g_recent (run_guard r)) \<subseteq> dom (g_recent (run_guard (guard_step lim e r)))"
proof (cases e)
  case (Accept now ip)
  then show ?thesis
    by (auto simp: try_acquire_def Let_def dom_def admit_def split: if_splits prod.splits)
qed auto

end
