(* ===== verification/Json.thy ===== *)
theory Json
  imports Prelude
begin

text \<open>
  The JSON values the program exchanges. The library (\<open>nlohmann/json\<close>) is not part of the
  repository: what it parses, prints and converts between number kinds is a parameter
  (\<open>json_lib\<close>), and only its documented value model is written down: seven kinds of value, signed,
  unsigned and floating-point numbers being distinct kinds, and objects kept in the order of their
  keys (\<open>std::map\<close>). The accessors below are the ones the program calls, with their documented
  exceptions.
\<close>

datatype json =
    JNull
  | JBool bool
  | JInt int
  | JUInt nat
  | JFloat "64 word"
  | JStr string
  | JArr "json list"
  | JObj "(string \<times> json) list"

type_synonym json_obj = "(string \<times> json) list"

record json_lib =
  json_parse :: "string \<Rightarrow> json res"
  json_dump :: "json \<Rightarrow> string res"
  float_to_u16 :: "64 word \<Rightarrow> 16 word"
  float_to_i64 :: "64 word \<Rightarrow> int"
  float_to_u64 :: "64 word \<Rightarrow> nat"

section \<open>Objects\<close>

text \<open>\<open>obj[k] = v\<close> and \<open>obj.erase(k)\<close> on an object ordered by key.\<close>

fun obj_set :: "string \<Rightarrow> 'v \<Rightarrow> (string \<times> 'v) list \<Rightarrow> (string \<times> 'v) list" where
  "obj_set k v [] = [(k, v)]"
| "obj_set k v ((k', v') # r) =
     (if k = k' then (k, v) # r
      else if k < k' then (k, v) # (k', v') # r
      else (k', v') # obj_set k v r)"

definition obj_erase :: "string \<Rightarrow> (string \<times> 'v) list \<Rightarrow> (string \<times> 'v) list" where
  "obj_erase k kvs = filter (\<lambda>kv. fst kv \<noteq> k) kvs"

definition obj_ok :: "(string \<times> 'v) list \<Rightarrow> bool" where
  "obj_ok kvs = sorted_wrt (<) (map fst kvs)"

text \<open>An object written as an initializer list.\<close>

definition obj_of :: "(string \<times> json) list \<Rightarrow> json" where
  "obj_of kvs = JObj (fold (\<lambda>(k, v) o'. obj_set k v o') kvs [])"

lemma map_of_obj_set [assoc_simps, simp]: "map_of (obj_set k v kvs) = (map_of kvs)(k \<mapsto> v)"
  by (induction k v kvs rule: obj_set.induct) auto

lemma set_obj_set_keys [simp]: "fst ` set (obj_set k v kvs) = insert k (fst ` set kvs)"
  by (induction k v kvs rule: obj_set.induct) auto

lemma obj_ok_set [intro, simp]: "obj_ok kvs \<Longrightarrow> obj_ok (obj_set k v kvs)"
proof (induction k v kvs rule: obj_set.induct)
  case (2 k v k' v' r)
  have "\<forall>x \<in> fst ` set (obj_set k v r). x = k \<or> x \<in> fst ` set r" by simp
  with 2 show ?case by (fastforce simp: obj_ok_def)
qed (simp add: obj_ok_def)

lemma obj_ok_erase [intro, simp]: "obj_ok kvs \<Longrightarrow> obj_ok (obj_erase k kvs)"
proof (induction kvs)
  case (Cons kv kvs)
  then show ?case by (auto simp: obj_ok_def obj_erase_def)
qed (simp add: obj_ok_def obj_erase_def)

lemma map_of_obj_erase [assoc_simps, simp]: "map_of (obj_erase k kvs) = (map_of kvs)(k := None)"
  by (induction kvs) (auto simp: obj_erase_def)

lemma obj_ok_distinct: "obj_ok kvs \<Longrightarrow> distinct (map fst kvs)"
  unfolding obj_ok_def using strict_sorted_iff by blast

section \<open>Accessors\<close>

text \<open>\<open>j.contains(k)\<close> is false for a value that is not an object; \<open>j[k]\<close> is used after it.\<close>

definition jlookup :: "json \<Rightarrow> string \<Rightarrow> json option" where
  "jlookup j k = (case j of JObj kvs \<Rightarrow> map_of kvs k | _ \<Rightarrow> None)"

fun is_number :: "json \<Rightarrow> bool" where
  "is_number (JInt i) = True"
| "is_number (JUInt n) = True"
| "is_number (JFloat f) = True"
| "is_number _ = False"

fun is_string :: "json \<Rightarrow> bool" where
  "is_string (JStr s) = True"
| "is_string _ = False"

fun is_array :: "json \<Rightarrow> bool" where
  "is_array (JArr a) = True"
| "is_array _ = False"

fun is_object :: "json \<Rightarrow> bool" where
  "is_object (JObj kvs) = True"
| "is_object _ = False"

text \<open>\<open>get<std::string>\<close>, \<open>get<uint16_t>\<close>, \<open>get<int64_t>\<close>; a wrong kind throws.\<close>

fun get_string :: "json \<Rightarrow> string res" where
  "get_string (JStr s) = Inr s"
| "get_string _ = Inl Json_error"

fun get_u16 :: "json_lib \<Rightarrow> json \<Rightarrow> 16 word res" where
  "get_u16 L (JInt i) = Inr (word_of_int i)"
| "get_u16 L (JUInt n) = Inr (word_of_nat n)"
| "get_u16 L (JFloat f) = Inr (float_to_u16 L f)"
| "get_u16 L (JBool b) = Inr (of_bool b)"
| "get_u16 L _ = Inl Json_error"

fun get_i64 :: "json_lib \<Rightarrow> json \<Rightarrow> int res" where
  "get_i64 L (JInt i) = Inr i"
| "get_i64 L (JUInt n) = Inr (sint (word_of_nat n :: 64 word))"
| "get_i64 L (JFloat f) = Inr (float_to_i64 L f)"
| "get_i64 L (JBool b) = Inr (of_bool b)"
| "get_i64 L _ = Inl Json_error"

text \<open>\<open>get<std::vector<std::string>>\<close>: every element must be a string.\<close>

fun strings_of :: "json list \<Rightarrow> string list res" where
  "strings_of [] = Inr []"
| "strings_of (x # xs) = bind_res (get_string x) (\<lambda>s. bind_res (strings_of xs) (\<lambda>r. Inr (s # r)))"

fun get_strings :: "json \<Rightarrow> string list res" where
  "get_strings (JArr xs) = strings_of xs"
| "get_strings _ = Inl Json_error"

text \<open>\<open>j.value(k, d)\<close> with a string default: \<open>j\<close> must be an object, a present value a string.\<close>

definition value_string :: "json \<Rightarrow> string \<Rightarrow> string \<Rightarrow> string res" where
  "value_string j k d =
     (case j of JObj kvs \<Rightarrow> (case map_of kvs k of None \<Rightarrow> Inr d | Some v \<Rightarrow> get_string v)
      | _ \<Rightarrow> Inl Json_error)"

lemma strings_of_strings [simp]: "strings_of (map JStr xs) = Inr xs"
  by (induction xs) auto

lemma strings_of_no_oob [simp]: "strings_of xs \<noteq> Inl Out_of_bounds"
proof (induction xs)
  case (Cons x xs)
  then show ?case by (cases x) auto
qed simp

lemma get_strings_no_oob [simp]: "get_strings j \<noteq> Inl Out_of_bounds"
  by (cases j) auto

lemma value_string_no_oob [simp]: "value_string j k d \<noteq> Inl Out_of_bounds"
  by (auto simp: value_string_def split: json.split option.split elim: get_string.elims)

section \<open>What is relied on in the library\<close>

text \<open>
  Printing and parsing keep a value, except that a non-negative number is always read back as an
  unsigned one. \<open>json_dump\<close> may throw (a string that is not UTF-8).
\<close>

fun canon :: "json \<Rightarrow> json" where
  "canon (JInt i) = (if 0 \<le> i then JUInt (nat i) else JInt i)"
| "canon (JArr xs) = JArr (map canon xs)"
| "canon (JObj kvs) = JObj (map (\<lambda>(k, v). (k, canon v)) kvs)"
| "canon j = j"

definition canon_obj :: "json_obj \<Rightarrow> json_obj" where
  "canon_obj kvs = map (\<lambda>(k, v). (k, canon v)) kvs"

definition dump_parse :: "json_lib \<Rightarrow> bool" where
  "dump_parse L = (\<forall>j s. json_dump L j = Inr s \<longrightarrow> json_parse L s = Inr (canon j))"

lemma map_of_canon [simp]: "map_of (map (\<lambda>(k, v). (k, canon v)) kvs) k = map_option canon (map_of kvs k)"
  by (induction kvs) auto

lemma map_canon_strings [simp]: "map (canon \<circ> JStr) xs = map JStr xs"
  by simp

text \<open>A printer that prints every value.\<close>

definition dumps_all :: "json_lib \<Rightarrow> bool" where
  "dumps_all L = (\<forall>j. \<exists>s. json_dump L j = Inr s)"

end
