(* ===== verification/Node.thy ===== *)
theory Node
  imports Json
begin

text \<open>
  Nodes and endpoints (\<open>include/apr/node.hpp\<close>) with their conversions to and from JSON. An absent
  \<open>std::optional\<close> is \<open>None\<close>; \<open>extra\<close> is always a JSON object and is kept as its members.
\<close>

datatype node_status = St_ok | St_grace | St_erased

fun status_to_string :: "node_status \<Rightarrow> string" where
  "status_to_string St_ok = ''OK''"
| "status_to_string St_grace = ''GRACE''"
| "status_to_string St_erased = ''ERASED''"

definition status_from_string :: "string \<Rightarrow> node_status" where
  "status_from_string s =
     (if s = ''GRACE'' then St_grace else if s = ''ERASED'' then St_erased else St_ok)"

record endpoint_info =
  ep_addr :: string
  ep_port :: "16 word"
  ep_scheme :: string

record node_info =
  n_id :: string
  n_role :: string
  n_workers :: "string list"
  n_endpoint :: "endpoint_info option"
  n_status :: node_status
  n_added_at :: int
  n_active_at :: int
  n_expires_in :: "int option"
  n_extra :: json_obj

definition node_default :: node_info where
  "node_default = \<lparr>n_id = [], n_role = [], n_workers = [], n_endpoint = None, n_status = St_ok,
     n_added_at = 0, n_active_at = 0, n_expires_in = None, n_extra = []\<rparr>"

section \<open>Conversions\<close>

definition endpoint_to_json :: "endpoint_info \<Rightarrow> json" where
  "endpoint_to_json ep = obj_of
     [(''addr'', JStr (ep_addr ep)), (''port'', JUInt (unat (ep_port ep))),
      (''scheme'', JStr (ep_scheme ep))]"

definition endpoint_from_json :: "json_lib \<Rightarrow> json \<Rightarrow> endpoint_info res" where
  "endpoint_from_json L j =
     (let addr = (case jlookup j ''addr'' of Some (JStr s) \<Rightarrow> s | _ \<Rightarrow> []);
          scheme = (case jlookup j ''scheme'' of Some (JStr s) \<Rightarrow> s | _ \<Rightarrow> ''http'');
          port = (case jlookup j ''port'' of
                    None \<Rightarrow> Inr 80
                  | Some v \<Rightarrow>
                      if is_number v then get_u16 L v
                      else case v of JStr s \<Rightarrow> bind_res (stoul s) (\<lambda>n. Inr (word_of_nat n))
                                   | _ \<Rightarrow> Inr 80)
      in bind_res port (\<lambda>p. Inr \<lparr>ep_addr = addr, ep_port = p, ep_scheme = scheme\<rparr>))"

definition node_to_json :: "node_info \<Rightarrow> json" where
  "node_to_json n = obj_of
     [(''id'', JStr (n_id n)), (''role'', JStr (n_role n)),
      (''workers'', JArr (map JStr (n_workers n))),
      (''endpoint'', case n_endpoint n of Some ep \<Rightarrow> endpoint_to_json ep | None \<Rightarrow> JNull),
      (''status'', JStr (status_to_string (n_status n))),
      (''added_at'', JInt (n_added_at n)), (''active_at'', JInt (n_active_at n)),
      (''extra'', JObj (n_extra n)),
      (''expires_in'', case n_expires_in n of Some e \<Rightarrow> JInt e | None \<Rightarrow> JNull)]"

text \<open>Reading a member if it is there and of the right kind, else keeping what the node has.\<close>

definition read_string_member :: "json \<Rightarrow> string \<Rightarrow> string \<Rightarrow> string" where
  "read_string_member j k d = (case jlookup j k of Some (JStr s) \<Rightarrow> s | _ \<Rightarrow> d)"

definition read_i64_member :: "json_lib \<Rightarrow> json \<Rightarrow> string \<Rightarrow> int \<Rightarrow> int res" where
  "read_i64_member L j k d =
     (case jlookup j k of Some v \<Rightarrow> if is_number v then get_i64 L v else Inr d | None \<Rightarrow> Inr d)"

definition node_from_json :: "json_lib \<Rightarrow> json \<Rightarrow> node_info res" where
  "node_from_json L j =
     bind_res (case jlookup j ''workers'' of
         Some v \<Rightarrow> if is_array v then get_strings v else Inr [] | None \<Rightarrow> Inr []) (\<lambda>workers.
     bind_res (case jlookup j ''endpoint'' of
         None \<Rightarrow> Inr None | Some JNull \<Rightarrow> Inr None
       | Some v \<Rightarrow> bind_res (endpoint_from_json L v) (\<lambda>ep. Inr (Some ep))) (\<lambda>ep.
     bind_res (read_i64_member L j ''added_at'' 0) (\<lambda>added.
     bind_res (read_i64_member L j ''active_at'' 0) (\<lambda>active.
     bind_res (case jlookup j ''expires_in'' of
         Some v \<Rightarrow> if is_number v then bind_res (get_i64 L v) (\<lambda>i. Inr (Some i)) else Inr None
       | None \<Rightarrow> Inr None) (\<lambda>expires.
     Inr \<lparr>n_id = read_string_member j ''id'' [],
          n_role = read_string_member j ''role'' [],
          n_workers = workers,
          n_endpoint = ep,
          n_status = (case jlookup j ''status'' of Some (JStr s) \<Rightarrow> status_from_string s | _ \<Rightarrow> St_ok),
          n_added_at = added, n_active_at = active, n_expires_in = expires,
          n_extra = (case jlookup j ''extra'' of Some (JObj kvs) \<Rightarrow> kvs | _ \<Rightarrow> [])\<rparr>)))))"

lemma status_round [simp]: "status_from_string (status_to_string s) = s"
  by (cases s) (simp_all add: status_from_string_def)

lemma endpoint_from_json_no_oob [simp]: "endpoint_from_json L v \<noteq> Inl Out_of_bounds"
  by (auto simp: endpoint_from_json_def Let_def stoul_def elim!: get_u16.elims
      split: option.splits json.splits if_splits list.splits)

section \<open>Round trip\<close>

definition i64_range :: "int \<Rightarrow> bool" where
  "i64_range i = (- (2 ^ 63) \<le> i \<and> i < 2 ^ 63)"

lemma get_i64_canon: "i64_range i \<Longrightarrow> get_i64 L (canon (JInt i)) = Inr i"
  by (auto simp: i64_range_def signed_of_int signed_take_bit_int_eq_self)

lemma is_number_canon [simp]: "is_number (canon (JInt i))"
  by simp

lemma endpoint_round: "endpoint_from_json L (canon (endpoint_to_json ep)) = Inr ep"
  by (simp add: endpoint_from_json_def endpoint_to_json_def obj_of_def jlookup_def Let_def)

lemma jlookup_node:
  fixes n :: node_info
  defines "j \<equiv> canon (node_to_json n)"
  shows "jlookup j ''id'' = Some (JStr (n_id n))" "jlookup j ''role'' = Some (JStr (n_role n))"
    "jlookup j ''workers'' = Some (JArr (map JStr (n_workers n)))"
    "jlookup j ''endpoint'' =
       Some (case n_endpoint n of Some ep \<Rightarrow> canon (endpoint_to_json ep) | None \<Rightarrow> JNull)"
    "jlookup j ''status'' = Some (JStr (status_to_string (n_status n)))"
    "jlookup j ''added_at'' = Some (canon (JInt (n_added_at n)))"
    "jlookup j ''active_at'' = Some (canon (JInt (n_active_at n)))"
    "jlookup j ''extra'' = Some (JObj (canon_obj (n_extra n)))"
    "jlookup j ''expires_in'' =
       Some (case n_expires_in n of Some e \<Rightarrow> canon (JInt e) | None \<Rightarrow> JNull)"
proof -
  have s: "jlookup (canon (obj_of kvs)) k = map_option canon (jlookup (obj_of kvs) k)" for kvs k
    by (simp add: obj_of_def jlookup_def)
  note l = j_def node_to_json_def s
  show "jlookup j ''id'' = Some (JStr (n_id n))" by (simp add: l) (simp add: obj_of_def jlookup_def)
  show "jlookup j ''role'' = Some (JStr (n_role n))" by (simp add: l) (simp add: obj_of_def jlookup_def)
  show "jlookup j ''workers'' = Some (JArr (map JStr (n_workers n)))"
    by (simp add: l) (simp add: obj_of_def jlookup_def)
  show "jlookup j ''endpoint'' =
       Some (case n_endpoint n of Some ep \<Rightarrow> canon (endpoint_to_json ep) | None \<Rightarrow> JNull)"
    by (simp add: l) (simp add: obj_of_def jlookup_def split: option.split)
  show "jlookup j ''status'' = Some (JStr (status_to_string (n_status n)))"
    by (simp add: l) (simp add: obj_of_def jlookup_def)
  show "jlookup j ''added_at'' = Some (canon (JInt (n_added_at n)))"
    by (simp only: l) (simp add: obj_of_def jlookup_def)
  show "jlookup j ''active_at'' = Some (canon (JInt (n_active_at n)))"
    by (simp only: l) (simp add: obj_of_def jlookup_def)
  show "jlookup j ''extra'' = Some (JObj (canon_obj (n_extra n)))"
    by (simp add: l) (simp add: obj_of_def jlookup_def canon_obj_def)
  show "jlookup j ''expires_in'' =
       Some (case n_expires_in n of Some e \<Rightarrow> canon (JInt e) | None \<Rightarrow> JNull)"
    by (simp only: l) (simp add: obj_of_def jlookup_def split: option.split)
qed

lemma canon_endpoint_object: "\<exists>kvs. canon (endpoint_to_json ep) = JObj kvs"
  by (simp add: endpoint_to_json_def obj_of_def)

text \<open>
  A node announcement survives the wire: the JSON text \<open>dump\<close> prints for a node, parsed back
  and converted with \<open>from_json\<close>, is the same node in every field, for every status and optional
  field, provided its three time stamps fit 64 bits (the members of \<open>extra\<close> come back as the
  parser's representation of the same values).
\<close>

theorem node_json_roundtrip:
  assumes "dump_parse L" "json_dump L (node_to_json n) = Inr text"
    and "i64_range (n_added_at n)" "i64_range (n_active_at n)"
    and "\<forall>e. n_expires_in n = Some e \<longrightarrow> i64_range e"
  shows "bind_res (json_parse L text) (node_from_json L) =
    Inr (n\<lparr>n_extra := canon_obj (n_extra n)\<rparr>)"
proof -
  let ?j = "canon (node_to_json n)"
  have p: "json_parse L text = Inr ?j" using assms(1,2) by (simp add: dump_parse_def)
  have t: "read_i64_member L ?j ''added_at'' 0 = Inr (n_added_at n)"
    "read_i64_member L ?j ''active_at'' 0 = Inr (n_active_at n)"
    using assms(3,4) by (simp_all only: read_i64_member_def jlookup_node option.case is_number_canon
        if_True get_i64_canon)
  have e: "(case jlookup ?j ''expires_in'' of
         Some v \<Rightarrow> if is_number v then bind_res (get_i64 L v) (\<lambda>i. Inr (Some i)) else Inr None
       | None \<Rightarrow> Inr None) = Inr (n_expires_in n)"
    using assms(5) by (cases "n_expires_in n")
      (simp_all only: jlookup_node option.case is_number_canon if_True get_i64_canon bind_res.simps
        is_number.simps if_False)
  have ep: "(case jlookup ?j ''endpoint'' of
         None \<Rightarrow> Inr None | Some JNull \<Rightarrow> Inr None
       | Some v \<Rightarrow> bind_res (endpoint_from_json L v) (\<lambda>ep. Inr (Some ep))) = Inr (n_endpoint n)"
  proof (cases "n_endpoint n")
    case None
    then show ?thesis by (simp add: jlookup_node)
  next
    case (Some ep)
    obtain kvs where "canon (endpoint_to_json ep) = JObj kvs" using canon_endpoint_object by blast
    then show ?thesis using Some endpoint_round [of L ep] by (simp add: jlookup_node)
  qed
  show ?thesis unfolding p
    by (simp only: bind_res.simps node_from_json_def t e ep)
      (simp add: jlookup_node read_string_member_def)
qed

text \<open>A printer that knows one value, and the parser that reads its text back.\<close>

definition one_value_lib :: "json \<Rightarrow> json_lib" where
  "one_value_lib j0 = \<lparr>json_parse = (\<lambda>s. if s = ''node'' then Inr (canon j0) else Inl Json_error),
     json_dump = (\<lambda>j. if j = j0 then Inr ''node'' else Inl Json_error),
     float_to_u16 = (\<lambda>f. 0), float_to_i64 = (\<lambda>f. 0), float_to_u64 = (\<lambda>f. 0)\<rparr>"

lemma dump_parse_one_value: "dump_parse (one_value_lib j)"
  by (simp add: dump_parse_def one_value_lib_def)

definition sample_node :: node_info where
  "sample_node = \<lparr>n_id = ''node-1-1'', n_role = ''api'', n_workers = [''w''],
     n_endpoint = Some \<lparr>ep_addr = ''10.0.0.1'', ep_port = 8080, ep_scheme = ''http''\<rparr>,
     n_status = St_grace, n_added_at = 1700000000, n_active_at = 1700000100,
     n_expires_in = Some 180, n_extra = [(''w'', JObj [(''load'', JUInt 3)])]\<rparr>"

theorem node_json_roundtrip_witness:
  "bind_res (json_parse (one_value_lib (node_to_json sample_node)) ''node'')
      (node_from_json (one_value_lib (node_to_json sample_node)))
    = Inr (sample_node\<lparr>n_extra := canon_obj (n_extra sample_node)\<rparr>)"
  by (rule node_json_roundtrip [OF dump_parse_one_value])
    (simp_all add: one_value_lib_def sample_node_def i64_range_def)

end
