(* ===== verification/MemoryTracker.thy ===== *)
theory MemoryTracker
  imports Prelude
begin

text \<open>
  The memory tracker (\<open>include/apr/memory_tracker.hpp\<close>, \<open>src/core/memory_tracker.cpp\<close>): seven
  atomic 64-bit signed counters, kept as 64-bit words because their additions wrap, and the report
  in kilobytes. The resident-set size of the process is read from the operating system and is an
  argument of the report.
\<close>

record memory_tracker =
  registry_bytes :: "64 word"
  mqtt_rx_bytes :: "64 word"
  mqtt_tx_bytes :: "64 word"
  http_rx_bytes :: "64 word"
  http_tx_bytes :: "64 word"
  other_bytes :: "64 word"
  extra_bytes :: "64 word"

definition tracker_init :: memory_tracker where
  "tracker_init = \<lparr>registry_bytes = 0, mqtt_rx_bytes = 0, mqtt_tx_bytes = 0, http_rx_bytes = 0,
     http_tx_bytes = 0, other_bytes = 0, extra_bytes = 0\<rparr>"

definition add_registry_bytes :: "int \<Rightarrow> memory_tracker \<Rightarrow> memory_tracker" where
  "add_registry_bytes n t = t\<lparr>registry_bytes := registry_bytes t + word_of_int n\<rparr>"

definition add_mqtt_rx_bytes :: "int \<Rightarrow> memory_tracker \<Rightarrow> memory_tracker" where
  "add_mqtt_rx_bytes n t = t\<lparr>mqtt_rx_bytes := mqtt_rx_bytes t + word_of_int n\<rparr>"

definition add_mqtt_tx_bytes :: "int \<Rightarrow> memory_tracker \<Rightarrow> memory_tracker" where
  "add_mqtt_tx_bytes n t = t\<lparr>mqtt_tx_bytes := mqtt_tx_bytes t + word_of_int n\<rparr>"

definition add_http_rx_bytes :: "int \<Rightarrow> memory_tracker \<Rightarrow> memory_tracker" where
  "add_http_rx_bytes n t = t\<lparr>http_rx_bytes := http_rx_bytes t + word_of_int n\<rparr>"

definition add_http_tx_bytes :: "int \<Rightarrow> memory_tracker \<Rightarrow> memory_tracker" where
  "add_http_tx_bytes n t = t\<lparr>http_tx_bytes := http_tx_bytes t + word_of_int n\<rparr>"

definition add_other_bytes :: "int \<Rightarrow> memory_tracker \<Rightarrow> memory_tracker" where
  "add_other_bytes n t = t\<lparr>other_bytes := other_bytes t + word_of_int n\<rparr>"

definition add_extra_bytes :: "int \<Rightarrow> memory_tracker \<Rightarrow> memory_tracker" where
  "add_extra_bytes n t = t\<lparr>extra_bytes := extra_bytes t + word_of_int n\<rparr>"

text \<open>\<open>static_cast<uint64_t>(std::max<int64_t>(0, bytes.load() / 1024))\<close>, division towards zero.\<close>

definition gauge_kb :: "64 word \<Rightarrow> 64 word" where
  "gauge_kb b = word_of_int (max 0 (sgn (sint b) * (\<bar>sint b\<bar> div 1024)))"

record memory_stats =
  total_kb :: "64 word"
  registry_kb :: "64 word"
  mqtt_rx_kb :: "64 word"
  mqtt_tx_kb :: "64 word"
  http_rx_kb :: "64 word"
  http_tx_kb :: "64 word"
  other_kb :: "64 word"
  extra_kb :: "64 word"

definition tracker_stats :: "64 word \<Rightarrow> memory_tracker \<Rightarrow> memory_stats" where
  "tracker_stats rss t =
     \<lparr>total_kb = rss,
      registry_kb = gauge_kb (registry_bytes t),
      mqtt_rx_kb = gauge_kb (mqtt_rx_bytes t),
      mqtt_tx_kb = gauge_kb (mqtt_tx_bytes t),
      http_rx_kb = gauge_kb (http_rx_bytes t),
      http_tx_kb = gauge_kb (http_tx_bytes t),
      other_kb = gauge_kb (other_bytes t),
      extra_kb = gauge_kb (extra_bytes t)\<rparr>"

text \<open>A gauge that holds a real amount is reported as that amount, rounded down to kilobytes.\<close>

lemma sint_of_small: "n < 2 ^ 63 \<Longrightarrow> sint (word_of_int (int n) :: 64 word) = int n"
  by (simp add: signed_of_nat signed_take_bit_int_eq_self)

lemma gauge_kb_amount: "n < 2 ^ 63 \<Longrightarrow> unat (gauge_kb (word_of_int (int n))) = n div 1024"
proof -
  assume n: "n < 2 ^ 63"
  have "gauge_kb (word_of_int (int n)) = word_of_int (int (n div 1024))"
    unfolding gauge_kb_def sint_of_small [OF n] by (cases "n = 0") (auto simp: zdiv_int)
  also have "\<dots> = word_of_nat (n div 1024)" by simp
  finally show ?thesis using n by (simp add: unat_of_nat)
qed

lemma gauge_kb_negative: "sint b \<le> 0 \<Longrightarrow> gauge_kb b = 0"
  by (cases "sint b = 0") (auto simp: gauge_kb_def max_def mult_le_0_iff pos_imp_zdiv_nonneg_iff)

end
