(* ===== verification/RoundRobin.thy ===== *)
theory RoundRobin
  imports Prelude
begin

text \<open>
  Round-robin selection. The registry (\<open>registry::resolve_node\<close>) and the client library
  (\<open>apr_client::impl::resolve_node\<close>) keep, per key, the index of the next candidate. The locale
  states the contract of one selection and derives fairness for any sequence of them; both
  implementations interpret it.
\<close>

text \<open>Selecting \<open>m\<close> times under one key from the same candidates.\<close>

fun pick_times :: "('k \<Rightarrow> 'a list \<Rightarrow> 's \<Rightarrow> 'a option \<times> 's) \<Rightarrow> 'k \<Rightarrow> 'a list \<Rightarrow> nat \<Rightarrow> 's \<Rightarrow>
    'a option list \<times> 's" where
  "pick_times pick k cs 0 s = ([], s)"
| "pick_times pick k cs (Suc m) s =
     (let (x, s1) = pick k cs s; (xs, s2) = pick_times pick k cs m s1 in (x # xs, s2))"

locale round_robin =
  fixes pick :: "'k \<Rightarrow> 'a list \<Rightarrow> 's \<Rightarrow> 'a option \<times> 's"
    and cursor :: "'s \<Rightarrow> 'k \<Rightarrow> nat"
  assumes pick_empty: "fst (pick k [] s) = None"
    and pick_at: "cs \<noteq> [] \<Longrightarrow> fst (pick k cs s) = Some (cs ! (cursor s k mod length cs))"
    and cursor_next: "cs \<noteq> [] \<Longrightarrow>
        cursor (snd (pick k cs s)) k = (cursor s k mod length cs + 1) mod length cs"
    and cursor_other: "k' \<noteq> k \<Longrightarrow> cursor (snd (pick k cs s)) k' = cursor s k'"
begin

lemma pick_member: "fst (pick k cs s) = Some x \<Longrightarrow> x \<in> set cs"
  by (cases "cs = []") (auto simp: pick_empty pick_at)

lemma pick_available: "cs \<noteq> [] \<Longrightarrow> \<exists>x \<in> set cs. fst (pick k cs s) = Some x"
  by (simp add: pick_at)

lemma pick_times_nth:
  assumes "cs \<noteq> []"
  shows "fst (pick_times pick k cs m s) =
    map (\<lambda>i. Some (cs ! ((cursor s k + i) mod length cs))) [0..<m]"
proof (induction m arbitrary: s)
  case (Suc m)
  let ?n = "length cs"
  have "(cursor (snd (pick k cs s)) k + i) mod ?n = (cursor s k + Suc i) mod ?n" for i
    unfolding cursor_next [OF assms] by (simp add: mod_simps)
  then have "fst (pick_times pick k cs m (snd (pick k cs s))) =
      map (\<lambda>i. Some (cs ! ((cursor s k + Suc i) mod ?n))) [0..<m]"
    by (simp add: Suc.IH)
  also have "\<dots> = map (\<lambda>i. Some (cs ! ((cursor s k + i) mod ?n))) (map Suc [0..<m])"
    by simp
  finally show ?case
    using pick_at [OF assms, of k s]
    by (simp add: split_beta Let_def map_Suc_upt upt_rec [of 0 "Suc m"] del: map_map upt_Suc)
qed simp

lemma rotation:
  "map (\<lambda>i. cs ! ((c + i) mod length cs)) [0..<length cs] = rotate c cs"
  by (rule nth_equalityI) (simp_all add: nth_rotate)

text \<open>One full round serves every candidate once: the selections are a rotation of the candidates.\<close>

lemma full_round:
  "cs \<noteq> [] \<Longrightarrow> fst (pick_times pick k cs (length cs) s) = map Some (rotate (cursor s k) cs)"
  by (simp add: pick_times_nth flip: rotation)

lemma cursor_times_other:
  "k' \<noteq> k \<Longrightarrow> cursor (snd (pick_times pick k cs m s)) k' = cursor s k'"
  by (induction m arbitrary: s) (simp_all add: split_beta Let_def cursor_other)

end

section \<open>The selection both components implement\<close>

text \<open>
  \<open>idx = rr_indices_[key] % candidates.size(); rr_indices_[key] = (idx + 1) % candidates.size();\<close>
  where a missing key reads as 0, after the early return for no candidates.
\<close>

type_synonym rr_indices = "string \<rightharpoonup> nat"

definition rr_cursor :: "rr_indices \<Rightarrow> string \<Rightarrow> nat" where
  "rr_cursor m k = (case m k of None \<Rightarrow> 0 | Some i \<Rightarrow> i)"

definition rr_pick :: "string \<Rightarrow> 'a list \<Rightarrow> rr_indices \<Rightarrow> 'a option \<times> rr_indices" where
  "rr_pick key cs m =
     (if cs = [] then (None, m)
      else let idx = rr_cursor m key mod length cs
           in (Some (cs ! idx), m(key \<mapsto> (idx + 1) mod length cs)))"

interpretation rr: round_robin rr_pick rr_cursor
  by unfold_locales (auto simp: rr_pick_def rr_cursor_def Let_def)

end
