(* ===== verification/Registry.thy ===== *)
theory Registry
  imports Node MemoryTracker RoundRobin
begin

text \<open>
  The node registry (\<open>include/apr/registry.hpp\<close>, \<open>src/core/registry.cpp\<close>).

  The state holds the nodes by id, the round-robin indices, the subscribed callbacks with their
  tokens, the two counters, and the process-wide memory tracker its operations update. Each
  operation runs under the registry's mutex, so it is one atomic function of the state; what it does
  after unlocking (calling the observers with a snapshot of the node) is returned as a
  \<open>notification\<close>: the callbacks in order and the node. The clock is an argument. The order in which
  the hash map is iterated is the argument \<open>iter\<close> of the queries. \<open>sizeof(node_info)\<close> is an argument
  of the operations that account for it. The two 64-bit counters only ever increment from 1 and are
  natural numbers.
\<close>

section \<open>State\<close>

record 'cb registry =
  r_nodes :: "(string \<times> node_info) list"
  r_rr :: rr_indices
  r_cbs :: "(nat \<times> 'cb) list"
  r_cb_counter :: nat
  r_id_counter :: nat
  r_max_extra :: nat
  r_mem :: memory_tracker

type_synonym 'cb notification = "'cb list \<times> node_info"

definition registry_init :: "nat \<Rightarrow> 'cb registry" where
  "registry_init max_extra = \<lparr>r_nodes = [], r_rr = (\<lambda>_. None), r_cbs = [], r_cb_counter = 1,
     r_id_counter = 1, r_max_extra = max_extra, r_mem = tracker_init\<rparr>"

definition find_node :: "'cb registry \<Rightarrow> string \<Rightarrow> node_info option" where
  "find_node r nid = map_of (r_nodes r) nid"

definition put_node :: "string \<Rightarrow> node_info \<Rightarrow> 'cb registry \<Rightarrow> 'cb registry" where
  "put_node nid n r = r\<lparr>r_nodes := AList.update nid n (r_nodes r)\<rparr>"

section \<open>Observers\<close>

definition add_event_callback :: "'cb \<Rightarrow> 'cb registry \<Rightarrow> nat \<times> 'cb registry" where
  "add_event_callback cb r =
     (r_cb_counter r, r\<lparr>r_cb_counter := r_cb_counter r + 1, r_cbs := r_cbs r @ [(r_cb_counter r, cb)]\<rparr>)"

definition remove_event_callback :: "nat \<Rightarrow> 'cb registry \<Rightarrow> 'cb registry" where
  "remove_event_callback token r = r\<lparr>r_cbs := filter (\<lambda>e. fst e \<noteq> token) (r_cbs r)\<rparr>"

definition snapshot_callbacks :: "'cb registry \<Rightarrow> 'cb list" where
  "snapshot_callbacks r = map snd (r_cbs r)"

section \<open>Worker announcements\<close>

text \<open>
  \<open>try_set_extra_locked\<close> on a node and the tracker. \<open>dump\<close> may throw, before anything changed.
\<close>

definition try_set_extra ::
    "json_lib \<Rightarrow> nat \<Rightarrow> string \<Rightarrow> json \<Rightarrow> node_info \<times> memory_tracker \<Rightarrow> (bool \<times> node_info \<times> memory_tracker) res"
where
  "try_set_extra L max_extra worker v nm =
     (let (node, mem) = nm in
      if worker \<notin> set (n_workers node) then Inr (False, node, mem)
      else bind_res (json_dump L v) (\<lambda>ser.
        if length ser > max_extra then Inr (False, node, mem)
        else bind_res (case map_of (n_extra node) worker of
              Some old \<Rightarrow> bind_res (json_dump L old) (\<lambda>s. Inr (int (length s)))
            | None \<Rightarrow> Inr 0) (\<lambda>old_size.
          Inr (True, node\<lparr>n_extra := obj_set worker v (n_extra node)\<rparr>,
               add_extra_bytes (int (length ser) - old_size) mem))))"

text \<open>
  The loop over the stale keys of \<open>prune_stale_extra_locked\<close>: an exception leaves it with the node
  and tracker as they are then.
\<close>

fun prune_keys ::
    "json_lib \<Rightarrow> string list \<Rightarrow> node_info \<times> memory_tracker \<Rightarrow> fault option \<times> node_info \<times> memory_tracker"
where
  "prune_keys L [] nm = (None, nm)"
| "prune_keys L (key # keys) (node, mem) =
     (case json_dump L (case map_of (n_extra node) key of Some v \<Rightarrow> v | None \<Rightarrow> JNull) of
        Inl e \<Rightarrow> (Some e, node, mem)
      | Inr s \<Rightarrow> prune_keys L keys (node\<lparr>n_extra := obj_erase key (n_extra node)\<rparr>,
                                  add_extra_bytes (- int (length s)) mem))"

definition stale_keys :: "node_info \<Rightarrow> string list" where
  "stale_keys node = filter (\<lambda>k. k \<notin> set (n_workers node)) (map fst (n_extra node))"

definition prune_stale_extra ::
    "json_lib \<Rightarrow> node_info \<times> memory_tracker \<Rightarrow> fault option \<times> node_info \<times> memory_tracker" where
  "prune_stale_extra L nm = prune_keys L (stale_keys (fst nm)) nm"

text \<open>
  The loop of \<open>register_or_update_node\<close> over the announced extras: the node and tracker as they are
  when the loop ends or an exception leaves it, and that exception.
\<close>

fun set_extras ::
    "json_lib \<Rightarrow> nat \<Rightarrow> json_obj \<Rightarrow> node_info \<times> memory_tracker \<Rightarrow>
      fault option \<times> node_info \<times> memory_tracker" where
  "set_extras L max_extra [] nm = (None, nm)"
| "set_extras L max_extra ((k, v) # kvs) nm =
     (case try_set_extra L max_extra k v nm of
        Inl e \<Rightarrow> (Some e, nm)
      | Inr (b, nm') \<Rightarrow> set_extras L max_extra kvs nm')"

section \<open>Registration\<close>

text \<open>The id printed by \<open>generate_node_id\<close>: \<open>node-<unix time>-<counter>\<close>.\<close>

definition node_id_string :: "int \<Rightarrow> nat \<Rightarrow> string" where
  "node_id_string t c = ''node-'' @ int_to_string t @ ''-'' @ nat_to_string c"

definition generate_node_id :: "int \<Rightarrow> 'cb registry \<Rightarrow> string \<times> 'cb registry" where
  "generate_node_id t r = (node_id_string t (r_id_counter r), r\<lparr>r_id_counter := r_id_counter r + 1\<rparr>)"

definition final_endpoint :: "endpoint_info option \<Rightarrow> string \<Rightarrow> endpoint_info option" where
  "final_endpoint ep peer_ip =
     (case ep of Some e \<Rightarrow> Some (if ep_addr e = [] then e\<lparr>ep_addr := peer_ip\<rparr> else e) | None \<Rightarrow> None)"

text \<open>
  The existing branch resets the node before pruning; if \<open>dump\<close> throws while pruning, the
  exception leaves the function there. \<open>t_id\<close> is the time \<open>generate_node_id\<close> reads, \<open>now\<close> the other
  reading. \<open>extra\<close> is the whole JSON value, ignored unless it is an object.
\<close>

definition register_or_update_node ::
    "json_lib \<Rightarrow> nat \<Rightarrow> int \<Rightarrow> int \<Rightarrow> string \<Rightarrow> string list \<Rightarrow> endpoint_info option \<Rightarrow> string \<Rightarrow> string \<Rightarrow>
      json \<Rightarrow> 'cb registry \<Rightarrow> node_info res \<times> 'cb notification option \<times> 'cb registry" where
  "register_or_update_node L node_size now t_id role workers ep peer_ip existing_id extra r =
     (let (node_id, r) = (if existing_id = [] then generate_node_id t_id r else (existing_id, r));
          final_ep = final_endpoint ep peer_ip;
          (exn, node, mem) =
            (case find_node r node_id of
               Some n \<Rightarrow>
                 let n = n\<lparr>n_role := role, n_workers := workers, n_endpoint := final_ep,
                           n_status := St_ok, n_active_at := now, n_expires_in := None\<rparr>
                 in prune_stale_extra L (n, r_mem r)
             | None \<Rightarrow>
                 (None,
                  \<lparr>n_id = node_id, n_role = role, n_workers = workers, n_endpoint = final_ep,
                   n_status = St_ok, n_added_at = now, n_active_at = now, n_expires_in = None,
                   n_extra = []\<rparr>,
                  add_registry_bytes (int (node_size + length role + length node_id)) (r_mem r)));
          (exn, node, mem) =
            (case (exn, extra) of
               (None, JObj kvs) \<Rightarrow> set_extras L (r_max_extra r) kvs (node, mem)
             | _ \<Rightarrow> (exn, node, mem));
          r = put_node node_id node (r\<lparr>r_mem := mem\<rparr>)
      in case exn of
           Some e \<Rightarrow> (Inl e, None, r)
         | None \<Rightarrow> (Inr node, Some (snapshot_callbacks r, node), r))"

section \<open>Status changes and removal\<close>

definition mark_node_grace :: "int \<Rightarrow> string \<Rightarrow> 'cb registry \<Rightarrow> bool \<times> 'cb notification option \<times> 'cb registry"
where
  "mark_node_grace now node_id r =
     (case find_node r node_id of
        None \<Rightarrow> (False, None, r)
      | Some n \<Rightarrow>
          let n = n\<lparr>n_status := St_grace, n_active_at := now, n_expires_in := Some 180\<rparr>
          in (True, Some (snapshot_callbacks r, n), put_node node_id n r))"

definition restore_node_active ::
    "int \<Rightarrow> string \<Rightarrow> 'cb registry \<Rightarrow> bool \<times> 'cb notification option \<times> 'cb registry" where
  "restore_node_active now node_id r =
     (case find_node r node_id of
        None \<Rightarrow> (False, None, r)
      | Some n \<Rightarrow>
          let n = n\<lparr>n_status := St_ok, n_active_at := now, n_expires_in := None\<rparr>
          in (True, Some (snapshot_callbacks r, n), put_node node_id n r))"

definition update_node_extra ::
    "json_lib \<Rightarrow> int \<Rightarrow> string \<Rightarrow> string \<Rightarrow> json \<Rightarrow> 'cb registry \<Rightarrow>
      bool res \<times> 'cb notification option \<times> 'cb registry" where
  "update_node_extra L now node_id worker extra r =
     (case find_node r node_id of
        None \<Rightarrow> (Inr False, None, r)
      | Some n \<Rightarrow>
          (case try_set_extra L (r_max_extra r) worker extra (n, r_mem r) of
             Inl e \<Rightarrow> (Inl e, None, r)
           | Inr (False, _) \<Rightarrow> (Inr False, None, r)
           | Inr (True, n', mem) \<Rightarrow>
               let n' = n'\<lparr>n_active_at := now\<rparr>
               in (Inr True, Some (snapshot_callbacks r, n'), put_node node_id n' (r\<lparr>r_mem := mem\<rparr>))))"

text \<open>The loop that releases the bytes of the erased node's extras.\<close>

fun release_extras :: "json_lib \<Rightarrow> json_obj \<Rightarrow> memory_tracker \<Rightarrow> fault option \<times> memory_tracker" where
  "release_extras L [] mem = (None, mem)"
| "release_extras L ((k, v) # kvs) mem =
     (case json_dump L v of
        Inl e \<Rightarrow> (Some e, mem)
      | Inr s \<Rightarrow> release_extras L kvs (add_extra_bytes (- int (length s)) mem))"

definition remove_node_permanently ::
    "json_lib \<Rightarrow> nat \<Rightarrow> string \<Rightarrow> 'cb registry \<Rightarrow> bool res \<times> 'cb notification option \<times> 'cb registry" where
  "remove_node_permanently L node_size node_id r =
     (case find_node r node_id of
        None \<Rightarrow> (Inr False, None, r)
      | Some n \<Rightarrow>
          let erased = n\<lparr>n_status := St_erased, n_expires_in := Some 0\<rparr>;
              mem = add_registry_bytes (- int (node_size + length (n_role erased) + length (n_id erased)))
                      (r_mem r);
              (exn, mem) = release_extras L (n_extra erased) mem;
              r = r\<lparr>r_nodes := AList.delete node_id (r_nodes r), r_mem := mem\<rparr>
          in case exn of
               Some e \<Rightarrow> (Inl e, None, r)
             | None \<Rightarrow> (Inr True, Some (snapshot_callbacks r, erased), r))"

section \<open>Expiry\<close>

text \<open>
  \<open>sweep_expired_nodes\<close> collects the expired ids under a shared lock, releases it, and then removes
  them one by one; other operations may run in between.
\<close>

definition sweep_collect :: "int \<Rightarrow> ((string \<times> node_info) list \<Rightarrow> (string \<times> node_info) list) \<Rightarrow>
    'cb registry \<Rightarrow> string list" where
  "sweep_collect now iter r =
     map fst (filter (\<lambda>(nid, n). n_status n = St_grace \<and> now - n_active_at n \<ge> 180) (iter (r_nodes r)))"

fun sweep_remove :: "json_lib \<Rightarrow> nat \<Rightarrow> string list \<Rightarrow> 'cb registry \<Rightarrow>
    fault option \<times> 'cb notification list \<times> 'cb registry" where
  "sweep_remove L node_size [] r = (None, [], r)"
| "sweep_remove L node_size (nid # nids) r =
     (case remove_node_permanently L node_size nid r of
        (Inl e, _, r1) \<Rightarrow> (Some e, [], r1)
      | (Inr b, ev, r1) \<Rightarrow>
          let (exn, evs, r2) = sweep_remove L node_size nids r1
          in (exn, (case ev of Some x \<Rightarrow> x # evs | None \<Rightarrow> evs), r2))"

definition sweep_expired_nodes :: "json_lib \<Rightarrow> nat \<Rightarrow> int \<Rightarrow>
    ((string \<times> node_info) list \<Rightarrow> (string \<times> node_info) list) \<Rightarrow> 'cb registry \<Rightarrow>
    fault option \<times> 'cb notification list \<times> 'cb registry" where
  "sweep_expired_nodes L node_size now iter r = sweep_remove L node_size (sweep_collect now iter r) r"

section \<open>Queries\<close>

definition remaining_grace :: "int \<Rightarrow> node_info \<Rightarrow> int" where
  "remaining_grace now n =
     (let remaining = 180 - (now - n_active_at n) in if remaining > 0 then remaining else 0)"

definition get_node :: "int \<Rightarrow> string \<Rightarrow> 'cb registry \<Rightarrow> node_info option" where
  "get_node now node_id r =
     (case find_node r node_id of
        None \<Rightarrow> None
      | Some n \<Rightarrow> Some (if n_status n = St_grace \<and> n_expires_in n \<noteq> None
                        then n\<lparr>n_expires_in := Some (remaining_grace now n)\<rparr> else n))"

record registry_stats =
  total_nodes :: nat
  alive_nodes :: nat
  grace_nodes :: nat
  stat_roles :: "(string \<times> nat) list"
  stat_workers :: "(string \<times> nat) list"

definition bump :: "string \<Rightarrow> (string \<times> nat) list \<Rightarrow> (string \<times> nat) list" where
  "bump k m = AList.update k ((case map_of m k of None \<Rightarrow> 0 | Some c \<Rightarrow> c) + 1) m"

definition stats_node :: "string \<times> node_info \<Rightarrow> registry_stats \<Rightarrow> registry_stats" where
  "stats_node kn s =
     (let n = snd kn;
          s1 = (if n_status n = St_ok then s\<lparr>alive_nodes := alive_nodes s + 1\<rparr>
                else if n_status n = St_grace then s\<lparr>grace_nodes := grace_nodes s + 1\<rparr> else s)
      in s1\<lparr>stat_roles := bump (n_role n) (stat_roles s1),
            stat_workers := fold bump (n_workers n) (stat_workers s1)\<rparr>)"

definition get_stats :: "((string \<times> node_info) list \<Rightarrow> (string \<times> node_info) list) \<Rightarrow> 'cb registry \<Rightarrow>
    registry_stats" where
  "get_stats iter r =
     fold stats_node (iter (r_nodes r))
       \<lparr>total_nodes = length (r_nodes r), alive_nodes = 0, grace_nodes = 0, stat_roles = [],
        stat_workers = []\<rparr>"

definition matches_filter :: "string \<Rightarrow> string \<Rightarrow> node_info \<Rightarrow> bool" where
  "matches_filter role_filter worker_filter n =
     (n_status n \<noteq> St_erased \<and> (role_filter = [] \<or> n_role n = role_filter) \<and>
      (worker_filter = [] \<or> worker_filter \<in> set (n_workers n)))"

definition query_matched :: "int \<Rightarrow> ((string \<times> node_info) list \<Rightarrow> (string \<times> node_info) list) \<Rightarrow> string \<Rightarrow>
    string \<Rightarrow> 'cb registry \<Rightarrow> node_info list" where
  "query_matched now iter role_filter worker_filter r =
     map (\<lambda>n. if n_status n = St_grace then n\<lparr>n_expires_in := Some (remaining_grace now n)\<rparr> else n)
       (filter (matches_filter role_filter worker_filter) (map snd (iter (r_nodes r))))"

text \<open>
  The page of the matches. The index arithmetic is 64-bit and wraps; a range whose end precedes its
  start is not a range of the vector.
\<close>

definition page_of :: "nat \<Rightarrow> nat \<Rightarrow> 'a list \<Rightarrow> (nat \<times> 'a list) res" where
  "page_of page cnt matched =
     (let total = length matched;
          page = (if page < 1 then 1 else page);
          start_idx = wrap64 ((page - 1) * cnt)
      in if start_idx \<ge> total then Inr (total, [])
         else let end_idx = min (wrap64 (start_idx + cnt)) total
              in if end_idx < start_idx then Inl Out_of_bounds
                 else Inr (total, take (end_idx - start_idx) (drop start_idx matched)))"

definition query_registry :: "int \<Rightarrow> ((string \<times> node_info) list \<Rightarrow> (string \<times> node_info) list) \<Rightarrow> nat \<Rightarrow> nat \<Rightarrow>
    string \<Rightarrow> string \<Rightarrow> 'cb registry \<Rightarrow> (nat \<times> node_info list) res" where
  "query_registry now iter page cnt role_filter worker_filter r =
     page_of page cnt (query_matched now iter role_filter worker_filter r)"

definition candidates :: "string \<Rightarrow> string \<Rightarrow> (string \<times> node_info) list \<Rightarrow> node_info list" where
  "candidates role worker kns =
     filter (\<lambda>n. n_status n = St_ok \<and> n_role n = role \<and> (worker = [] \<or> worker \<in> set (n_workers n)))
       (map snd kns)"

definition resolve_node :: "((string \<times> node_info) list \<Rightarrow> (string \<times> node_info) list) \<Rightarrow> string \<Rightarrow> string \<Rightarrow>
    'cb registry \<Rightarrow> node_info option \<times> 'cb registry" where
  "resolve_node iter role worker r =
     (let (res, rr) = rr_pick (role @ '':'' @ worker) (candidates role worker (iter (r_nodes r))) (r_rr r)
      in (res, r\<lparr>r_rr := rr\<rparr>))"

end
