(* ===== verification/RegistryInv.thy ===== *)
theory RegistryInv
  imports Registry
begin

text \<open>
  The registry's invariant and the laws of its operations. The invariant says: ids are unique and
  were issued by this registry; a node's extras are an ordered object whose keys are workers of the
  node and whose values print within \<open>max_node_extra_bytes\<close>; a node is OK without an expiry or in
  grace with the 180-second mark; and the tracker's \<open>extra\<close> gauge is the printed size of all extras.
\<close>

section \<open>Accounting for extras\<close>

definition dump_size :: "json_lib \<Rightarrow> json \<Rightarrow> int" where
  "dump_size L v = (case json_dump L v of Inr s \<Rightarrow> int (length s) | Inl e \<Rightarrow> 0)"

definition extra_total :: "json_lib \<Rightarrow> json_obj \<Rightarrow> int" where
  "extra_total L kvs = (\<Sum>kv\<leftarrow>kvs. dump_size L (snd kv))"

definition dumpable :: "json_lib \<Rightarrow> nat \<Rightarrow> json_obj \<Rightarrow> bool" where
  "dumpable L m kvs = (obj_ok kvs \<and> (\<forall>(k, v) \<in> set kvs. \<exists>s. json_dump L v = Inr s \<and> length s \<le> m))"

lemma dump_size_Inr [simp]: "json_dump L v = Inr s \<Longrightarrow> dump_size L v = int (length s)"
  by (simp add: dump_size_def)

lemma extra_total_Nil [simp]: "extra_total L [] = 0"
  by (simp add: extra_total_def)

lemma dumpable_Nil [simp]: "dumpable L m []"
  by (simp add: dumpable_def obj_ok_def)

lemma extra_total_set:
  "obj_ok kvs \<Longrightarrow> extra_total L (obj_set k v kvs) =
     extra_total L kvs + dump_size L v -
       (case map_of kvs k of None \<Rightarrow> 0 | Some old \<Rightarrow> dump_size L old)"
proof (induction k v kvs rule: obj_set.induct)
  case (2 k v k' v' r)
  have "k < k' \<Longrightarrow> map_of r k = None"
    using 2(2) by (auto simp: obj_ok_def map_of_eq_None_iff)
  with 2 show ?case by (auto simp: extra_total_def obj_ok_def)
qed (simp add: extra_total_def)

lemma obj_erase_delete: "obj_erase k kvs = AList.delete k kvs"
  by (induction kvs) (auto simp: obj_erase_def AList.delete_eq)

lemma extra_total_erase:
  "obj_ok kvs \<Longrightarrow> extra_total L (obj_erase k kvs) =
     extra_total L kvs - (case map_of kvs k of None \<Rightarrow> 0 | Some old \<Rightarrow> dump_size L old)"
  unfolding extra_total_def obj_erase_delete by (rule sum_delete) (rule obj_ok_distinct)

lemma dumpable_lookup:
  "dumpable L m kvs \<Longrightarrow> map_of kvs k = Some v \<Longrightarrow> \<exists>s. json_dump L v = Inr s \<and> length s \<le> m"
  unfolding dumpable_def using map_of_SomeD by fastforce

lemma set_obj_set:
  "kv \<in> set (obj_set k v kvs) \<Longrightarrow> kv = (k, v) \<or> kv \<in> set kvs"
  by (induction k v kvs rule: obj_set.induct) (auto split: if_splits)

lemma dumpable_set:
  "dumpable L m kvs \<Longrightarrow> json_dump L v = Inr s \<Longrightarrow> length s \<le> m \<Longrightarrow> dumpable L m (obj_set k v kvs)"
  unfolding dumpable_def using set_obj_set by (fastforce intro: obj_ok_set)

lemma dumpable_erase: "dumpable L m kvs \<Longrightarrow> dumpable L m (obj_erase k kvs)"
  unfolding dumpable_def by (auto simp: obj_erase_def intro: obj_ok_erase [unfolded obj_erase_def])

text \<open>
  Two states of a node and the tracker that differ in the node's extras only, with the difference
  booked.
\<close>

definition booked :: "json_lib \<Rightarrow> node_info \<times> memory_tracker \<Rightarrow> node_info \<times> memory_tracker \<Rightarrow> bool" where
  "booked L nm nm' =
     (\<exists>x. nm' = ((fst nm)\<lparr>n_extra := x\<rparr>,
        add_extra_bytes (extra_total L x - extra_total L (n_extra (fst nm))) (snd nm)))"

lemma add_extra_bytes_0 [simp]: "add_extra_bytes 0 t = t"
  by (simp add: add_extra_bytes_def)

lemma add_extra_bytes_add: "add_extra_bytes a (add_extra_bytes b t) = add_extra_bytes (b + a) t"
  by (simp add: add_extra_bytes_def)

lemma booked_refl [simp]: "booked L nm nm"
  unfolding booked_def by (rule exI [of _ "n_extra (fst nm)"]) simp

lemma booked_trans: "booked L a b \<Longrightarrow> booked L b c \<Longrightarrow> booked L a c"
  by (auto simp: booked_def add_extra_bytes_add)

lemma bookedI:
  "d = extra_total L x - extra_total L (n_extra n) \<Longrightarrow>
    booked L (n, t) (n\<lparr>n_extra := x\<rparr>, add_extra_bytes d t)"
  by (auto simp: booked_def)

lemma bookedE:
  assumes "booked L (n, t) (n', t')"
  obtains x where "n' = n\<lparr>n_extra := x\<rparr>" "t' = add_extra_bytes (extra_total L x - extra_total L (n_extra n)) t"
  using assms by (auto simp: booked_def)

text \<open>\<open>try_set_extra_locked\<close>: what each outcome means.\<close>

lemma try_set_extra_cases:
  assumes "dumpable L m (n_extra n)"
  shows "case try_set_extra L m w v (n, t) of
      Inl e \<Rightarrow> w \<in> set (n_workers n) \<and> json_dump L v = Inl e
    | Inr (b, n', t') \<Rightarrow> booked L (n, t) (n', t') \<and> dumpable L m (n_extra n') \<and>
        (b \<longleftrightarrow> w \<in> set (n_workers n) \<and> (\<exists>s. json_dump L v = Inr s \<and> length s \<le> m)) \<and>
        n_extra n' = (if b then obj_set w v (n_extra n) else n_extra n)"
proof (cases "w \<in> set (n_workers n)")
  case True
  show ?thesis
  proof (cases "json_dump L v")
    case Inl
    with True show ?thesis by (simp add: try_set_extra_def)
  next
    case (Inr s)
    have ok: "obj_ok (n_extra n)" using assms by (simp add: dumpable_def)
    show ?thesis
    proof (cases "length s \<le> m")
      case s: True
      show ?thesis
      proof (cases "map_of (n_extra n) w")
        case None
        with True Inr s assms ok show ?thesis
          by (simp add: try_set_extra_def extra_total_set dumpable_set bookedI)
      next
        case (Some old)
        then obtain q where "json_dump L old = Inr q" using dumpable_lookup assms by blast
        with Some True Inr s assms ok show ?thesis
          by (simp add: try_set_extra_def extra_total_set dumpable_set bookedI)
      qed
    qed (use True Inr assms in \<open>simp add: try_set_extra_def\<close>)
  qed
qed (use assms in \<open>simp add: try_set_extra_def\<close>)

lemma set_extras_ok:
  assumes "dumpable L m (n_extra n)" "fst ` set (n_extra n) \<subseteq> set (n_workers n)"
    and "set_extras L m kvs (n, t) = (e, n', t')"
  shows "booked L (n, t) (n', t') \<and> dumpable L m (n_extra n') \<and>
    fst ` set (n_extra n') \<subseteq> set (n_workers n)"
  using assms
proof (induction kvs arbitrary: n t)
  case (Cons kv kvs)
  obtain k v where kv: "kv = (k, v)" by (cases kv)
  show ?case
  proof (cases "try_set_extra L m k v (n, t)")
    case (Inl f)
    with Cons.prems kv show ?thesis by simp
  next
    case (Inr r)
    obtain b n1 t1 where r: "r = (b, n1, t1)" by (cases r)
    have s: "booked L (n, t) (n1, t1)" "dumpable L m (n_extra n1)"
      "b \<longrightarrow> k \<in> set (n_workers n)"
      "n_extra n1 = (if b then obj_set k v (n_extra n) else n_extra n)"
      using try_set_extra_cases [OF Cons.prems(1), of k v t] Inr r by auto
    have w: "n_workers n1 = n_workers n" using s(1) by (auto simp: booked_def)
    have "fst ` set (n_extra n1) \<subseteq> set (n_workers n1)"
      using s(3,4) Cons.prems(2) w by auto
    then show ?thesis
      using Cons.IH [OF s(2)] Cons.prems(3) Inr r kv w booked_trans [OF s(1)] by auto
  qed
qed simp

text \<open>Pruning drops exactly the entries of workers the node no longer lists, and never throws.\<close>

lemma map_fst_erase: "fst ` set (obj_erase k kvs) = fst ` set kvs - {k}"
  by (auto simp: obj_erase_def)

lemma prune_keys_ok:
  assumes "dumpable L m (n_extra n)" "set ks \<subseteq> fst ` set (n_extra n)" "distinct ks"
  shows "\<exists>n' t'. prune_keys L ks (n, t) = (None, n', t') \<and> booked L (n, t) (n', t') \<and>
    n_extra n' = filter (\<lambda>kv. fst kv \<notin> set ks) (n_extra n) \<and> dumpable L m (n_extra n')"
  using assms
proof (induction ks arbitrary: n t)
  case (Cons k ks)
  let ?x = "obj_erase k (n_extra n)"
  obtain v where v: "map_of (n_extra n) k = Some v"
    using Cons.prems(2) by (metis insert_subset list.simps(15) map_of_eq_None_iff not_None_eq set_map)
  then obtain s where s: "json_dump L v = Inr s" using dumpable_lookup Cons.prems(1) by blast
  let ?n = "n\<lparr>n_extra := ?x\<rparr>" and ?t = "add_extra_bytes (- int (length s)) t"
  have ok: "obj_ok (n_extra n)" using Cons.prems(1) by (simp add: dumpable_def)
  have b: "booked L (n, t) (?n, ?t)"
    by (rule bookedI) (simp add: extra_total_erase [OF ok] v s)
  have "set ks \<subseteq> fst ` set ?x"
    using Cons.prems(2,3) by (auto simp: map_fst_erase)
  then obtain n' t' where *: "prune_keys L ks (?n, ?t) = (None, n', t')" "booked L (?n, ?t) (n', t')"
    "n_extra n' = filter (\<lambda>kv. fst kv \<notin> set ks) ?x" "dumpable L m (n_extra n')"
    using Cons.IH [of ?n ?t] Cons.prems dumpable_erase by auto
  moreover have "filter (\<lambda>kv. fst kv \<notin> set ks) ?x = filter (\<lambda>kv. fst kv \<notin> set (k # ks)) (n_extra n)"
    by (auto simp: obj_erase_def intro: filter_cong)
  ultimately show ?case using booked_trans [OF b] v s by auto
qed simp

lemma prune_stale_extra_ok:
  assumes "dumpable L m (n_extra n)"
  shows "\<exists>n' t'. prune_stale_extra L (n, t) = (None, n', t') \<and> booked L (n, t) (n', t') \<and>
    n_extra n' = filter (\<lambda>kv. fst kv \<in> set (n_workers n)) (n_extra n) \<and> dumpable L m (n_extra n')"
proof -
  have "distinct (stale_keys n)"
    using assms distinct_filter [OF obj_ok_distinct [of "n_extra n"]]
    by (simp add: stale_keys_def dumpable_def)
  moreover have "set (stale_keys n) \<subseteq> fst ` set (n_extra n)" by (auto simp: stale_keys_def)
  moreover have "filter (\<lambda>kv. fst kv \<notin> set (stale_keys n)) (n_extra n)
      = filter (\<lambda>kv. fst kv \<in> set (n_workers n)) (n_extra n)"
    by (rule filter_cong) (auto simp: stale_keys_def)
  ultimately show ?thesis
    using prune_keys_ok [OF assms, of "stale_keys n" t] by (simp add: prune_stale_extra_def)
qed

lemma release_extras_ok:
  "dumpable L m kvs \<Longrightarrow> release_extras L kvs t = (None, add_extra_bytes (- extra_total L kvs) t)"
proof (induction kvs arbitrary: t)
  case (Cons kv kvs)
  obtain k v where kv: "kv = (k, v)" by (cases kv)
  then obtain s where "json_dump L v = Inr s" using Cons.prems by (auto simp: dumpable_def)
  moreover have "dumpable L m kvs" using Cons.prems by (auto simp: dumpable_def obj_ok_def)
  ultimately show ?case
    using Cons.IH by (simp add: kv add_extra_bytes_add extra_total_def algebra_simps)
qed simp

section \<open>The invariant\<close>

definition node_ok :: "json_lib \<Rightarrow> nat \<Rightarrow> node_info \<Rightarrow> bool" where
  "node_ok L m n =
     (dumpable L m (n_extra n) \<and> fst ` set (n_extra n) \<subseteq> set (n_workers n) \<and>
      (n_status n = St_ok \<and> n_expires_in n = None \<or> n_status n = St_grace \<and> n_expires_in n = Some 180))"

definition issued :: "nat \<Rightarrow> string \<Rightarrow> bool" where
  "issued c nid = (\<exists>t k. nid = node_id_string t k \<and> k < c)"

definition reg_extra :: "json_lib \<Rightarrow> (string \<times> node_info) list \<Rightarrow> int" where
  "reg_extra L kns = (\<Sum>kn\<leftarrow>kns. extra_total L (n_extra (snd kn)))"

definition reg_ok :: "json_lib \<Rightarrow> 'cb registry \<Rightarrow> bool" where
  "reg_ok L r =
     (distinct (map fst (r_nodes r)) \<and>
      (\<forall>(k, n) \<in> set (r_nodes r). n_id n = k \<and> issued (r_id_counter r) k \<and> node_ok L (r_max_extra r) n) \<and>
      extra_bytes (r_mem r) = word_of_int (reg_extra L (r_nodes r)))"

lemma find_put_node: "find_node (put_node nid n r) k = (if k = nid then Some n else find_node r k)"
  by (simp add: put_node_def find_node_def map_of_update)

lemma reg_ok_init: "reg_ok L (registry_init m)"
  by (simp add: reg_ok_def registry_init_def reg_extra_def tracker_init_def)

lemma reg_ok_lookup:
  assumes "reg_ok L r" "find_node r nid = Some n"
  shows "n_id n = nid \<and> issued (r_id_counter r) nid \<and> node_ok L (r_max_extra r) n"
proof -
  have "(nid, n) \<in> set (r_nodes r)" using assms(2) map_of_SomeD by (simp add: find_node_def)
  moreover have "\<forall>(k, n) \<in> set (r_nodes r). n_id n = k \<and> issued (r_id_counter r) k \<and>
      node_ok L (r_max_extra r) n"
    using assms(1) by (simp add: reg_ok_def)
  ultimately show ?thesis by fast
qed

lemma extra_bytes_add [simp]: "extra_bytes (add_extra_bytes d t) = extra_bytes t + word_of_int d"
  by (simp add: add_extra_bytes_def)

lemma extra_bytes_registry [simp]: "extra_bytes (add_registry_bytes d t) = extra_bytes t"
  by (simp add: add_registry_bytes_def)

lemma registry_bytes_add [simp]:
  "registry_bytes (add_extra_bytes d t) = registry_bytes t"
  "registry_bytes (add_registry_bytes d t) = registry_bytes t + word_of_int d"
  by (simp_all add: add_extra_bytes_def add_registry_bytes_def)

text \<open>Storing a node whose change of extras is booked keeps the invariant.\<close>

lemma reg_ok_put:
  assumes "reg_ok L r" "node_ok L (r_max_extra r) n" "n_id n = nid" "issued c nid" "r_id_counter r \<le> c"
    and "extra_bytes t = extra_bytes (r_mem r) + word_of_int (extra_total L (n_extra n) -
        (case find_node r nid of None \<Rightarrow> 0 | Some old \<Rightarrow> extra_total L (n_extra old)))"
  shows "reg_ok L (put_node nid n (r\<lparr>r_id_counter := c, r_mem := t\<rparr>))"
proof -
  let ?r = "put_node nid n (r\<lparr>r_id_counter := c, r_mem := t\<rparr>)"
  have d: "distinct (map fst (r_nodes r))" using assms(1) by (simp add: reg_ok_def)
  have "issued (r_id_counter r) k \<Longrightarrow> issued c k" for k
    using assms(5) by (auto simp: issued_def intro: less_le_trans)
  then have "\<forall>(k, x) \<in> set (r_nodes ?r). n_id x = k \<and> issued c k \<and> node_ok L (r_max_extra r) x"
    using assms(1-4) by (auto simp: put_node_def set_update_distinct [OF d] reg_ok_def)
  moreover have "reg_extra L (r_nodes ?r) = reg_extra L (r_nodes r) + extra_total L (n_extra n) -
      (case find_node r nid of None \<Rightarrow> 0 | Some old \<Rightarrow> extra_total L (n_extra old))"
    using sum_update [OF d, of "\<lambda>x. extra_total L (n_extra x)" nid n]
    by (simp add: reg_extra_def put_node_def find_node_def)
  moreover have "distinct (map fst (r_nodes ?r))" using d by (simp add: put_node_def distinct_update)
  ultimately show ?thesis using assms(1,6)
    by (simp add: reg_ok_def put_node_def)
qed

section \<open>Fresh ids\<close>

lemma node_id_string_counter: "node_id_string t c = node_id_string t' c' \<Longrightarrow> c = c'"
proof -
  have rev_id: "takeWhile (\<lambda>x. x \<noteq> CHR ''-'') (rev (node_id_string t c)) = rev (nat_to_string c)" for t c
    using dash_not_in_nat_to_string [of c]
    by (simp add: node_id_string_def takeWhile_append)
  assume "node_id_string t c = node_id_string t' c'"
  then have "rev (nat_to_string c) = rev (nat_to_string c')" using rev_id by metis
  then show ?thesis by simp
qed

lemma fresh_id: "reg_ok L r \<Longrightarrow> find_node r (node_id_string t (r_id_counter r)) = None"
proof (rule ccontr)
  assume ok: "reg_ok L r" and "find_node r (node_id_string t (r_id_counter r)) \<noteq> None"
  then have "issued (r_id_counter r) (node_id_string t (r_id_counter r))"
    using reg_ok_lookup by blast
  then show False using node_id_string_counter by (fastforce simp: issued_def)
qed

section \<open>The operations keep the invariant\<close>

text \<open>
  The state of a registration before the announced extras are stored: the node \<open>n\<close> and tracker \<open>t\<close>,
  under the id \<open>nid\<close> and with the id counter \<open>c\<close>.
\<close>

definition register_stage :: "json_lib \<Rightarrow> nat \<Rightarrow> int \<Rightarrow> int \<Rightarrow> string \<Rightarrow> string list \<Rightarrow> endpoint_info option \<Rightarrow> string \<Rightarrow>
    string \<Rightarrow> 'cb registry \<Rightarrow> string \<Rightarrow> nat \<Rightarrow> node_info \<Rightarrow> memory_tracker \<Rightarrow> bool" where
  "register_stage L sz now t_id role workers ep peer_ip existing r nid c n t =
     (nid = (if existing = [] then node_id_string t_id (r_id_counter r) else existing) \<and>
      c = (if existing = [] then r_id_counter r + 1 else r_id_counter r) \<and>
      n = \<lparr>n_id = nid, n_role = role, n_workers = workers, n_endpoint = final_endpoint ep peer_ip,
           n_status = St_ok,
           n_added_at = (case find_node r nid of Some old \<Rightarrow> n_added_at old | None \<Rightarrow> now),
           n_active_at = now, n_expires_in = None,
           n_extra = (case find_node r nid of
               Some old \<Rightarrow> filter (\<lambda>kv. fst kv \<in> set workers) (n_extra old) | None \<Rightarrow> [])\<rparr> \<and>
      dumpable L (r_max_extra r) (n_extra n) \<and>
      registry_bytes t = registry_bytes (r_mem r) +
        (case find_node r nid of None \<Rightarrow> word_of_int (int (sz + length role + length nid)) | Some old \<Rightarrow> 0) \<and>
      extra_bytes t = extra_bytes (r_mem r) + word_of_int (extra_total L (n_extra n) -
        (case find_node r nid of None \<Rightarrow> 0 | Some old \<Rightarrow> extra_total L (n_extra old))))"

lemma register_eq:
  assumes "reg_ok L r" "existing = [] \<or> issued (r_id_counter r) existing"
  obtains nid c n t where "register_stage L sz now t_id role workers ep peer_ip existing r nid c n t"
    "issued c nid" "r_id_counter r \<le> c"
    "\<And>extra. register_or_update_node L sz now t_id role workers ep peer_ip existing extra r =
      (let (e, n, t) = (case extra of JObj kvs \<Rightarrow> set_extras L (r_max_extra r) kvs (n, t)
                        | _ \<Rightarrow> (None, n, t));
           r' = put_node nid n (r\<lparr>r_id_counter := c, r_mem := t\<rparr>)
       in case e of Some x \<Rightarrow> (Inl x, None, r') | None \<Rightarrow> (Inr n, Some (snapshot_callbacks r', n), r'))"
proof -
  define nid where "nid = (if existing = [] then node_id_string t_id (r_id_counter r) else existing)"
  define c where "c = (if existing = [] then r_id_counter r + 1 else r_id_counter r)"
  have iss: "issued c nid" using assms(2) by (auto simp: nid_def c_def issued_def intro: less_SucI)
  have c_le: "r_id_counter r \<le> c" by (simp add: c_def)
  have gen: "(if existing = [] then generate_node_id t_id r else (existing, r)) =
      (nid, r\<lparr>r_id_counter := c\<rparr>)"
    by (simp add: generate_node_id_def nid_def c_def)
  have fc: "find_node (r\<lparr>r_id_counter := c\<rparr>) k = find_node r k" for k by (simp add: find_node_def)
  show thesis
  proof (cases "find_node r nid")
    case None
    let ?n = "\<lparr>n_id = nid, n_role = role, n_workers = workers, n_endpoint = final_endpoint ep peer_ip,
      n_status = St_ok, n_added_at = now, n_active_at = now, n_expires_in = None, n_extra = []\<rparr>"
    let ?t = "add_registry_bytes (int (sz + length role + length nid)) (r_mem r)"
    have "register_stage L sz now t_id role workers ep peer_ip existing r nid c ?n ?t"
      by (simp add: register_stage_def None nid_def [symmetric] c_def)
    then show thesis
      by (rule that [OF _ iss])
        (simp_all add: c_def [symmetric] register_or_update_node_def gen fc None Let_def c_le
          split: json.split)
  next
    case (Some old)
    let ?n = "old\<lparr>n_role := role, n_workers := workers, n_endpoint := final_endpoint ep peer_ip,
      n_status := St_ok, n_active_at := now, n_expires_in := None\<rparr>"
    have o: "n_id old = nid" "dumpable L (r_max_extra r) (n_extra ?n)"
      using reg_ok_lookup [OF assms(1) Some] by (simp_all add: node_ok_def)
    obtain n t where p: "prune_stale_extra L (?n, r_mem r) = (None, n, t)"
        "booked L (?n, r_mem r) (n, t)"
        "n_extra n = filter (\<lambda>kv. fst kv \<in> set (n_workers ?n)) (n_extra ?n)"
        "dumpable L (r_max_extra r) (n_extra n)"
      using prune_stale_extra_ok [OF o(2), of "r_mem r"] by blast
    have "register_stage L sz now t_id role workers ep peer_ip existing r nid c n t"
      using p(2-4) o by (auto simp: register_stage_def Some nid_def [symmetric] c_def elim!: bookedE)
    then show thesis
      by (rule that [OF _ iss])
        (simp_all add: register_or_update_node_def gen fc Some Let_def c_le p(1) split: json.split)
  qed
qed

lemma node_ok_stage:
  assumes "register_stage L sz now t_id role workers ep peer_ip existing r nid c n t"
  shows "node_ok L (r_max_extra r) n" "n_id n = nid"
proof -
  have "fst ` set (n_extra n) \<subseteq> set (n_workers n)"
    using assms by (auto simp: register_stage_def split: option.splits)
  then show "node_ok L (r_max_extra r) n" "n_id n = nid"
    using assms by (auto simp: register_stage_def node_ok_def)
qed

text \<open>The node a registration stores, and what is booked for it.\<close>

lemma register_outcome:
  assumes "reg_ok L r" "existing = [] \<or> issued (r_id_counter r) existing"
    and "register_or_update_node L sz now t_id role workers ep peer_ip existing extra r = (res, ev, r')"
  obtains nid c n t n' t' e where
    "register_stage L sz now t_id role workers ep peer_ip existing r nid c n t"
    "issued c nid" "r_id_counter r \<le> c" "booked L (n, t) (n', t')"
    "(e, n', t') = (case extra of JObj kvs \<Rightarrow> set_extras L (r_max_extra r) kvs (n, t) | _ \<Rightarrow> (None, n, t))"
    "node_ok L (r_max_extra r) n'" "r' = put_node nid n' (r\<lparr>r_id_counter := c, r_mem := t'\<rparr>)"
    "res = (case e of Some x \<Rightarrow> Inl x | None \<Rightarrow> Inr n')"
    "ev = (case e of Some x \<Rightarrow> None | None \<Rightarrow> Some (snapshot_callbacks r', n'))"
proof -
  obtain nid c n t where st: "register_stage L sz now t_id role workers ep peer_ip existing r nid c n t"
    "issued c nid" "r_id_counter r \<le> c"
    and eq: "\<And>extra. register_or_update_node L sz now t_id role workers ep peer_ip existing extra r =
      (let (e, n, t) = (case extra of JObj kvs \<Rightarrow> set_extras L (r_max_extra r) kvs (n, t)
                        | _ \<Rightarrow> (None, n, t));
           r' = put_node nid n (r\<lparr>r_id_counter := c, r_mem := t\<rparr>)
       in case e of Some x \<Rightarrow> (Inl x, None, r') | None \<Rightarrow> (Inr n, Some (snapshot_callbacks r', n), r'))"
    by (rule register_eq [OF assms(1,2)], rule that)
  obtain e n' t' where e: "(e, n', t') =
      (case extra of JObj kvs \<Rightarrow> set_extras L (r_max_extra r) kvs (n, t) | _ \<Rightarrow> (None, n, t))"
    by (metis prod_cases3)
  note ok = node_ok_stage [OF st(1)]
  have b: "booked L (n, t) (n', t') \<and> dumpable L (r_max_extra r) (n_extra n') \<and>
      fst ` set (n_extra n') \<subseteq> set (n_workers n)"
    using e ok(1) set_extras_ok [of L "r_max_extra r" n _ t e n' t']
    by (cases extra) (auto simp: node_ok_def)
  then have n': "node_ok L (r_max_extra r) n'"
    using ok(1) by (auto simp: node_ok_def elim!: bookedE)
  let ?r = "put_node nid n' (r\<lparr>r_id_counter := c, r_mem := t'\<rparr>)"
  have "(res, ev, r') =
      (case e of Some x \<Rightarrow> (Inl x, None, ?r) | None \<Rightarrow> (Inr n', Some (snapshot_callbacks ?r, n'), ?r))"
    using eq [of extra] assms(3) unfolding e [symmetric] by (simp add: Let_def)
  then have "r' = ?r" "res = (case e of Some x \<Rightarrow> Inl x | None \<Rightarrow> Inr n')"
    "ev = (case e of Some x \<Rightarrow> None | None \<Rightarrow> Some (snapshot_callbacks ?r, n'))"
    by (cases e; simp)+
  with that [OF st conjunct1 [OF b] e n'] show thesis by blast
qed

lemma register_ok:
  assumes "reg_ok L r" "existing = [] \<or> issued (r_id_counter r) existing"
    and "register_or_update_node L sz now t_id role workers ep peer_ip existing extra r = (res, ev, r')"
  shows "reg_ok L r'"
  using assms
proof (rule register_outcome)
  fix nid c n t n' t' e
  assume st: "register_stage L sz now t_id role workers ep peer_ip existing r nid c n t"
    "issued c nid" "r_id_counter r \<le> c"
    and b: "booked L (n, t) (n', t')" and ok: "node_ok L (r_max_extra r) n'"
    and r': "r' = put_node nid n' (r\<lparr>r_id_counter := c, r_mem := t'\<rparr>)"
  have *: "n_id n' = nid" "extra_bytes t' = extra_bytes t +
      word_of_int (extra_total L (n_extra n') - extra_total L (n_extra n))"
    using b node_ok_stage(2) [OF st(1)] by (auto elim!: bookedE)
  have "extra_bytes t' = extra_bytes (r_mem r) + word_of_int (extra_total L (n_extra n') -
      (case find_node r nid of None \<Rightarrow> 0 | Some old \<Rightarrow> extra_total L (n_extra old)))"
    using st(1) *(2) unfolding register_stage_def by (auto simp flip: of_int_add)
  then show "reg_ok L r'"
    unfolding r' using assms(1) ok *(1) st(2,3) by (intro reg_ok_put) auto
qed

text \<open>Changing a node's status in place.\<close>

lemma reg_ok_status:
  assumes "reg_ok L r" "find_node r nid = Some n"
    and "n' = n\<lparr>n_status := st, n_active_at := now, n_expires_in := ex\<rparr>"
    and "st = St_ok \<and> ex = None \<or> st = St_grace \<and> ex = Some 180"
  shows "reg_ok L (put_node nid n' r)"
proof -
  have "node_ok L (r_max_extra r) n'" "n_id n' = nid" "issued (r_id_counter r) nid"
    using reg_ok_lookup [OF assms(1,2)] assms(3,4) by (auto simp: node_ok_def)
  from reg_ok_put [OF assms(1) this order_refl, of "r_mem r"] show ?thesis
    using assms(2,3) by simp
qed

lemma mark_grace_ok: "reg_ok L r \<Longrightarrow> mark_node_grace now nid r = (b, ev, r') \<Longrightarrow> reg_ok L r'"
  by (auto simp: mark_node_grace_def Let_def intro: reg_ok_status split: option.splits)

lemma restore_ok: "reg_ok L r \<Longrightarrow> restore_node_active now nid r = (b, ev, r') \<Longrightarrow> reg_ok L r'"
  by (auto simp: restore_node_active_def Let_def intro: reg_ok_status split: option.splits)

lemma update_extra_ok:
  assumes "reg_ok L r" "update_node_extra L now nid w v r = (res, ev, r')"
  shows "reg_ok L r'"
proof (cases "find_node r nid")
  case None
  then show ?thesis using assms by (simp add: update_node_extra_def)
next
  case (Some n)
  have ok: "node_ok L (r_max_extra r) n" "n_id n = nid" "issued (r_id_counter r) nid"
    using reg_ok_lookup [OF assms(1) Some] by auto
  then have d: "dumpable L (r_max_extra r) (n_extra n)" by (simp add: node_ok_def)
  show ?thesis
  proof (cases "try_set_extra L (r_max_extra r) w v (n, r_mem r)")
    case (Inl e)
    then show ?thesis using assms Some by (simp add: update_node_extra_def)
  next
    case (Inr x)
    obtain b n' t' where x: "x = (b, n', t')" by (cases x)
    show ?thesis
    proof (cases b)
      case False
      then show ?thesis using assms Some Inr x by (simp add: update_node_extra_def)
    next
      case True
      have s: "booked L (n, r_mem r) (n', t')" "dumpable L (r_max_extra r) (n_extra n')"
        "w \<in> set (n_workers n)" "n_extra n' = obj_set w v (n_extra n)"
        using try_set_extra_cases [OF d, of w v "r_mem r"] Inr x True by auto
      let ?n = "n'\<lparr>n_active_at := now\<rparr>"
      have "node_ok L (r_max_extra r) ?n" "n_id ?n = nid"
        using s ok by (auto simp: node_ok_def elim!: bookedE)
      moreover have "extra_bytes t' = extra_bytes (r_mem r) +
          word_of_int (extra_total L (n_extra ?n) - (case find_node r nid of None \<Rightarrow> 0
            | Some old \<Rightarrow> extra_total L (n_extra old)))"
        using s(1) Some by (auto elim!: bookedE)
      ultimately have "reg_ok L (put_node nid ?n (r\<lparr>r_id_counter := r_id_counter r, r_mem := t'\<rparr>))"
        using assms(1) ok(3) by (intro reg_ok_put) auto
      then show ?thesis using assms(2) Some Inr x True by (simp add: update_node_extra_def Let_def)
    qed
  qed
qed

text \<open>Removal never throws: everything stored prints.\<close>

lemma remove_eq:
  assumes "reg_ok L r"
  shows "remove_node_permanently L sz nid r =
    (case find_node r nid of None \<Rightarrow> (Inr False, None, r)
     | Some n \<Rightarrow>
         (Inr True, Some (snapshot_callbacks r, n\<lparr>n_status := St_erased, n_expires_in := Some 0\<rparr>),
          r\<lparr>r_nodes := AList.delete nid (r_nodes r),
            r_mem := add_extra_bytes (- extra_total L (n_extra n))
              (add_registry_bytes (- int (sz + length (n_role n) + length (n_id n))) (r_mem r))\<rparr>))"
proof (cases "find_node r nid")
  case (Some n)
  then have "dumpable L (r_max_extra r) (n_extra n)"
    using reg_ok_lookup [OF assms] by (simp add: node_ok_def)
  with Some show ?thesis
    by (simp add: remove_node_permanently_def release_extras_ok snapshot_callbacks_def)
qed (simp add: remove_node_permanently_def)

lemma remove_ok:
  assumes "reg_ok L r" "remove_node_permanently L sz nid r = (res, ev, r')"
  shows "reg_ok L r'"
proof (cases "find_node r nid")
  case None
  then show ?thesis using assms by (simp add: remove_eq)
next
  case (Some n)
  have d: "distinct (map fst (r_nodes r))" using assms(1) by (simp add: reg_ok_def)
  then have "reg_extra L (AList.delete nid (r_nodes r)) =
      reg_extra L (r_nodes r) - extra_total L (n_extra n)"
    using sum_delete [OF d, of "\<lambda>x. extra_total L (n_extra x)" nid] Some
    by (simp add: reg_extra_def find_node_def)
  with Some show ?thesis using assms d distinct_delete [OF d, of nid]
    by (auto simp: remove_eq reg_ok_def set_delete)
qed

end
