(* ===== verification/RegistryProps.thy ===== *)
theory RegistryProps
  imports RegistryInv
begin

text \<open>
  The properties of the registry over all the states its operations can reach. A run starts from an
  empty registry; each step is one operation with arbitrary arguments, except that an existing id
  handed to \<open>register_or_update_node\<close> must be one the registry issued (the sessions only pass back
  an id they were given). A sweep is two kinds of steps, collecting and removing, so other
  operations may fall in between.
\<close>

section \<open>Reachable states\<close>

inductive reg_reachable :: "json_lib \<Rightarrow> nat \<Rightarrow> nat \<Rightarrow> 'cb registry \<Rightarrow> bool" for L sz m where
  start: "reg_reachable L sz m (registry_init m)"
| subscribe: "reg_reachable L sz m r \<Longrightarrow> add_event_callback cb r = (token, r') \<Longrightarrow>
    reg_reachable L sz m r'"
| unsubscribe: "reg_reachable L sz m r \<Longrightarrow> reg_reachable L sz m (remove_event_callback token r)"
| register: "reg_reachable L sz m r \<Longrightarrow> existing = [] \<or> issued (r_id_counter r) existing \<Longrightarrow>
    register_or_update_node L sz now t_id role workers ep peer_ip existing extra r = (res, ev, r') \<Longrightarrow>
    reg_reachable L sz m r'"
| to_grace: "reg_reachable L sz m r \<Longrightarrow> mark_node_grace now nid r = (b, ev, r') \<Longrightarrow>
    reg_reachable L sz m r'"
| restore: "reg_reachable L sz m r \<Longrightarrow> restore_node_active now nid r = (b, ev, r') \<Longrightarrow>
    reg_reachable L sz m r'"
| announce: "reg_reachable L sz m r \<Longrightarrow> update_node_extra L now nid w v r = (res, ev, r') \<Longrightarrow>
    reg_reachable L sz m r'"
| remove: "reg_reachable L sz m r \<Longrightarrow> remove_node_permanently L sz nid r = (res, ev, r') \<Longrightarrow>
    reg_reachable L sz m r'"
| resolve: "reg_reachable L sz m r \<Longrightarrow> resolve_node iter role worker r = (found, r') \<Longrightarrow>
    reg_reachable L sz m r'"

lemma reg_ok_other [simp]:
  "reg_ok L (r\<lparr>r_rr := x\<rparr>) = reg_ok L r" "reg_ok L (r\<lparr>r_cbs := y\<rparr>) = reg_ok L r"
  "reg_ok L (r\<lparr>r_cb_counter := c\<rparr>) = reg_ok L r"
  by (simp_all add: reg_ok_def)

lemma max_extra_kept:
  "register_or_update_node L sz now t_id role workers ep peer_ip existing extra r = (res, ev, r') \<Longrightarrow>
     r_max_extra r' = r_max_extra r"
  "mark_node_grace now nid r = (b, ev, r') \<Longrightarrow> r_max_extra r' = r_max_extra r"
  "restore_node_active now nid r = (b, ev, r') \<Longrightarrow> r_max_extra r' = r_max_extra r"
  "update_node_extra L now nid w v r = (res', ev, r') \<Longrightarrow> r_max_extra r' = r_max_extra r"
  "remove_node_permanently L sz nid r = (res', ev, r') \<Longrightarrow> r_max_extra r' = r_max_extra r"
  by (auto simp: register_or_update_node_def mark_node_grace_def restore_node_active_def
      update_node_extra_def remove_node_permanently_def generate_node_id_def put_node_def Let_def
      split: option.splits prod.splits sum.splits if_splits json.splits bool.splits)

lemma reachable_ok: "reg_reachable L sz m r \<Longrightarrow> reg_ok L r \<and> r_max_extra r = m"
proof (induction rule: reg_reachable.induct)
  case start
  show ?case using reg_ok_init by (simp add: registry_init_def)
next
  case (subscribe r cb token r')
  then show ?case by (auto simp: add_event_callback_def)
next
  case (unsubscribe r token)
  then show ?case by (simp add: remove_event_callback_def)
next
  case (resolve r iter role worker found r')
  then show ?case by (auto simp: resolve_node_def Let_def split: prod.splits)
qed (use register_ok mark_grace_ok restore_ok update_extra_ok remove_ok max_extra_kept in metis)+

section \<open>The invariant, spelled out\<close>

lemma reachable_reg_ok: "reg_reachable L sz m r \<Longrightarrow> reg_ok L r"
  using reachable_ok by blast

lemma reachable_max: "reg_reachable L sz m r \<Longrightarrow> r_max_extra r = m"
  using reachable_ok by blast

text \<open>A concrete run for the witnesses: one node registers with an announcement for its worker.\<close>

definition toy_lib :: json_lib where
  "toy_lib = \<lparr>json_parse = (\<lambda>s. Inl Json_error),
     json_dump = (\<lambda>j. case j of JUInt n \<Rightarrow> Inr (nat_to_string n) | _ \<Rightarrow> Inr ''{}''),
     float_to_u16 = (\<lambda>f. 0), float_to_i64 = (\<lambda>f. 0), float_to_u64 = (\<lambda>f. 0)\<rparr>"

definition toy_registry :: "nat registry" where
  "toy_registry = snd (snd (register_or_update_node toy_lib 200 1000 1000 ''api'' [''w''] None
     ''10.0.0.9'' [] (JObj [(''w'', JUInt 5)]) (registry_init 8192)))"

lemma toy_reachable: "reg_reachable toy_lib 200 8192 toy_registry"
proof -
  let ?x = "register_or_update_node toy_lib 200 1000 1000 ''api'' [''w''] None
     ''10.0.0.9'' [] (JObj [(''w'', JUInt 5)]) (registry_init 8192 :: nat registry)"
  have "?x = (fst ?x, fst (snd ?x), snd (snd ?x))" by simp
  from reg_reachable.register [OF reg_reachable.start _ this] show ?thesis
    unfolding toy_registry_def by simp
qed

text \<open>
  C3: The registry's invariant, in every reachable state: node ids are unique; the tracker's
  \<open>extra\<close> gauge is exactly the printed size of all stored extras (so it is zero when no node is
  left); every stored extra belongs to a worker of its node and prints within
  \<open>max_node_extra_bytes\<close>; a node is either OK with no expiry or in grace with the 180-second mark,
  and an erased node is never stored.
\<close>

theorem registry_invariant:
  assumes "reg_reachable L sz m r"
  shows "distinct (map fst (r_nodes r)) \<and>
    extra_bytes (r_mem r) = word_of_int (\<Sum>kn\<leftarrow>r_nodes r. \<Sum>wv\<leftarrow>n_extra (snd kn). dump_size L (snd wv)) \<and>
    (r_nodes r = [] \<longrightarrow> extra_bytes (r_mem r) = 0) \<and>
    (\<forall>nid n. find_node r nid = Some n \<longrightarrow>
       n_id n = nid \<and>
       (\<forall>(w, v) \<in> set (n_extra n). w \<in> set (n_workers n) \<and> dump_size L v \<le> int m) \<and>
       (n_status n = St_ok \<and> n_expires_in n = None \<or>
        n_status n = St_grace \<and> n_expires_in n = Some 180))"
proof -
  note ok = reachable_reg_ok [OF assms]
  have g: "extra_bytes (r_mem r) = word_of_int (reg_extra L (r_nodes r))"
    using ok by (simp add: reg_ok_def)
  have "(\<forall>(w, v) \<in> set (n_extra n). w \<in> set (n_workers n) \<and> dump_size L v \<le> int m)"
    if "node_ok L m n" for n
    using that by (fastforce simp: node_ok_def dumpable_def)
  then show ?thesis
    using ok g reg_ok_lookup [OF ok] reachable_max [OF assms]
    by (auto simp: reg_extra_def extra_total_def reg_ok_def node_ok_def)
qed

theorem registry_invariant_witness:
  "extra_bytes (r_mem toy_registry) =
     word_of_int (\<Sum>kn\<leftarrow>r_nodes toy_registry. \<Sum>wv\<leftarrow>n_extra (snd kn). dump_size toy_lib (snd wv))"
  using registry_invariant [OF toy_reachable] by blast

section \<open>Registration\<close>

lemma register_stored:
  assumes "reg_ok L r" "existing = [] \<or> issued (r_id_counter r) existing"
    and "register_or_update_node L sz now t_id role workers ep peer_ip existing extra r = (Inr n, ev, r')"
  shows "(if existing = [] then find_node r (n_id n) = None else n_id n = existing) \<and>
    n_role n = role \<and> n_workers n = workers \<and> n_status n = St_ok \<and> n_active_at n = now \<and>
    n_endpoint n = final_endpoint ep peer_ip \<and>
    n_added_at n = (case find_node r (n_id n) of Some old \<Rightarrow> n_added_at old | None \<Rightarrow> now) \<and>
    find_node r' (n_id n) = Some n \<and> (\<forall>k. k \<noteq> n_id n \<longrightarrow> find_node r' k = find_node r k) \<and>
    ev = Some (map snd (r_cbs r), n)"
  using assms(1) assms(2,3)
proof (rule register_outcome)
  fix nid c n1 t n' t' e
  assume st: "register_stage L sz now t_id role workers ep peer_ip existing r nid c n1 t"
    and b: "booked L (n1, t) (n', t')"
    and r': "r' = put_node nid n' (r\<lparr>r_id_counter := c, r_mem := t'\<rparr>)"
    and res: "Inr n = (case e of Some x \<Rightarrow> Inl x | None \<Rightarrow> Inr n')"
    and ev: "ev = (case e of Some x \<Rightarrow> None | None \<Rightarrow> Some (snapshot_callbacks r', n'))"
  have n: "n = n'" "e = None" using res by (auto split: option.splits)
  obtain x where x: "n' = n1\<lparr>n_extra := x\<rparr>" using b by (auto elim: bookedE)
  have i: "n_id n' = nid" using x node_ok_stage(2) [OF st] by simp
  have "existing = [] \<Longrightarrow> find_node r nid = None"
    using st fresh_id [OF assms(1)] by (simp add: register_stage_def)
  moreover have "find_node r' k = (if k = nid then Some n' else find_node r k)" for k
    by (simp add: r' put_node_def find_node_def map_of_update)
  moreover have "snapshot_callbacks r' = map snd (r_cbs r)"
    by (simp add: r' put_node_def snapshot_callbacks_def)
  ultimately show ?thesis
    using st n x i ev unfolding register_stage_def by auto
qed

text \<open>With a printer that prints every value, a registration always succeeds.\<close>

lemma try_set_extra_prints:
  assumes "dumps_all L"
  obtains r where "try_set_extra L m k v nm = Inr r"
proof -
  obtain node mem where nm: "nm = (node, mem)" by (cases nm)
  obtain s where "json_dump L v = Inr s" using assms by (auto simp: dumps_all_def)
  moreover obtain i where "(case map_of (n_extra node) k of
      Some old \<Rightarrow> bind_res (json_dump L old) (\<lambda>s. Inr (int (length s))) | None \<Rightarrow> Inr 0) = Inr i"
  proof (cases "map_of (n_extra node) k")
    case (Some old)
    moreover obtain q where "json_dump L old = Inr q" using assms by (auto simp: dumps_all_def)
    ultimately show thesis using that by simp
  qed (use that in simp)
  ultimately show thesis
    using that by (cases "k \<in> set (n_workers node)"; cases "m < length s") (simp_all add: try_set_extra_def nm)
qed

lemma set_extras_prints: "dumps_all L \<Longrightarrow> fst (set_extras L m kvs nm) = None"
proof (induction L m kvs nm rule: set_extras.induct)
  case (2 L m k v kvs nm)
  obtain b nm' where "try_set_extra L m k v nm = Inr (b, nm')"
    using try_set_extra_prints [OF 2(2)] by (metis surj_pair)
  with 2 show ?case by simp
qed simp

lemma register_succeeds:
  assumes "reg_ok L r" "dumps_all L" "existing = [] \<or> issued (r_id_counter r) existing"
  obtains n ev r' where
    "register_or_update_node L sz now t_id role workers ep peer_ip existing extra r = (Inr n, ev, r')"
    "r_cbs r' = r_cbs r"
proof -
  obtain res ev r' where reg:
    "register_or_update_node L sz now t_id role workers ep peer_ip existing extra r = (res, ev, r')"
    by (metis prod_cases3)
  show thesis
    using assms(1,3) reg
  proof (rule register_outcome)
    fix nid c n t n' t' e
    assume e: "(e, n', t') = (case extra of JObj kvs \<Rightarrow> set_extras L (r_max_extra r) kvs (n, t) | _ \<Rightarrow> (None, n, t))"
      and r': "r' = put_node nid n' (r\<lparr>r_id_counter := c, r_mem := t'\<rparr>)"
      and res: "res = (case e of Some x \<Rightarrow> Inl x | None \<Rightarrow> Inr n')"
    have "e = None"
    proof (cases extra)
      case (JObj kvs)
      then have "set_extras L (r_max_extra r) kvs (n, t) = (e, n', t')" using e by simp
      with set_extras_prints [OF assms(2), of "r_max_extra r" kvs "(n, t)"] show ?thesis by simp
    qed (use e in simp_all)
    then show thesis using that reg res r' by (simp add: put_node_def)
  qed
qed

text \<open>
  C7: What a successful registration does: without an existing id the node gets an id no registered
  node has, otherwise it keeps the given one; the stored node is OK, active now, with the announced
  role, workers and endpoint, the endpoint's empty address replaced by the peer's; every other node
  is untouched; and every subscribed observer is notified, in subscription order, of exactly the node
  that is returned and stored.
\<close>

theorem register_correct:
  assumes "reg_reachable L sz m r" "existing = [] \<or> issued (r_id_counter r) existing"
    and "register_or_update_node L sz now t_id role workers ep peer_ip existing extra r = (Inr n, ev, r')"
  shows "(if existing = [] then find_node r (n_id n) = None else n_id n = existing) \<and>
    n_role n = role \<and> n_workers n = workers \<and> n_status n = St_ok \<and> n_active_at n = now \<and>
    n_endpoint n = final_endpoint ep peer_ip \<and>
    n_added_at n = (case find_node r (n_id n) of Some old \<Rightarrow> n_added_at old | None \<Rightarrow> now) \<and>
    find_node r' (n_id n) = Some n \<and> (\<forall>k. k \<noteq> n_id n \<longrightarrow> find_node r' k = find_node r k) \<and>
    ev = Some (map snd (r_cbs r), n)"
  by (rule register_stored [OF reachable_reg_ok [OF assms(1)] assms(2,3)])

theorem register_correct_witness:
  "find_node (snd (snd (register_or_update_node toy_lib 200 1200 1200 ''db'' [] None ''10.0.0.9'' []
     JNull toy_registry))) ''node-1000-1'' = find_node toy_registry ''node-1000-1''"
proof -
  have c: "r_id_counter toy_registry = 2"
    by (simp add: toy_registry_def register_or_update_node_def generate_node_id_def registry_init_def
        Let_def put_node_def find_node_def split: prod.split option.split)
  let ?x = "register_or_update_node toy_lib 200 1200 1200 ''db'' [] None ''10.0.0.9'' []
     JNull toy_registry"
  obtain n ev r' where x: "?x = (Inr n, ev, r')" "n_id n = node_id_string 1200 2"
  proof -
    have "find_node toy_registry (node_id_string 1200 2) = None"
      using fresh_id [OF reachable_reg_ok [OF toy_reachable], of 1200] by (simp add: c)
    then show thesis
      using that by (auto simp: register_or_update_node_def generate_node_id_def c find_node_def Let_def)
  qed
  have "node_id_string 1200 2 \<noteq> ''node-1000-1''"
    by (simp add: node_id_string_def int_to_string_def nat_to_string.simps digit_char_def)
  then show ?thesis
    using register_correct [OF toy_reachable, of "[]" 1200 1200 "''db''" "[]" None "''10.0.0.9''"
        JNull n ev r'] x by simp
qed

section \<open>Worker announcements\<close>

lemma register_extra_outcome:
  assumes "dumpable L m (n_extra n)" "distinct (map fst kvs)"
    and "set_extras L m kvs (n, t) = (None, n', t')"
  shows "map_of (n_extra n') w =
    (case map_of kvs w of
       Some v \<Rightarrow> if w \<in> set (n_workers n) \<and> dump_size L v \<le> int m then Some v else map_of (n_extra n) w
     | None \<Rightarrow> map_of (n_extra n) w)"
  using assms
proof (induction kvs arbitrary: n t)
  case (Cons kv kvs)
  obtain k v where kv: "kv = (k, v)" by (cases kv)
  obtain b n1 t1 where r: "try_set_extra L m k v (n, t) = Inr (b, n1, t1)"
    using Cons.prems(3) kv by (auto split: sum.splits)
  have s: "booked L (n, t) (n1, t1)" "dumpable L m (n_extra n1)"
      "b \<longleftrightarrow> k \<in> set (n_workers n) \<and> (\<exists>s. json_dump L v = Inr s \<and> length s \<le> m)"
      "n_extra n1 = (if b then obj_set k v (n_extra n) else n_extra n)"
    using try_set_extra_cases [OF Cons.prems(1), of k v t] r by auto
  have w: "n_workers n1 = n_workers n" using s(1) by (auto elim: bookedE)
  have "k \<in> set (n_workers n) \<Longrightarrow> \<exists>s. json_dump L v = Inr s"
    using r Cons.prems(1) by (auto simp: try_set_extra_def Let_def)
  then have b: "b \<longleftrightarrow> k \<in> set (n_workers n) \<and> dump_size L v \<le> int m"
    using s(3) by (auto simp: dump_size_def split: sum.splits)
  have "map_of kvs k = None" using Cons.prems(2) kv by (auto simp: map_of_eq_None_iff)
  then show ?case using Cons.IH [OF s(2)] Cons.prems(2,3) r kv w s(4) b
    by (auto split: option.splits)
qed simp

text \<open>
  C14: A worker announcement is all or nothing: \<open>update_node_extra\<close> succeeds exactly when the node is
  known, lists the worker and the value prints within \<open>max_node_extra_bytes\<close>; then that worker's
  extra is the new value, every other worker's extra and every other node are unchanged and the
  observers are notified; otherwise the registry is unchanged and nobody is notified.
\<close>

theorem update_extra_correct:
  assumes "reg_reachable L sz m r" "update_node_extra L now nid w v r = (Inr b, ev, r')"
  shows "(b \<longleftrightarrow> (\<exists>n s. find_node r nid = Some n \<and> w \<in> set (n_workers n) \<and> json_dump L v = Inr s
              \<and> length s \<le> m)) \<and>
    (\<not> b \<longrightarrow> r' = r \<and> ev = None) \<and>
    (b \<longrightarrow> (\<exists>n n'. find_node r nid = Some n \<and> find_node r' nid = Some n' \<and>
        map_of (n_extra n') = (map_of (n_extra n))(w \<mapsto> v) \<and>
        n' = n\<lparr>n_extra := n_extra n', n_active_at := now\<rparr> \<and>
        ev = Some (map snd (r_cbs r), n')) \<and>
      (\<forall>k. k \<noteq> nid \<longrightarrow> find_node r' k = find_node r k))"
proof (cases "find_node r nid")
  case None
  then show ?thesis using assms(2) by (auto simp: update_node_extra_def)
next
  case (Some n)
  note ok = reachable_reg_ok [OF assms(1)] and m = reachable_max [OF assms(1)]
  have d: "dumpable L m (n_extra n)" using reg_ok_lookup [OF ok Some] m by (simp add: node_ok_def)
  obtain c n' t' where t: "try_set_extra L m w v (n, r_mem r) = Inr (c, n', t')"
    using assms(2) Some m by (auto simp: update_node_extra_def split: sum.splits)
  have s: "booked L (n, r_mem r) (n', t')"
      "c \<longleftrightarrow> w \<in> set (n_workers n) \<and> (\<exists>s. json_dump L v = Inr s \<and> length s \<le> m)"
      "n_extra n' = (if c then obj_set w v (n_extra n) else n_extra n)"
    using try_set_extra_cases [OF d, of w v "r_mem r"] t by auto
  show ?thesis
  proof (cases c)
    case False
    then show ?thesis using assms(2) Some m t s(2) by (auto simp: update_node_extra_def)
  next
    case True
    obtain x where "n' = n\<lparr>n_extra := x\<rparr>" using s(1) by (auto elim: bookedE)
    then show ?thesis using assms(2) Some m t s(2,3) True
      by (auto simp: update_node_extra_def Let_def put_node_def find_node_def map_of_update
          snapshot_callbacks_def)
  qed
qed

theorem update_extra_correct_witness:
  "update_node_extra toy_lib 1100 ''node-1000-1'' ''other'' (JUInt 7) toy_registry =
      (Inr False, None, toy_registry)"
proof -
  let ?u = "update_node_extra toy_lib 1100 ''node-1000-1'' ''other'' (JUInt 7) toy_registry"
  have "find_node toy_registry ''node-1000-1'' = Some n \<Longrightarrow> n_workers n = [''w'']" for n
    by (auto simp: toy_registry_def register_or_update_node_def generate_node_id_def registry_init_def
        node_id_string_def int_to_string_def nat_to_string.simps digit_char_def find_node_def
        put_node_def try_set_extra_def Let_def toy_lib_def split: if_splits)
  then have "fst ?u = Inr False"
    by (auto simp: update_node_extra_def try_set_extra_def split: option.split)
  then have "?u = (Inr False, fst (snd ?u), snd (snd ?u))" by (metis prod.collapse)
  from update_extra_correct [OF toy_reachable this] this show ?thesis by (metis prod.collapse)
qed

section \<open>Grace and expiry\<close>

definition expired :: "int \<Rightarrow> node_info \<Rightarrow> bool" where
  "expired now n = (n_status n = St_grace \<and> now - n_active_at n \<ge> 180)"

definition erased_copy :: "node_info \<Rightarrow> node_info" where
  "erased_copy n = n\<lparr>n_status := St_erased, n_expires_in := Some 0\<rparr>"

text \<open>An iteration order of the hash map: the same entries, in some order.\<close>

definition iteration :: "('a list \<Rightarrow> 'a list) \<Rightarrow> bool" where
  "iteration iter = (\<forall>xs. mset (iter xs) = mset xs)"

lemma iteration_set: "iteration iter \<Longrightarrow> set (iter xs) = set xs"
  unfolding iteration_def by (metis set_mset_mset)

lemma iteration_distinct: "iteration iter \<Longrightarrow> distinct (map fst xs) \<Longrightarrow> distinct (map fst (iter xs))"
proof -
  assume i: "iteration iter" and d: "distinct (map fst xs)"
  have "mset (map fst (iter xs)) = mset (map fst xs)" using i by (simp add: iteration_def)
  then show ?thesis using d mset_eq_imp_distinct_iff by blast
qed

lemma remove_lookup:
  assumes "reg_ok L r" "find_node r nid = Some n"
  obtains r' where "remove_node_permanently L sz nid r = (Inr True, Some (map snd (r_cbs r), erased_copy n), r')"
    "reg_ok L r'" "r_cbs r' = r_cbs r"
    "\<And>k. find_node r' k = (if k = nid then None else find_node r k)"
proof -
  obtain r' where r': "remove_node_permanently L sz nid r =
      (Inr True, Some (map snd (r_cbs r), erased_copy n), r')"
    "r_cbs r' = r_cbs r" "r_nodes r' = AList.delete nid (r_nodes r)"
    using remove_eq [OF assms(1), of sz nid] assms(2)
    by (simp add: erased_copy_def snapshot_callbacks_def)
  show thesis
    by (rule that [OF r'(1) remove_ok [OF assms(1) r'(1)] r'(2)])
      (simp add: find_node_def map_of_delete r'(3))
qed

lemma sweep_remove_known:
  assumes "reg_ok L r" "distinct ids" "\<And>k. k \<in> set ids \<Longrightarrow> find_node r k \<noteq> None"
  shows "\<exists>evs r'. sweep_remove L sz ids r = (None, evs, r') \<and> reg_ok L r' \<and>
    (\<forall>k. find_node r' k = (if k \<in> set ids then None else find_node r k)) \<and>
    evs = map (\<lambda>k. (map snd (r_cbs r), erased_copy (the (find_node r k)))) ids"
  using assms
proof (induction ids arbitrary: r)
  case (Cons i ids)
  obtain n where n: "find_node r i = Some n" using Cons.prems(3) [of i] by auto
  obtain r1 where r1: "remove_node_permanently L sz i r = (Inr True, Some (map snd (r_cbs r), erased_copy n), r1)"
    "reg_ok L r1" "r_cbs r1 = r_cbs r" "\<And>k. find_node r1 k = (if k = i then None else find_node r k)"
    using remove_lookup [OF Cons.prems(1) n] by blast
  have "\<And>k. k \<in> set ids \<Longrightarrow> find_node r1 k \<noteq> None" using Cons.prems(2,3) r1(4) by auto
  then obtain evs r' where *: "sweep_remove L sz ids r1 = (None, evs, r')" "reg_ok L r'"
    "\<forall>k. find_node r' k = (if k \<in> set ids then None else find_node r1 k)"
    "evs = map (\<lambda>k. (map snd (r_cbs r1), erased_copy (the (find_node r1 k)))) ids"
    using Cons.IH [OF r1(2)] Cons.prems(2) by auto
  have "evs = map (\<lambda>k. (map snd (r_cbs r), erased_copy (the (find_node r k)))) ids"
    unfolding *(4) using Cons.prems(2) r1(3,4) by auto
  then show ?case using * r1 n by (auto simp: Let_def)
qed simp

lemma sweep_collect_set:
  assumes "reg_ok L r" "iteration iter"
  shows "set (sweep_collect now iter r) = {k. \<exists>n. find_node r k = Some n \<and> expired now n} \<and>
    distinct (sweep_collect now iter r)"
proof -
  have d: "distinct (map fst (r_nodes r))" using assms(1) by (simp add: reg_ok_def)
  have "map_of (r_nodes r) k = Some n \<longleftrightarrow> (k, n) \<in> set (r_nodes r)" for k n
    using d by simp
  moreover have "distinct (map fst (iter (r_nodes r)))" by (rule iteration_distinct [OF assms(2) d])
  ultimately show ?thesis
    using iteration_set [OF assms(2), of "r_nodes r"]
    by (auto simp: sweep_collect_def expired_def find_node_def distinct_map_filter image_iff)
qed

lemma sweep_spec:
  assumes "reg_ok L r" "iteration iter"
  shows "\<exists>evs r'. sweep_expired_nodes L sz now iter r = (None, evs, r') \<and>
    (\<forall>k. find_node r' k = (case find_node r k of
        Some n \<Rightarrow> if expired now n then None else Some n | None \<Rightarrow> None)) \<and>
    distinct (map (n_id \<circ> snd) evs) \<and>
    set evs = {(map snd (r_cbs r), erased_copy n) | k n. find_node r k = Some n \<and> expired now n}"
proof -
  note ok = assms(1)
  let ?ids = "sweep_collect now iter r"
  have ids: "set ?ids = {k. \<exists>n. find_node r k = Some n \<and> expired now n}" "distinct ?ids"
    using sweep_collect_set [OF ok assms(2), of now] by auto
  then obtain evs r' where *: "sweep_remove L sz ?ids r = (None, evs, r')"
    "\<forall>k. find_node r' k = (if k \<in> set ?ids then None else find_node r k)"
    "evs = map (\<lambda>k. (map snd (r_cbs r), erased_copy (the (find_node r k)))) ?ids"
    using sweep_remove_known [OF ok, of ?ids sz] by auto
  have "map (n_id \<circ> snd) evs = ?ids"
    unfolding *(3) map_map using ids(1) reg_ok_lookup [OF ok]
    by (intro map_idI) (auto simp: erased_copy_def)
  moreover have "set evs = {(map snd (r_cbs r), erased_copy n) | k n. find_node r k = Some n \<and> expired now n}"
  proof -
    have "(\<lambda>k. (map snd (r_cbs r), erased_copy (the (find_node r k)))) ` {k. \<exists>n. find_node r k = Some n \<and> expired now n}
      = {(map snd (r_cbs r), erased_copy n) | k n. find_node r k = Some n \<and> expired now n}"
      by force
    then show ?thesis unfolding *(3) set_map ids(1) .
  qed
  moreover have "find_node r' k = (case find_node r k of
        Some n \<Rightarrow> if expired now n then None else Some n | None \<Rightarrow> None)" for k
    using *(2) ids(1) by (auto split: option.split)
  ultimately show ?thesis using * ids(2) unfolding sweep_expired_nodes_def by metis
qed


lemma iteration_id [simp]: "iteration (\<lambda>xs. xs)" "iteration rev"
  by (simp_all add: iteration_def)



lemma toy_node:
  "\<exists>n. find_node toy_registry ''node-1000-1'' = Some n \<and> n_status n = St_ok \<and> n_role n = ''api''"
  by (auto simp: toy_registry_def register_or_update_node_def generate_node_id_def registry_init_def
      node_id_string_def int_to_string_def nat_to_string.simps digit_char_eval find_node_def
      put_node_def try_set_extra_def Let_def toy_lib_def)


text \<open>
  The two phases of the sweep are not atomic: a node collected as expired that re-registers before
  the second phase is removed all the same, although it is OK by then.
\<close>

lemma sweep_removes_restored:
  assumes "reg_ok L r" "iteration iter" "nid \<in> set (sweep_collect now iter r)"
    and "restore_node_active now nid r = (b, ev, r1)"
  shows "\<exists>n. find_node r1 nid = Some n \<and> n_status n = St_ok \<and>
    find_node (snd (snd (remove_node_permanently L sz nid r1))) nid = None"
proof -
  obtain n where n: "find_node r nid = Some n" using sweep_collect_set [OF assms(1,2)] assms(3) by auto
  let ?n = "n\<lparr>n_status := St_ok, n_active_at := now, n_expires_in := None\<rparr>"
  have r1: "r1 = put_node nid ?n r" using assms(4) n by (simp add: restore_node_active_def Let_def)
  then have "find_node r1 nid = Some ?n" by (simp add: find_node_def put_node_def map_of_update)
  moreover from this obtain r2 where "remove_node_permanently L sz nid r1 =
      (Inr True, Some (map snd (r_cbs r1), erased_copy ?n), r2)" "find_node r2 nid = None"
    using remove_lookup [OF restore_ok [OF assms(1,4)], of nid ?n sz] by metis
  ultimately show ?thesis by simp
qed

section \<open>Resolution\<close>

text \<open>\<open>m\<close> consecutive resolutions of one role and worker.\<close>

fun resolve_times :: "((string \<times> node_info) list \<Rightarrow> (string \<times> node_info) list) \<Rightarrow> string \<Rightarrow> string \<Rightarrow>
    nat \<Rightarrow> 'cb registry \<Rightarrow> node_info option list" where
  "resolve_times iter role worker 0 r = []"
| "resolve_times iter role worker (Suc k) r =
     (let (x, r') = resolve_node iter role worker r in x # resolve_times iter role worker k r')"

lemma resolve_times_pick:
  "resolve_times iter role worker k r =
     fst (pick_times rr_pick (role @ '':'' @ worker) (candidates role worker (iter (r_nodes r))) k (r_rr r))"
  by (induction k arbitrary: r) (simp_all add: resolve_node_def Let_def split_beta)

definition suitable :: "'cb registry \<Rightarrow> string \<Rightarrow> string \<Rightarrow> node_info set" where
  "suitable r role w = {n. find_node r (n_id n) = Some n \<and> n_status n = St_ok \<and> n_role n = role \<and>
     (w = [] \<or> w \<in> set (n_workers n))}"

lemma candidates_registered:
  assumes "reg_ok L r" "iteration iter"
  shows "set (candidates role w (iter (r_nodes r))) = suitable r role w"
proof -
  have k: "\<forall>kn \<in> set (r_nodes r). fst kn = n_id (snd kn)" using assms(1) by (auto simp: reg_ok_def)
  have "n \<in> snd ` set (r_nodes r) \<longleftrightarrow> (n_id n, n) \<in> set (r_nodes r)" for n
  proof
    assume "n \<in> snd ` set (r_nodes r)"
    then obtain kn where "kn \<in> set (r_nodes r)" "snd kn = n" by blast
    then show "(n_id n, n) \<in> set (r_nodes r)" using k by (metis prod.collapse)
  qed (force simp: image_iff)
  moreover have "find_node r (n_id n) = Some n \<longleftrightarrow> (n_id n, n) \<in> set (r_nodes r)" for n
    using assms(1) by (simp add: reg_ok_def find_node_def)
  ultimately have "n \<in> snd ` set (r_nodes r) \<longleftrightarrow> find_node r (n_id n) = Some n" for n by simp
  then show ?thesis
    using iteration_set [OF assms(2), of "r_nodes r"] by (auto simp: suitable_def candidates_def)
qed

lemma candidates_distinct:
  assumes "reg_ok L r" "iteration iter"
  shows "distinct (candidates role w (iter (r_nodes r)))"
proof -
  have "distinct (map fst (iter (r_nodes r)))"
    using assms(1) iteration_distinct [OF assms(2)] by (simp add: reg_ok_def)
  moreover have "map fst (iter (r_nodes r)) = map n_id (map snd (iter (r_nodes r)))"
    using assms(1) iteration_set [OF assms(2), of "r_nodes r"] by (auto simp: reg_ok_def)
  ultimately have "distinct (map n_id (map snd (iter (r_nodes r))))" by simp
  then have "distinct (map snd (iter (r_nodes r)))" unfolding distinct_map by blast
  then show ?thesis by (simp add: candidates_def)
qed

text \<open>
  C13: Round-robin resolution is sound and fair: with \<open>n\<close> suitable nodes (registered, OK, of the role,
  offering the worker if one is named), the next \<open>n\<close> resolutions return each of them exactly once,
  wherever the cursor stands and whatever the map's iteration order; with none, nothing is returned.
\<close>

theorem resolve_fair:
  assumes "reg_reachable L sz m r" "iteration iter"
  shows "if suitable r role w = {} then fst (resolve_node iter role w r) = None
    else distinct (resolve_times iter role w (card (suitable r role w)) r) \<and>
         set (resolve_times iter role w (card (suitable r role w)) r) = Some ` suitable r role w"
proof -
  note ok = reachable_reg_ok [OF assms(1)]
  let ?cs = "candidates role w (iter (r_nodes r))" and ?key = "role @ '':'' @ w"
  have s: "set ?cs = suitable r role w" by (rule candidates_registered [OF ok assms(2)])
  have d: "distinct ?cs" by (rule candidates_distinct [OF ok assms(2)])
  have c: "card (suitable r role w) = length ?cs" using distinct_card [OF d] by (simp add: s)
  show ?thesis
  proof (cases "?cs = []")
    case True
    then show ?thesis using s by (auto simp: resolve_node_def rr_pick_def)
  next
    case False
    have "resolve_times iter role w (card (suitable r role w)) r = map Some (rotate (rr_cursor (r_rr r) ?key) ?cs)"
      unfolding resolve_times_pick c by (rule rr.full_round [OF False])
    then show ?thesis using False s d by (auto simp: distinct_map)
  qed
qed

theorem resolve_fair_witness:
  "\<exists>n. resolve_times rev ''api'' [] 1 toy_registry = [Some n]"
proof -
  let ?s = "suitable toy_registry ''api'' []"
  obtain n where n: "find_node toy_registry ''node-1000-1'' = Some n" "n_status n = St_ok"
      "n_role n = ''api''" using toy_node by blast
  have "n_id n = ''node-1000-1''"
    using reg_ok_lookup [OF reachable_reg_ok [OF toy_reachable] n(1)] by simp
  then have "n \<in> ?s" using n by (simp add: suitable_def)
  then have "?s \<noteq> {}" by blast
  then have f: "set (resolve_times rev ''api'' [] (card ?s) toy_registry) = Some ` ?s"
    using resolve_fair [OF toy_reachable iteration_id(2), of "''api''" "[]"] by metis
  have "resolve_times rev ''api'' [] 1 toy_registry =
      [fst (resolve_node rev ''api'' [] toy_registry)]"
    by (simp add: split_beta)
  moreover have "fst (resolve_node rev ''api'' [] toy_registry) \<noteq> None"
  proof -
    obtain c where c: "card ?s = Suc c"
      using f \<open>n \<in> ?s\<close> by (cases "card ?s") auto
    have "fst (resolve_node rev ''api'' [] toy_registry) \<in> Some ` ?s"
      unfolding f [symmetric] c by (simp add: split_beta)
    then show ?thesis by auto
  qed
  ultimately show ?thesis by auto
qed

section \<open>Pagination\<close>

lemma page_of_plain:
  assumes "1 \<le> page" "page * cnt < 2 ^ 64"
  shows "page_of page cnt xs = Inr (length xs, take cnt (drop ((page - 1) * cnt) xs))"
proof -
  have e: "(page - 1) * cnt + cnt = page * cnt" using assms(1) by (cases page) auto
  have w: "wrap64 ((page - 1) * cnt) = (page - 1) * cnt"
    "wrap64 ((page - 1) * cnt + cnt) = (page - 1) * cnt + cnt"
    using assms(2) e by (simp_all add: wrap64_def)
  show ?thesis
  proof (cases "(page - 1) * cnt < length xs")
    case True
    have "take (min ((page - 1) * cnt + cnt) (length xs) - (page - 1) * cnt) (drop ((page - 1) * cnt) xs)
        = take cnt (drop ((page - 1) * cnt) xs)"
      by (simp add: min_def)
    then show ?thesis using True assms(1) w by (auto simp: page_of_def Let_def)
  qed (use assms(1) w in \<open>auto simp: page_of_def Let_def\<close>)
qed

lemma pages_concat:
  "concat (map (\<lambda>p. take cnt (drop (p * cnt) xs)) [0..<k]) = take (k * cnt) xs"
proof (induction k)
  case (Suc k)
  have "Suc k * cnt = k * cnt + cnt" by simp
  then have "take (Suc k * cnt) xs = take (k * cnt) xs @ take cnt (drop (k * cnt) xs)"
    by (simp only: take_add)
  with Suc show ?case by simp
qed simp

lemma query_matched_ids:
  assumes "reg_ok L r" "iteration iter"
  shows "distinct (map n_id (query_matched now iter rolef workf r)) \<and>
    set (map n_id (query_matched now iter rolef workf r)) =
      {nid. \<exists>n. find_node r nid = Some n \<and> matches_filter rolef workf n}"
proof -
  let ?ns = "map snd (iter (r_nodes r))"
  have i: "map n_id (query_matched now iter rolef workf r) = map n_id (filter (matches_filter rolef workf) ?ns)"
    by (simp add: query_matched_def)
  have k: "\<forall>kn \<in> set (iter (r_nodes r)). fst kn = n_id (snd kn)"
    using assms(1) iteration_set [OF assms(2), of "r_nodes r"] by (auto simp: reg_ok_def)
  then have m: "map n_id ?ns = map fst (iter (r_nodes r))" by simp
  have d: "distinct (map n_id ?ns)"
    unfolding m using assms(1) iteration_distinct [OF assms(2)] by (simp add: reg_ok_def)
  have f: "find_node r nid = Some n \<longleftrightarrow> (nid, n) \<in> set (iter (r_nodes r))" for nid n
    using assms(1) iteration_set [OF assms(2), of "r_nodes r"] by (simp add: reg_ok_def find_node_def)
  have "n_id ` {n \<in> snd ` set (iter (r_nodes r)). matches_filter rolef workf n} =
      {nid. \<exists>n. (nid, n) \<in> set (iter (r_nodes r)) \<and> matches_filter rolef workf n}"
    using k by force
  then show ?thesis unfolding i f using d by (simp add: distinct_map_filter)
qed

text \<open>
  C15: Paging through \<open>/registry\<close> is complete and exact: with the map unchanged, asking for pages
  \<open>1\<close> to \<open>k\<close> of \<open>cnt\<close> nodes (enough to cover the matches, and \<open>k * cnt\<close> below \<open>2 ^ 64\<close>) returns every
  node the filters select exactly once, in pages of at most \<open>cnt\<close>, each page reporting the total.
\<close>

theorem query_pages_partition:
  assumes "reg_reachable L sz m r" "iteration iter" "k * cnt < 2 ^ 64"
    and "length (query_matched now iter rolef workf r) \<le> k * cnt"
  shows "\<exists>pages. map (\<lambda>p. query_registry now iter p cnt rolef workf r) [1..<Suc k] =
      map (\<lambda>pg. Inr (card {nid. \<exists>n. find_node r nid = Some n \<and> matches_filter rolef workf n}, pg)) pages \<and>
    (\<forall>pg \<in> set pages. length pg \<le> cnt) \<and> distinct (map n_id (concat pages)) \<and>
    set (map n_id (concat pages)) = {nid. \<exists>n. find_node r nid = Some n \<and> matches_filter rolef workf n}"
proof -
  let ?xs = "query_matched now iter rolef workf r" and ?S = "{nid. \<exists>n. find_node r nid = Some n \<and> matches_filter rolef workf n}"
  let ?pages = "map (\<lambda>p. take cnt (drop (p * cnt) ?xs)) [0..<k]"
  have q: "distinct (map n_id ?xs)" "set (map n_id ?xs) = ?S"
    using query_matched_ids [OF reachable_reg_ok [OF assms(1)] assms(2)] by auto
  have n: "card ?S = length ?xs" using distinct_card [OF q(1)] q(2) by simp
  have "query_registry now iter (Suc p) cnt rolef workf r = Inr (card ?S, take cnt (drop (p * cnt) ?xs))"
    if "p < k" for p
  proof -
    have "Suc p * cnt \<le> k * cnt" using that by (intro mult_le_mono1) simp
    then have "Suc p * cnt < 2 ^ 64" using assms(3) by (rule le_less_trans)
    then show ?thesis using page_of_plain [of "Suc p" cnt ?xs] by (simp add: query_registry_def n)
  qed
  then have "map (\<lambda>p. query_registry now iter p cnt rolef workf r) (map Suc [0..<k]) =
      map (\<lambda>pg. Inr (card ?S, pg)) ?pages"
    by simp
  moreover have "concat ?pages = ?xs" using assms(4) by (simp add: pages_concat)
  ultimately show ?thesis using q by (intro exI [of _ ?pages]) (auto simp: map_Suc_upt)
qed

theorem query_pages_partition_witness:
  "\<exists>pages. map (\<lambda>p. query_registry 1100 rev p 50 [] [] toy_registry) [1..<Suc 1] =
      map (\<lambda>pg. Inr (card {nid. \<exists>n. find_node toy_registry nid = Some n \<and> matches_filter [] [] n}, pg)) pages"
proof -
  have "length (r_nodes toy_registry) \<le> 1"
    by (simp add: toy_registry_def register_or_update_node_def generate_node_id_def registry_init_def
        find_node_def put_node_def Let_def split: prod.split option.split)
  then have "length (query_matched 1100 rev [] [] toy_registry) \<le> 1 * 50"
    using length_filter_le [of "matches_filter [] []" "map snd (rev (r_nodes toy_registry))"]
    by (simp add: query_matched_def)
  then show ?thesis
    using query_pages_partition [OF toy_reachable iteration_id(2), of 1 50 1100 "[]" "[]"]
    by fastforce
qed

text \<open>
  The page arithmetic is unchecked: for the page number \<open>2 ^ 64 - 1\<close> and the page size
  \<open>2 ^ 64 - 1\<close>, both accepted from the query string, the product wraps to index 2 and the end to
  index 1, so with at least three matching nodes the vector is built from a range that ends before
  it starts.
\<close>

theorem query_page_overflow:
  assumes "3 \<le> length (query_matched now iter rolef workf r)"
  shows "query_registry now iter (2 ^ 64 - 1) (2 ^ 64 - 1) rolef workf r = Inl Out_of_bounds"
proof -
  have "wrap64 ((2 ^ 64 - 1 - 1) * (2 ^ 64 - 1)) = 2" "wrap64 (2 + (2 ^ 64 - 1)) = 1"
    by (simp_all add: wrap64_def)
  then show ?thesis using assms by (simp add: query_registry_def page_of_def Let_def)
qed

theorem query_page_overflow_witness:
  "query_registry 0 (\<lambda>xs. xs) (2 ^ 64 - 1) (2 ^ 64 - 1) [] []
     ((registry_init 8192 :: nat registry)\<lparr>r_nodes := [(''a'', sample_node), (''b'', sample_node), (''c'', sample_node)]\<rparr>)
   = Inl Out_of_bounds"
  by (rule query_page_overflow) (simp add: query_matched_def matches_filter_def sample_node_def)

section \<open>Statistics\<close>

definition count_in :: "(string \<times> nat) list \<Rightarrow> string \<Rightarrow> nat" where
  "count_in m k = (case map_of m k of None \<Rightarrow> 0 | Some c \<Rightarrow> c)"

lemma count_in_Nil [simp]: "count_in [] k = 0"
  by (simp add: count_in_def)

lemma count_in_bump [simp]: "count_in (bump k m) j = count_in m j + (if j = k then 1 else 0)"
  by (simp add: count_in_def bump_def map_of_update)

lemma count_in_bumps [simp]: "count_in (fold bump ks m) j = count_in m j + count_list ks j"
  by (induction ks arbitrary: m) auto

lemma stats_fold:
  "total_nodes (fold stats_node kns s) = total_nodes s \<and>
   alive_nodes (fold stats_node kns s) =
     alive_nodes s + length (filter (\<lambda>kn. n_status (snd kn) = St_ok) kns) \<and>
   grace_nodes (fold stats_node kns s) =
     grace_nodes s + length (filter (\<lambda>kn. n_status (snd kn) = St_grace) kns) \<and>
   count_in (stat_roles (fold stats_node kns s)) role =
     count_in (stat_roles s) role + length (filter (\<lambda>kn. n_role (snd kn) = role) kns) \<and>
   count_in (stat_workers (fold stats_node kns s)) w =
     count_in (stat_workers s) w + (\<Sum>kn\<leftarrow>kns. count_list (n_workers (snd kn)) w)"
proof (induction kns arbitrary: s)
  case (Cons kn kns)
  then show ?case by (cases "n_status (snd kn)") (simp_all add: stats_node_def Let_def)
qed simp

lemma iteration_filter: "iteration iter \<Longrightarrow> length (filter P (iter xs)) = length (filter P xs)"
  unfolding iteration_def by (metis mset_filter size_mset)

lemma iteration_sum:
  fixes f :: "'a \<Rightarrow> nat"
  shows "iteration iter \<Longrightarrow> (\<Sum>x\<leftarrow>iter xs. f x) = (\<Sum>x\<leftarrow>xs. f x)"
  unfolding iteration_def by (metis mset_map sum_mset_sum_list)

text \<open>
  The statistics of \<open>/status\<close> add up, whatever the iteration order: the total is the number of
  nodes, every node is counted as alive or in grace, and the counts per role and per worker are the
  numbers of nodes with that role and of announcements of that worker.
\<close>

theorem stats_correct:
  assumes "reg_reachable L sz m r" "iteration iter"
  shows "let s = get_stats iter r in
    total_nodes s = length (r_nodes r) \<and> alive_nodes s + grace_nodes s = total_nodes s \<and>
    alive_nodes s = length (filter (\<lambda>kn. n_status (snd kn) = St_ok) (r_nodes r)) \<and>
    count_in (stat_roles s) role = length (filter (\<lambda>kn. n_role (snd kn) = role) (r_nodes r)) \<and>
    count_in (stat_workers s) w = (\<Sum>kn\<leftarrow>r_nodes r. count_list (n_workers (snd kn)) w)"
proof -
  have "\<forall>kn \<in> set (r_nodes r). (n_status (snd kn) = St_grace) = (n_status (snd kn) \<noteq> St_ok)"
    using reachable_reg_ok [OF assms(1)] by (fastforce simp: reg_ok_def node_ok_def)
  then have "filter (\<lambda>kn. n_status (snd kn) = St_grace) (r_nodes r) =
      filter (\<lambda>kn. \<not> n_status (snd kn) = St_ok) (r_nodes r)"
    by (intro filter_cong) auto
  then show ?thesis
    using sum_length_filter_compl [of "\<lambda>kn. n_status (snd kn) = St_ok" "r_nodes r"]
    by (simp add: Let_def get_stats_def stats_fold iteration_filter [OF assms(2)]
        iteration_sum [OF assms(2)])
qed

theorem stats_correct_witness:
  "alive_nodes (get_stats rev toy_registry) + grace_nodes (get_stats rev toy_registry) =
     length (r_nodes toy_registry)"
  using stats_correct [OF toy_reachable iteration_id(2)] unfolding Let_def by metis

section \<open>The registry gauge\<close>

text \<open>
  The gauge of registry bytes is not net-zero: a registration books the length of the role at
  that time, a re-registration of the same node books nothing, and the removal releases the length
  of the latest role, so registering under one role, re-registering under another and being removed
  leaves their difference in the gauge for good.
\<close>

theorem registry_gauge_drift:
  assumes "reg_reachable L sz m r"
    and "register_or_update_node L sz t1 t1' role1 ws ep ip [] JNull r = (Inr n1, ev1, r1)"
    and "register_or_update_node L sz t2 t2' role2 ws ep ip (n_id n1) JNull r1 = (Inr n2, ev2, r2)"
    and "remove_node_permanently L sz (n_id n1) r2 = (b, ev3, r3)"
  shows "registry_bytes (r_mem r3) =
    registry_bytes (r_mem r) + word_of_int (int (length role1) - int (length role2))"
proof -
  have one: "registry_bytes (r_mem r') = registry_bytes (r_mem q) +
        (case find_node q (n_id n) of None \<Rightarrow> word_of_int (int (sz + length role + length (n_id n))) | Some old \<Rightarrow> 0)
      \<and> find_node r' (n_id n) = Some n \<and> n_role n = role \<and> issued (r_id_counter r') (n_id n)
      \<and> (if existing = [] then find_node q (n_id n) = None else n_id n = existing)"
    if q: "reg_ok L q" and ex: "existing = [] \<or> issued (r_id_counter q) existing"
      and reg: "register_or_update_node L sz t t' role ws ep ip existing JNull q = (Inr n, ev, r')"
    for q r' :: "'a registry" and existing t t' role n ev
    using q ex reg
  proof (rule register_outcome)
    fix nid c n' u n'' u' e
    assume st: "register_stage L sz t t' role ws ep ip existing q nid c n' u"
      and i: "issued c nid"
      and e: "(e, n'', u') = (case JNull of JObj kvs \<Rightarrow> set_extras L (r_max_extra q) kvs (n', u) | _ \<Rightarrow> (None, n', u))"
      and r': "r' = put_node nid n'' (q\<lparr>r_id_counter := c, r_mem := u'\<rparr>)"
      and res: "Inr n = (case e of Some x \<Rightarrow> Inl x | None \<Rightarrow> Inr n'')"
    have n: "n'' = n'" "u' = u" "n = n'" using e res by auto
    have "existing = [] \<Longrightarrow> find_node q nid = None"
      using st fresh_id [OF q] by (simp add: register_stage_def)
    moreover have "n_role n' = role" "existing \<noteq> [] \<Longrightarrow> nid = existing"
      "registry_bytes u = registry_bytes (r_mem q) + (case find_node q nid of
        None \<Rightarrow> word_of_int (int (sz + length role + length nid)) | Some old \<Rightarrow> 0)"
      using st unfolding register_stage_def by (simp_all only: node_info.simps if_False)
    ultimately show ?thesis using i node_ok_stage(2) [OF st] unfolding n r'
      by (auto simp: put_node_def find_node_def map_of_update)
  qed
  note ok = reachable_reg_ok [OF assms(1)]
  have a: "registry_bytes (r_mem r1) = registry_bytes (r_mem r) +
      word_of_int (int (sz + length role1 + length (n_id n1)))"
    "find_node r1 (n_id n1) = Some n1" "issued (r_id_counter r1) (n_id n1)"
    using one [OF ok _ assms(2)] by auto
  have "n_id n1 \<noteq> []" using a(3) by (auto simp: issued_def node_id_string_def)
  then have b: "registry_bytes (r_mem r2) = registry_bytes (r_mem r1)" "find_node r2 (n_id n1) = Some n2"
    "n_role n2 = role2" "n_id n2 = n_id n1"
    using one [OF register_ok [OF ok _ assms(2)] _ assms(3)] a(2,3) by auto
  have "reg_ok L r2" using register_ok [OF register_ok [OF ok _ assms(2)] _ assms(3)] a(3) by simp
  from remove_eq [OF this, of sz "n_id n1"] assms(4) b(2) have "registry_bytes (r_mem r3) =
      registry_bytes (r_mem r2) + word_of_int (- int (sz + length role2 + length (n_id n1)))"
    using b(3,4) by auto
  also have "\<dots> = registry_bytes (r_mem r) + (word_of_int (int (sz + length role1 + length (n_id n1))) +
      word_of_int (- int (sz + length role2 + length (n_id n1))))"
    using a(1) b(1) by simp
  also have "\<dots> = registry_bytes (r_mem r) + word_of_int (int (length role1) - int (length role2))"
    unfolding wi_hom_add by simp
  finally show ?thesis .
qed

definition toy_rename :: "string \<Rightarrow> string \<Rightarrow> nat registry \<Rightarrow> node_info res \<times> nat notification option \<times> nat registry"
where
  "toy_rename role existing r =
     register_or_update_node toy_lib 200 1000 1000 role [] None ''10.0.0.9'' existing JNull r"

theorem registry_gauge_drift_witness:
  "\<exists>r. reg_reachable toy_lib 200 8192 (r :: nat registry) \<and> r_nodes r = [] \<and>
     registry_bytes (r_mem r) = word_of_int 1"
proof -
  let ?r0 = "registry_init 8192 :: nat registry" and ?nid = "node_id_string 1000 1"
  have ne: "?nid \<noteq> []" by (simp add: node_id_string_def)
  obtain n1 ev1 r1 where 1: "toy_rename ''ab'' [] ?r0 = (Inr n1, ev1, r1)" "n_id n1 = ?nid"
      "r_nodes r1 = [(?nid, n1)]" "r_id_counter r1 = 2"
    by (simp add: toy_rename_def register_or_update_node_def generate_node_id_def registry_init_def
        find_node_def put_node_def Let_def)
  note reach1 = reg_reachable.register [OF reg_reachable.start [of toy_lib 200 8192] _ 1(1) [unfolded toy_rename_def], simplified]
  have i: "issued (r_id_counter r1) ?nid" unfolding issued_def 1(4) by (intro exI [of _ 1000] exI [of _ 1]) simp
  have "n_extra n1 = []"
    using 1(1) by (auto simp: toy_rename_def register_or_update_node_def generate_node_id_def
        registry_init_def find_node_def put_node_def Let_def)
  then obtain n2 ev2 r2 where 2: "toy_rename ''a'' ?nid r1 = (Inr n2, ev2, r2)" "r_nodes r2 = [(?nid, n2)]"
    using ne 1(3) by (simp add: toy_rename_def register_or_update_node_def find_node_def put_node_def
        prune_stale_extra_def stale_keys_def Let_def)
  note reach2 = reg_reachable.register [OF reach1 _ 2(1) [unfolded toy_rename_def]]
  obtain b ev3 r3 where 3: "remove_node_permanently toy_lib 200 ?nid r2 = (b, ev3, r3)" "r_nodes r3 = []"
    using reachable_reg_ok [OF reach2] i remove_eq [of toy_lib r2 200 ?nid] 2(2)
    by (simp add: find_node_def)
  have "registry_bytes (r_mem r3) = registry_bytes (r_mem ?r0) + word_of_int (int (length ''ab'') - int (length ''a''))"
    by (rule registry_gauge_drift [OF reg_reachable.start 1(1) [unfolded toy_rename_def]
          2(1) [unfolded toy_rename_def, folded 1(2)] 3(1) [folded 1(2)]])
  then have "registry_bytes (r_mem r3) = word_of_int 1"
    by (simp add: registry_init_def tracker_init_def)
  moreover have "reg_reachable toy_lib 200 8192 r3"
    using reg_reachable.remove [OF reach2 3(1)] i by simp
  ultimately show ?thesis using 3(2) by blast
qed

end
