(* ===== verification/MqttSession.thy ===== *)
theory MqttSession
  imports MqttTopic MqttPacket WebSocket ConnGuard RegistryProps
begin

text \<open>
  The MQTT sessions and their server (\<open>include/apr/tcp_session.hpp\<close>, \<open>src/mqtt/mqtt_server.hpp\<close>,
  \<open>mqtt_server.cpp\<close>).

  A session is an index into the list of the sessions created so far; the objects they share (the
  registry with the memory tracker, the connection guard) are in the same world. \<open>ms_listed\<close> is
  membership in the server's \<open>sessions_\<close>, \<open>ms_reading\<close> says that an \<open>async_read_some\<close> is pending,
  and \<open>ms_writes\<close> are the issued \<open>async_write\<close>s whose completion handler has not run yet. A handler
  returns the exception that leaves it, if one does, and the world it leaves behind. The registry's
  observers are the servers, by number: \<open>deliver\<close> calls them in order, as the registry does after
  unlocking.
\<close>

section \<open>Sessions and the world they share\<close>

datatype mqtt_write =
    Packet_write bytes
  | Closing_write bytes
  | Handshake_write string
  | Pong_write bytes

record mqtt_session =
  ms_server :: nat
  ms_peer :: string
  ms_closed :: bool
  ms_listed :: bool
  ms_reading :: bool
  ms_writes :: "mqtt_write list"
  ms_acc :: "byte stream_acc"
  ms_is_ws :: bool
  ms_handshake_done :: bool
  ms_authenticated :: bool
  ms_closing :: bool
  ms_client_id :: string
  ms_username :: string
  ms_role :: string
  ms_node_id :: string
  ms_subs :: "string list"

record mqtt_env =
  me_lib :: json_lib
  me_access_key :: string
  me_node_size :: nat
  me_max_buffer :: nat
  me_now :: int
  me_id_time :: int

record mqtt_world =
  mw_sessions :: "mqtt_session list"
  mw_registry :: "nat registry"
  mw_guard :: guard

definition mqtt_session_new :: "nat \<Rightarrow> string \<Rightarrow> mqtt_session" where
  "mqtt_session_new server peer = \<lparr>ms_server = server, ms_peer = peer, ms_closed = False,
     ms_listed = False, ms_reading = False, ms_writes = [], ms_acc = acc_empty, ms_is_ws = False,
     ms_handshake_done = False, ms_authenticated = False, ms_closing = False, ms_client_id = [],
     ms_username = [], ms_role = [], ms_node_id = [], ms_subs = []\<rparr>"

abbreviation sess :: "mqtt_world \<Rightarrow> nat \<Rightarrow> mqtt_session" where
  "sess w i \<equiv> mw_sessions w ! i"

definition upd_sess :: "nat \<Rightarrow> (mqtt_session \<Rightarrow> mqtt_session) \<Rightarrow> mqtt_world \<Rightarrow> mqtt_world" where
  "upd_sess i f w = w\<lparr>mw_sessions := (mw_sessions w)[i := f (sess w i)]\<rparr>"

text \<open>
  Sequencing of statements that may throw, and the \<open>try { .. } catch (const std::exception&)\<close> that
  only logs.
\<close>

type_synonym 'w outcome = "fault option \<times> 'w"

fun and_then :: "'w outcome \<Rightarrow> ('w \<Rightarrow> 'w outcome) \<Rightarrow> 'w outcome" where
  "and_then (None, w) f = f w"
| "and_then (Some e, w) f = (Some e, w)"

fun caught :: "'w outcome \<Rightarrow> 'w outcome" where
  "caught (Some e, w) = (if e = Out_of_bounds then (Some e, w) else (None, w))"
| "caught (None, w) = (None, w)"

section \<open>Sending\<close>

definition queue_write :: "nat \<Rightarrow> mqtt_write \<Rightarrow> mqtt_world \<Rightarrow> mqtt_world" where
  "queue_write i x w = upd_sess i (\<lambda>s. s\<lparr>ms_writes := ms_writes s @ [x]\<rparr>) w"

definition track_mem :: "(memory_tracker \<Rightarrow> memory_tracker) \<Rightarrow> mqtt_world \<Rightarrow> mqtt_world" where
  "track_mem f w = w\<lparr>mw_registry := (mw_registry w)\<lparr>r_mem := f (r_mem (mw_registry w))\<rparr>\<rparr>"

definition send_raw :: "nat \<Rightarrow> bytes \<Rightarrow> bool \<Rightarrow> mqtt_world \<Rightarrow> mqtt_world" where
  "send_raw i data already_framed w =
     (let send_buf = (if ms_is_ws (sess w i) \<and> \<not> already_framed then encode_frame data 0x02 else data)
      in queue_write i (Packet_write send_buf) (track_mem (add_mqtt_tx_bytes (int (length send_buf))) w))"

definition send_raw_and_close :: "nat \<Rightarrow> bytes \<Rightarrow> mqtt_world \<Rightarrow> mqtt_world" where
  "send_raw_and_close i data w =
     (let w = upd_sess i (\<lambda>s. s\<lparr>ms_closing := True\<rparr>) w;
          send_buf = (if ms_is_ws (sess w i) then encode_frame data 0x02 else data)
      in queue_write i (Closing_write send_buf) (track_mem (add_mqtt_tx_bytes (int (length send_buf))) w))"

definition matches_topic :: "mqtt_session \<Rightarrow> string \<Rightarrow> bool" where
  "matches_topic s topic = list_ex (\<lambda>pat. topic_matches pat topic) (ms_subs s)"

text \<open>
  \<open>mqtt_server::broadcast\<close>. The code iterates over a hash set; each session gets its own write, so
  the order is immaterial and here it is the order of creation.
\<close>

definition broadcast_one :: "nat \<Rightarrow> string \<Rightarrow> bytes \<Rightarrow> nat \<Rightarrow> mqtt_world \<Rightarrow> mqtt_world" where
  "broadcast_one server topic packet i w =
     (let s = sess w i
      in if \<not> (ms_listed s \<and> ms_server s = server) \<or> \<not> matches_topic s topic then w
         else if ms_is_ws s then send_raw i (encode_frame packet 0x02) True w
         else send_raw i packet False w)"

definition broadcast :: "nat \<Rightarrow> string \<Rightarrow> string \<Rightarrow> mqtt_world \<Rightarrow> mqtt_world" where
  "broadcast server topic payload w =
     (let packet = encode_publish topic payload 0 0
      in fold (broadcast_one server topic packet) [0..<length (mw_sessions w)] w)"

text \<open>The registry's observers: each server prints the node and broadcasts it on \<open>apr/<role>\<close>.\<close>

fun deliver_to :: "mqtt_env \<Rightarrow> nat list \<Rightarrow> node_info \<Rightarrow> mqtt_world \<Rightarrow> mqtt_world outcome" where
  "deliver_to env [] node w = (None, w)"
| "deliver_to env (server # servers) node w =
     (case json_dump (me_lib env) (node_to_json node) of
        Inl e \<Rightarrow> (Some e, w)
      | Inr payload \<Rightarrow>
          deliver_to env servers node (broadcast server (''apr/'' @ n_role node) payload w))"

definition deliver :: "mqtt_env \<Rightarrow> nat notification option \<Rightarrow> mqtt_world \<Rightarrow> mqtt_world outcome" where
  "deliver env ev w = (case ev of None \<Rightarrow> (None, w) | Some (cbs, node) \<Rightarrow> deliver_to env cbs node w)"

section \<open>Closing\<close>

definition on_before_close :: "mqtt_env \<Rightarrow> nat \<Rightarrow> mqtt_world \<Rightarrow> mqtt_world outcome" where
  "on_before_close env i w =
     (let w = w\<lparr>mw_guard := release (ms_peer (sess w i)) (mw_guard w)\<rparr>
      in if ms_node_id (sess w i) \<noteq> []
         then let (_, ev, reg) = mark_node_grace (me_now env) (ms_node_id (sess w i)) (mw_registry w)
              in deliver env ev (w\<lparr>mw_registry := reg\<rparr>)
         else (None, w))"

definition close_session :: "mqtt_env \<Rightarrow> nat \<Rightarrow> mqtt_world \<Rightarrow> mqtt_world outcome" where
  "close_session env i w =
     (if ms_closed (sess w i) then (None, w)
      else on_before_close env i (upd_sess i (\<lambda>s. s\<lparr>ms_closed := True\<rparr>) w))"

definition on_session_closed :: "nat \<Rightarrow> mqtt_world \<Rightarrow> mqtt_world outcome" where
  "on_session_closed i w = (None, upd_sess i (\<lambda>s. s\<lparr>ms_listed := False\<rparr>) w)"

text \<open>The pair of calls at every close site: no notification if closing throws.\<close>

definition close_and_notify :: "mqtt_env \<Rightarrow> nat \<Rightarrow> mqtt_world \<Rightarrow> mqtt_world outcome" where
  "close_and_notify env i w = and_then (close_session env i w) (on_session_closed i)"

section \<open>Packets\<close>

definition role_of_username :: "string \<Rightarrow> string" where
  "role_of_username username =
     (case find_char CHR ''_'' username 0 of Some p \<Rightarrow> take p username | None \<Rightarrow> username)"

definition handle_connect :: "mqtt_env \<Rightarrow> nat \<Rightarrow> bytes \<Rightarrow> mqtt_world \<Rightarrow> mqtt_world outcome" where
  "handle_connect env i data w =
     (case decode_connect data of
        Inl e \<Rightarrow> (Some e, w)
      | Inr None \<Rightarrow> (None, send_raw_and_close i (encode_connack 0x01) w)
      | Inr (Some conn) \<Rightarrow>
          let w = upd_sess i (\<lambda>s. s\<lparr>ms_client_id := conn_client_id conn, ms_username := conn_username conn\<rparr>) w;
              expected_password = me_access_key env @ ms_username (sess w i)
          in if conn_password conn \<noteq> expected_password \<and> me_access_key env \<noteq> []
             then (None, send_raw_and_close i (encode_connack 0x04) w)
             else let w = upd_sess i (\<lambda>s. s\<lparr>ms_role := role_of_username (ms_username s),
                                            ms_authenticated := True\<rparr>) w
                  in (None, send_raw i (encode_connack 0x00) False w))"

text \<open>The body of the \<open>try\<close> for \<open>apr/node/meta\<close>: what it reads from the payload.\<close>

definition parse_meta :: "json_lib \<Rightarrow> string \<Rightarrow> string \<Rightarrow>
    (string \<times> string list \<times> endpoint_info option \<times> json) res" where
  "parse_meta L default_role payload =
     bind_res (json_parse L payload) (\<lambda>j.
     bind_res (value_string j ''role'' default_role) (\<lambda>role.
     bind_res (case jlookup j ''workers'' of
         Some v \<Rightarrow> if is_array v then get_strings v else Inr [] | None \<Rightarrow> Inr []) (\<lambda>workers.
     bind_res (case jlookup j ''endpoint'' of
         None \<Rightarrow> Inr None | Some JNull \<Rightarrow> Inr None
       | Some v \<Rightarrow> bind_res (endpoint_from_json L v) (\<lambda>ep. Inr (Some ep))) (\<lambda>ep.
     Inr (role, workers, ep,
          case jlookup j ''extra'' of Some v \<Rightarrow> if is_object v then v else JObj [] | None \<Rightarrow> JObj [])))))"

text \<open>Registration: \<open>node_id_\<close> is assigned only if the observers did not throw either.\<close>

definition register_meta :: "mqtt_env \<Rightarrow> nat \<Rightarrow> string \<Rightarrow> mqtt_world \<Rightarrow> mqtt_world outcome" where
  "register_meta env i payload w =
     (let s = sess w i
      in case parse_meta (me_lib env) (ms_role s) payload of
           Inl e \<Rightarrow> (Some e, w)
         | Inr (role, workers, ep, extra) \<Rightarrow>
             (case register_or_update_node (me_lib env) (me_node_size env) (me_now env) (me_id_time env)
                     role workers ep (ms_peer s) (ms_node_id s) extra (mw_registry w) of
                (Inl e, ev, reg) \<Rightarrow> (Some e, w\<lparr>mw_registry := reg\<rparr>)
              | (Inr node, ev, reg) \<Rightarrow>
                  and_then (deliver env ev (w\<lparr>mw_registry := reg\<rparr>)) (\<lambda>w.
                    (None, upd_sess i (\<lambda>s. s\<lparr>ms_node_id := n_id node\<rparr>) w))))"

definition announce_extra :: "mqtt_env \<Rightarrow> nat \<Rightarrow> string \<Rightarrow> mqtt_world \<Rightarrow> mqtt_world outcome" where
  "announce_extra env i payload w =
     (case bind_res (json_parse (me_lib env) payload) (\<lambda>j.
             bind_res (value_string j ''worker'' []) (\<lambda>worker. Inr (worker, jlookup j ''extra''))) of
        Inl e \<Rightarrow> (Some e, w)
      | Inr (worker, None) \<Rightarrow> (None, w)
      | Inr (worker, Some v) \<Rightarrow>
          if worker = [] \<or> \<not> is_object v then (None, w)
          else case update_node_extra (me_lib env) (me_now env) (ms_node_id (sess w i)) worker v (mw_registry w) of
                 (Inl e, ev, reg) \<Rightarrow> (Some e, w\<lparr>mw_registry := reg\<rparr>)
               | (Inr b, ev, reg) \<Rightarrow> deliver env ev (w\<lparr>mw_registry := reg\<rparr>))"

definition handle_publish :: "mqtt_env \<Rightarrow> nat \<Rightarrow> bytes \<Rightarrow> mqtt_world \<Rightarrow> mqtt_world outcome" where
  "handle_publish env i data w =
     (if \<not> ms_authenticated (sess w i) then (None, w)
      else case decode_publish data of
             Inl e \<Rightarrow> (Some e, w)
           | Inr None \<Rightarrow> (None, w)
           | Inr (Some pub) \<Rightarrow>
               let w = (if pub_qos pub = 1 then send_raw i (encode_puback (pub_packet_id pub)) False w else w)
               in if pub_topic pub = ''apr/node/meta''
                  then caught (register_meta env i (pub_payload pub) w)
                  else if pub_topic pub = ''apr/node/extra''
                  then if ms_node_id (sess w i) = [] then (None, w)
                       else caught (announce_extra env i (pub_payload pub) w)
                  else if \<not> starts_with ''apr/'' (pub_topic pub)
                  then (None, broadcast (ms_server (sess w i)) (pub_topic pub) (pub_payload pub) w)
                  else (None, w))"

definition handle_subscribe :: "nat \<Rightarrow> bytes \<Rightarrow> mqtt_world \<Rightarrow> mqtt_world outcome" where
  "handle_subscribe i data w =
     (if \<not> ms_authenticated (sess w i) then (None, w)
      else case decode_subscribe data of
             Inl e \<Rightarrow> (Some e, w)
           | Inr None \<Rightarrow> (None, w)
           | Inr (Some sub) \<Rightarrow>
               let return_codes = map (\<lambda>_. 0x00) (sub_topics sub);
                   w = upd_sess i (\<lambda>s. s\<lparr>ms_subs := ms_subs s @ sub_topics sub\<rparr>) w
               in (None, send_raw i (encode_suback (sub_packet_id sub) return_codes) False w))"

definition handle_pingreq :: "nat \<Rightarrow> mqtt_world \<Rightarrow> mqtt_world outcome" where
  "handle_pingreq i w = (None, send_raw i encode_pingresp False w)"

definition handle_disconnect :: "mqtt_env \<Rightarrow> nat \<Rightarrow> mqtt_world \<Rightarrow> mqtt_world outcome" where
  "handle_disconnect env i w = close_and_notify env i w"

definition process_packet :: "mqtt_env \<Rightarrow> nat \<Rightarrow> bytes \<Rightarrow> mqtt_world \<Rightarrow> mqtt_world outcome" where
  "process_packet env i data w =
     (if data = [] then (None, w)
      else let pkt_type = hd data AND 0xF0
           in if pkt_type = mqtt_type_byte Connect then handle_connect env i data w
              else if pkt_type = mqtt_type_byte Publish then handle_publish env i data w
              else if pkt_type = mqtt_type_byte Subscribe AND 0xF0 then handle_subscribe i data w
              else if pkt_type = mqtt_type_byte Pingreq then handle_pingreq i w
              else if pkt_type = mqtt_type_byte Disconnect then handle_disconnect env i w
              else (None, w))"

section \<open>Bytes\<close>

definition start_read_loop :: "nat \<Rightarrow> mqtt_world \<Rightarrow> mqtt_world" where
  "start_read_loop i w = upd_sess i (\<lambda>s. s\<lparr>ms_reading := True\<rparr>) w"

text \<open>
  The loop over the WebSocket frames in the buffer. The buffer is an argument of its own: nothing a
  packet handler does touches it. The result says whether the session returned early (a close frame
  or an exception), after which the buffer is not compacted and no read is started.
\<close>

datatype loop_exit = Drained | Returned "fault option"

lemma consumed_less:
  "decode_frame (acc_data acc) = Inr (Some (n, f)) \<Longrightarrow>
     length (acc_data (acc_consume n acc)) < length (acc_data acc)"
  by (drule ws.dec_bound [of "acc_data acc" n f, unfolded ws_dec_Some])
    (auto simp: acc_data_def acc_consume_def)

function ws_loop :: "mqtt_env \<Rightarrow> nat \<Rightarrow> byte stream_acc \<Rightarrow> mqtt_world \<Rightarrow>
    loop_exit \<times> byte stream_acc \<times> mqtt_world" where
  "ws_loop env i acc w =
     (if ms_closing (sess w i) \<or> acc_is_empty acc then (Drained, acc, w)
      else case decode_frame (acc_data acc) of
             Inl e \<Rightarrow> (Returned (Some e), acc, w)
           | Inr None \<Rightarrow> (Drained, acc, w)
           | Inr (Some (consumed, frame)) \<Rightarrow>
               let acc = acc_consume consumed acc
               in if opcode frame = 0x01 \<or> opcode frame = 0x02
                  then case process_packet env i (frame_payload frame) w of
                         (Some e, w) \<Rightarrow> (Returned (Some e), acc, w)
                       | (None, w) \<Rightarrow> ws_loop env i acc w
                  else if opcode frame = 0x08
                  then case close_and_notify env i w of (exn, w) \<Rightarrow> (Returned exn, acc, w)
                  else if opcode frame = 0x09
                  then ws_loop env i acc (queue_write i (Pong_write (encode_frame (frame_payload frame) 0x0A)) w)
                  else ws_loop env i acc w)"
  by pat_completeness auto
termination
  by (relation "measure (\<lambda>(env, i, acc, w). length (acc_data acc))") (auto dest!: consumed_less)

declare ws_loop.simps [simp del]

text \<open>The end of \<open>on_bytes_read\<close> for a WebSocket session: the loop, compaction, the next read.\<close>

definition read_on :: "nat \<Rightarrow> mqtt_world \<Rightarrow> mqtt_world" where
  "read_on i w = (if ms_closing (sess w i) then w else start_read_loop i w)"

definition ws_frames :: "mqtt_env \<Rightarrow> nat \<Rightarrow> mqtt_world \<Rightarrow> mqtt_world outcome" where
  "ws_frames env i w =
     (case ws_loop env i (ms_acc (sess w i)) w of
        (Returned exn, acc, w) \<Rightarrow> (exn, upd_sess i (\<lambda>s. s\<lparr>ms_acc := acc\<rparr>) w)
      | (Drained, acc, w) \<Rightarrow> (None, read_on i (upd_sess i (\<lambda>s. s\<lparr>ms_acc := acc_compact acc\<rparr>) w)))"

text \<open>The first bytes of a connection decide what it is.\<close>

definition first_bytes :: "mqtt_env \<Rightarrow> nat \<Rightarrow> mqtt_world \<Rightarrow> mqtt_world outcome" where
  "first_bytes env i w =
     (let acc = ms_acc (sess w i); req_view = string_of_bytes (acc_data acc)
      in if take 4 req_view = ''GET '' \<or> take 4 req_view = ''get ''
         then case find_sub (crlf @ crlf) req_view of
                None \<Rightarrow> (None, start_read_loop i w)
              | Some header_end_pos \<Rightarrow>
                  (case parse_handshake_request req_view of
                     None \<Rightarrow> close_and_notify env i w
                   | Some (ws_key, ws_protocol) \<Rightarrow>
                       let response = generate_handshake_response (compute_accept_key ws_key) ''mqtt'';
                           w = upd_sess i (\<lambda>s. s\<lparr>ms_is_ws := True, ms_handshake_done := True,
                                 ms_acc := acc_compact (acc_consume (header_end_pos + 4) acc)\<rparr>) w
                       in ws_frames env i (queue_write i (Handshake_write response) w))
         else let w = upd_sess i (\<lambda>s. s\<lparr>ms_handshake_done := True, ms_is_ws := False\<rparr>) w
              in and_then (process_packet env i (acc_data acc) w) (\<lambda>w.
                   (None, read_on i (upd_sess i (\<lambda>s. s\<lparr>ms_acc := acc_clear (ms_acc s)\<rparr>) w))))"

definition exceeds_buffer_cap :: "mqtt_env \<Rightarrow> nat \<Rightarrow> mqtt_world \<Rightarrow> bool" where
  "exceeds_buffer_cap env i w = (acc_total_capacity (ms_acc (sess w i)) > me_max_buffer env)"

definition on_bytes_read :: "mqtt_env \<Rightarrow> nat \<Rightarrow> bytes \<Rightarrow> mqtt_world \<Rightarrow> mqtt_world outcome" where
  "on_bytes_read env i data w =
     (let w = track_mem (add_mqtt_rx_bytes (int (length data))) w;
          appended = upd_sess i (\<lambda>s. s\<lparr>ms_acc := acc_append data (ms_acc s)\<rparr>) w
      in if \<not> ms_handshake_done (sess w i)
         then if exceeds_buffer_cap env i appended then close_and_notify env i appended
              else first_bytes env i appended
         else if ms_is_ws (sess w i) \<and> data \<noteq> []
         then if exceeds_buffer_cap env i appended then close_and_notify env i appended
              else ws_frames env i appended
         else if ms_is_ws (sess w i) then ws_frames env i w
         else and_then (process_packet env i data w) (\<lambda>w. (None, read_on i w)))"

section \<open>Completion handlers\<close>

definition read_done :: "mqtt_env \<Rightarrow> nat \<Rightarrow> bool \<Rightarrow> bytes \<Rightarrow> mqtt_world \<Rightarrow> mqtt_world outcome" where
  "read_done env i ec data w =
     (let w = upd_sess i (\<lambda>s. s\<lparr>ms_reading := False\<rparr>) w
      in if ec then close_and_notify env i w else on_bytes_read env i data w)"

definition write_done :: "mqtt_env \<Rightarrow> nat \<Rightarrow> bool \<Rightarrow> mqtt_write \<Rightarrow> mqtt_world \<Rightarrow> mqtt_world outcome" where
  "write_done env i ec x w =
     (let w = upd_sess i (\<lambda>s. s\<lparr>ms_writes := remove1 x (ms_writes s)\<rparr>) w
      in case x of
           Packet_write _ \<Rightarrow> if ec then close_and_notify env i w else (None, w)
         | Closing_write _ \<Rightarrow> close_and_notify env i w
         | Handshake_write _ \<Rightarrow> (None, w)
         | Pong_write _ \<Rightarrow> (None, w))"

definition idle_expired :: "mqtt_env \<Rightarrow> nat \<Rightarrow> mqtt_world \<Rightarrow> mqtt_world outcome" where
  "idle_expired env i w = close_and_notify env i w"

section \<open>The server\<close>

definition mqtt_server_new :: "nat \<Rightarrow> mqtt_world \<Rightarrow> nat \<times> mqtt_world" where
  "mqtt_server_new server w =
     (let (token, reg) = add_event_callback server (mw_registry w) in (token, w\<lparr>mw_registry := reg\<rparr>))"

text \<open>
  \<open>do_accept\<close>. The peer's address is read twice: by the acceptor, for the guard, and by the
  constructor of the session, for its release; a reading that fails gives the empty string.
\<close>

definition mqtt_accept :: "connection_limits \<Rightarrow> int \<Rightarrow> nat \<Rightarrow> string \<Rightarrow> string \<Rightarrow> mqtt_world \<Rightarrow> mqtt_world" where
  "mqtt_accept lim now server peer_ip session_peer w =
     (case try_acquire lim now peer_ip (mw_guard w) of
        (False, g) \<Rightarrow> w\<lparr>mw_guard := g\<rparr>
      | (True, g) \<Rightarrow>
          start_read_loop (length (mw_sessions w))
            (w\<lparr>mw_guard := g,
               mw_sessions := mw_sessions w @ [(mqtt_session_new server session_peer)\<lparr>ms_listed := True\<rparr>]\<rparr>))"

text \<open>
  \<open>sessions_.clear()\<close>: a session that no pending handler keeps alive is destroyed, and its
  destructor closes it.
\<close>

definition drop_session :: "mqtt_env \<Rightarrow> nat \<Rightarrow> nat \<Rightarrow> mqtt_world \<Rightarrow> mqtt_world outcome" where
  "drop_session env server i w =
     (if ms_listed (sess w i) \<and> ms_server (sess w i) = server
      then let w = upd_sess i (\<lambda>s. s\<lparr>ms_listed := False\<rparr>) w
           in if \<not> ms_reading (sess w i) \<and> ms_writes (sess w i) = [] then close_session env i w
              else (None, w)
      else (None, w))"

definition mqtt_server_stop :: "mqtt_env \<Rightarrow> nat \<Rightarrow> mqtt_world \<Rightarrow> mqtt_world outcome" where
  "mqtt_server_stop env server w =
     fold (\<lambda>i r. and_then r (drop_session env server i)) [0..<length (mw_sessions w)] (None, w)"

definition mqtt_server_delete :: "mqtt_env \<Rightarrow> nat \<Rightarrow> nat \<Rightarrow> mqtt_world \<Rightarrow> mqtt_world outcome" where
  "mqtt_server_delete env server token w =
     mqtt_server_stop env server (w\<lparr>mw_registry := remove_event_callback token (mw_registry w)\<rparr>)"

end
