(* ===== verification/MqttSessionProps.thy ===== *)
theory MqttSessionProps
  imports MqttSession
begin

text \<open>
  Properties of the MQTT sessions: who may do what before it has authenticated, what a publish
  relays and to whom, what a registration and the end of a session do to the registry, and how the
  WebSocket transport relates to the packets it carries.
\<close>

named_theorems world_simps \<open>components of the world after an update\<close>

section \<open>Updates of one session\<close>

lemma upd_sess_sel [world_simps]:
  "length (mw_sessions (upd_sess i f w)) = length (mw_sessions w)"
  "mw_registry (upd_sess i f w) = mw_registry w"
  "mw_guard (upd_sess i f w) = mw_guard w"
  "j < length (mw_sessions w) \<Longrightarrow> sess (upd_sess i f w) j = (if j = i then f (sess w i) else sess w j)"
  by (auto simp: upd_sess_def)

lemma track_mem_sel [world_simps]:
  "mw_sessions (track_mem f w) = mw_sessions w"
  "mw_guard (track_mem f w) = mw_guard w"
  "mw_registry (track_mem f w) = (mw_registry w)\<lparr>r_mem := f (r_mem (mw_registry w))\<rparr>"
  by (simp_all add: track_mem_def)

section \<open>Operations that only send\<close>

text \<open>
  What sending does: writes are appended to sessions, and the transmit counter grows. Everything
  else is as before.
\<close>

definition sent_to :: "nat \<Rightarrow> mqtt_world \<Rightarrow> mqtt_world \<Rightarrow> mqtt_write list" where
  "sent_to j w w' = drop (length (ms_writes (sess w j))) (ms_writes (sess w' j))"

definition writes_more :: "mqtt_session \<Rightarrow> mqtt_session \<Rightarrow> bool" where
  "writes_more s s' = (\<exists>xs. s' = s\<lparr>ms_writes := ms_writes s @ xs\<rparr>)"

lemma writes_more_refl [simp]: "writes_more s s"
  unfolding writes_more_def by (rule exI [of _ "[]"]) simp

lemma writes_more_trans: "writes_more s s' \<Longrightarrow> writes_more s' s'' \<Longrightarrow> writes_more s s''"
  unfolding writes_more_def by (elim exE, hypsubst) (simp, blast)

lemma writes_more_one [simp]: "writes_more s (s\<lparr>ms_writes := ms_writes s @ xs\<rparr>)"
  unfolding writes_more_def by blast

definition only_sends :: "mqtt_world \<Rightarrow> mqtt_world \<Rightarrow> bool" where
  "only_sends w w' \<longleftrightarrow>
     length (mw_sessions w') = length (mw_sessions w) \<and> mw_guard w' = mw_guard w \<and>
     (\<exists>b. mw_registry w' = (mw_registry w)\<lparr>r_mem := add_mqtt_tx_bytes b (r_mem (mw_registry w))\<rparr>) \<and>
     (\<forall>j < length (mw_sessions w). writes_more (sess w j) (sess w' j))"

lemma add_tx_0: "add_mqtt_tx_bytes 0 t = t"
  by (simp add: add_mqtt_tx_bytes_def)

lemma add_tx_add: "add_mqtt_tx_bytes a (add_mqtt_tx_bytes b t) = add_mqtt_tx_bytes (b + a) t"
  by (simp add: add_mqtt_tx_bytes_def add.assoc)

lemma only_sends_refl [simp]: "only_sends w w"
  unfolding only_sends_def
  by (intro conjI exI [of _ 0] allI impI) (simp_all add: add_tx_0)

lemma only_sends_trans:
  assumes "only_sends w1 w2" "only_sends w2 w3"
  shows "only_sends w1 w3"
proof -
  let ?r = "mw_registry w1"
  from assms obtain a b where
    "mw_registry w2 = ?r\<lparr>r_mem := add_mqtt_tx_bytes a (r_mem ?r)\<rparr>"
    "mw_registry w3 = (mw_registry w2)\<lparr>r_mem := add_mqtt_tx_bytes b (r_mem (mw_registry w2))\<rparr>"
    unfolding only_sends_def by blast
  then have reg: "mw_registry w3 = ?r\<lparr>r_mem := add_mqtt_tx_bytes (a + b) (r_mem ?r)\<rparr>"
    by (simp add: add_tx_add)
  have "writes_more (sess w1 j) (sess w3 j)" if "j < length (mw_sessions w1)" for j
    using assms that writes_more_trans [of "sess w1 j" "sess w2 j" "sess w3 j"]
    by (simp add: only_sends_def)
  with reg show ?thesis using assms unfolding only_sends_def by (metis (no_types))
qed

lemma only_sends_queue:
  "only_sends w (queue_write i x (track_mem (add_mqtt_tx_bytes b) w))"
  by (auto simp: only_sends_def queue_write_def world_simps)

lemma only_sends_raw: "only_sends w (send_raw i data af w)"
  by (simp add: send_raw_def Let_def only_sends_queue)

lemma only_sends_fold:
  "(\<And>i w. only_sends w (f i w)) \<Longrightarrow> only_sends w (fold f is w)"
  by (induction "is" arbitrary: w) (auto intro: only_sends_trans)

lemma only_sends_broadcast: "only_sends w (broadcast server topic payload w)"
  unfolding broadcast_def Let_def
  by (rule only_sends_fold) (simp add: broadcast_one_def Let_def only_sends_raw)

lemma only_sends_deliver_to: "deliver_to env servers node w = (e, w') \<Longrightarrow> only_sends w w'"
  by (induction env servers node w rule: deliver_to.induct)
    (auto split: sum.splits intro: only_sends_trans [OF only_sends_broadcast])

lemma only_sends_deliver: "deliver env ev w = (e, w') \<Longrightarrow> only_sends w w'"
  by (auto simp: deliver_def only_sends_deliver_to split: option.splits prod.splits)

text \<open>What it means for the parts of the world.\<close>

lemma only_sendsD:
  assumes "only_sends w w'"
  shows "length (mw_sessions w') = length (mw_sessions w)" "mw_guard w' = mw_guard w"
    "r_nodes (mw_registry w') = r_nodes (mw_registry w)"
    "r_id_counter (mw_registry w') = r_id_counter (mw_registry w)"
    "r_cbs (mw_registry w') = r_cbs (mw_registry w)"
    "r_max_extra (mw_registry w') = r_max_extra (mw_registry w)"
    "extra_bytes (r_mem (mw_registry w')) = extra_bytes (r_mem (mw_registry w))"
    "j < length (mw_sessions w) \<Longrightarrow> writes_more (sess w j) (sess w' j)"
  using assms unfolding only_sends_def by (auto simp: add_mqtt_tx_bytes_def)

lemma only_sends_sess:
  assumes "only_sends w w'" "j < length (mw_sessions w)"
  shows "ms_peer (sess w' j) = ms_peer (sess w j)" "ms_closed (sess w' j) = ms_closed (sess w j)"
    "ms_listed (sess w' j) = ms_listed (sess w j)" "ms_server (sess w' j) = ms_server (sess w j)"
    "ms_authenticated (sess w' j) = ms_authenticated (sess w j)" "ms_node_id (sess w' j) = ms_node_id (sess w j)"
    "ms_subs (sess w' j) = ms_subs (sess w j)" "ms_is_ws (sess w' j) = ms_is_ws (sess w j)"
    "ms_closing (sess w' j) = ms_closing (sess w j)" "ms_role (sess w' j) = ms_role (sess w j)"
    "ms_reading (sess w' j) = ms_reading (sess w j)"
    "ms_writes (sess w' j) = ms_writes (sess w j) @ sent_to j w w'"
  using only_sendsD(8) [OF assms] by (auto simp: sent_to_def writes_more_def)

section \<open>Who receives a broadcast\<close>

definition receives :: "nat \<Rightarrow> string \<Rightarrow> mqtt_session \<Rightarrow> bool" where
  "receives server topic s = (ms_listed s \<and> ms_server s = server \<and> matches_topic s topic)"

definition framed :: "mqtt_session \<Rightarrow> bytes \<Rightarrow> bytes" where
  "framed s data = (if ms_is_ws s then encode_frame data 0x02 else data)"

lemma session_writes [simp]:
  "receives server topic (s\<lparr>ms_writes := x\<rparr>) = receives server topic s"
  "framed (s\<lparr>ms_writes := x\<rparr>) data = framed s data"
  by (simp_all add: receives_def matches_topic_def framed_def)

lemma send_raw_sess:
  assumes "j < length (mw_sessions w)"
  shows "sess (send_raw i data af w) j = (if j = i then (sess w j)\<lparr>ms_writes := ms_writes (sess w j) @
      [Packet_write (if af then data else framed (sess w j) data)]\<rparr> else sess w j)"
  using assms by (simp add: send_raw_def queue_write_def framed_def Let_def world_simps)

lemma broadcast_one_sess:
  assumes "j < length (mw_sessions w)"
  shows "sess (broadcast_one server topic packet i w) j =
    (if j = i \<and> receives server topic (sess w j)
     then (sess w j)\<lparr>ms_writes := ms_writes (sess w j) @ [Packet_write (framed (sess w j) packet)]\<rparr>
     else sess w j)"
  using assms by (auto simp: broadcast_one_def receives_def Let_def send_raw_sess framed_def)

lemma only_sends_broadcast_one: "only_sends w (broadcast_one server topic packet i w)"
  by (simp add: broadcast_one_def Let_def only_sends_raw)

lemma broadcast_prefix:
  assumes "m \<le> length (mw_sessions w)" "j < length (mw_sessions w)"
  shows "sess (fold (broadcast_one server topic packet) [0..<m] w) j =
    (if j < m \<and> receives server topic (sess w j)
     then (sess w j)\<lparr>ms_writes := ms_writes (sess w j) @ [Packet_write (framed (sess w j) packet)]\<rparr>
     else sess w j)"
  using assms
proof (induction m)
  case (Suc m)
  let ?w = "fold (broadcast_one server topic packet) [0..<m] w"
  have "only_sends w ?w" by (rule only_sends_fold) (rule only_sends_broadcast_one)
  then have "j < length (mw_sessions ?w)" using Suc.prems by (simp add: only_sendsD)
  from broadcast_one_sess [OF this, of server topic packet m] Suc show ?case
    by (cases "j = m") auto
qed simp

lemma broadcast_sess:
  assumes "j < length (mw_sessions w)"
  shows "sess (broadcast server topic payload w) j =
    (if receives server topic (sess w j)
     then (sess w j)\<lparr>ms_writes := ms_writes (sess w j) @
            [Packet_write (framed (sess w j) (encode_publish topic payload 0 0))]\<rparr>
     else sess w j)"
  using broadcast_prefix [OF order.refl assms] assms by (simp add: broadcast_def Let_def)

section \<open>Before authentication\<close>

lemma decoders_return:
  "\<exists>c. decode_connect data = Inr c" "\<exists>p. decode_publish data = Inr p" "\<exists>s. decode_subscribe data = Inr s"
  by (simp_all add: decode_connect_def decode_publish_def decode_subscribe_def catch_res_total no_oob)

lemma packet_types:
  "mqtt_type_byte Connect = 0x10" "mqtt_type_byte Publish = 0x30" "mqtt_type_byte Subscribe AND 0xF0 = 0x80"
  "mqtt_type_byte Pingreq = 0xC0" "mqtt_type_byte Disconnect = 0xE0"
  by simp_all

lemma close_plain:
  assumes "i < length (mw_sessions w)" "ms_node_id (sess w i) = []"
  obtains w' where "close_and_notify env i w = (None, w')" "mw_registry w' = mw_registry w"
    "length (mw_sessions w') = length (mw_sessions w)"
    "\<And>j. j < length (mw_sessions w) \<Longrightarrow> sess w' j = (if j = i then (sess w i)\<lparr>ms_closed := True, ms_listed := False\<rparr>
        else sess w j)"
    "mw_guard w' = (if ms_closed (sess w i) then mw_guard w else release (ms_peer (sess w i)) (mw_guard w))"
proof -
  let ?w = "upd_sess i (\<lambda>s. s\<lparr>ms_closed := True\<rparr>) w"
  show thesis
  proof (cases "ms_closed (sess w i)")
    case True
    then have "(sess w i)\<lparr>ms_closed := True\<rparr> = sess w i" by simp
    with True assms show thesis
      by (intro that [of "upd_sess i (\<lambda>s. s\<lparr>ms_listed := False\<rparr>) w"])
        (simp_all add: close_and_notify_def close_session_def on_session_closed_def world_simps)
  next
    case False
    with assms show thesis
      by (intro that [of "upd_sess i (\<lambda>s. s\<lparr>ms_listed := False\<rparr>)
            (?w\<lparr>mw_guard := release (ms_peer (sess w i)) (mw_guard w)\<rparr>)"])
        (simp_all add: close_and_notify_def close_session_def on_session_closed_def on_before_close_def
          Let_def upd_sess_def nth_list_update)
  qed
qed

text \<open>
  C4: The gate: as long as a session has not authenticated, no packet it sends lets an exception
  out, changes the registry's nodes, subscribes to anything or reaches another session; and it
  becomes authenticated exactly by a CONNECT that decodes and whose password is the access key
  followed by the user name (any password, if no access key is configured).
\<close>

theorem mqtt_auth_gate:
  assumes "i < length (mw_sessions w)" "\<not> ms_authenticated (sess w i)" "ms_node_id (sess w i) = []"
  shows "case process_packet env i data w of (e, w') \<Rightarrow>
    e = None \<and> r_nodes (mw_registry w') = r_nodes (mw_registry w) \<and>
    (\<forall>j < length (mw_sessions w). j \<noteq> i \<longrightarrow> sess w' j = sess w j) \<and>
    ms_subs (sess w' i) = ms_subs (sess w i) \<and> ms_node_id (sess w' i) = [] \<and>
    (ms_authenticated (sess w' i) \<longleftrightarrow> data \<noteq> [] \<and> hd data AND 0xF0 = 0x10 \<and>
       (\<exists>c. decode_connect data = Inr (Some c) \<and>
          (me_access_key env = [] \<or> conn_password c = me_access_key env @ conn_username c)))"
proof -
  consider (empty) "data = []" | (connect) "data \<noteq> []" "hd data AND 0xF0 = 0x10"
    | (disconnect) "data \<noteq> []" "hd data AND 0xF0 = 0xE0"
    | (other) "data \<noteq> []" "hd data AND 0xF0 \<noteq> 0x10" "hd data AND 0xF0 \<noteq> 0xE0" by blast
  then show ?thesis
  proof cases
    case connect
    obtain c where c: "decode_connect data = Inr c" using decoders_return(1) by blast
    have p: "process_packet env i data w = handle_connect env i data w"
      using connect by (simp add: process_packet_def)
    show ?thesis
      unfolding p using assms connect c
      by (cases c) (auto simp: handle_connect_def send_raw_and_close_def send_raw_def queue_write_def
          Let_def world_simps)
  next
    case disconnect
    have p: "process_packet env i data w = close_and_notify env i w"
      using disconnect by (simp add: process_packet_def handle_disconnect_def)
    show ?thesis
      unfolding p by (rule close_plain [OF assms(1,3), of env]) (use assms disconnect in auto)
  next
    case other
    then have "process_packet env i data w = (None, w) \<or>
        process_packet env i data w = (None, send_raw i encode_pingresp False w)"
      using assms(2) by (simp add: process_packet_def handle_publish_def handle_subscribe_def
          handle_pingreq_def Let_def)
    with assms other show ?thesis
      by (auto simp: send_raw_sess only_sendsD [OF only_sends_raw])
  qed (use assms in \<open>simp add: process_packet_def\<close>)
qed

text \<open>A server with one connected session and a second one on the WebSocket port.\<close>

definition toy_mqtt_env :: mqtt_env where
  "toy_mqtt_env = \<lparr>me_lib = toy_lib, me_access_key = ''key'', me_node_size = 200,
     me_max_buffer = 262144, me_now = 1300, me_id_time = 1300\<rparr>"

definition toy_session :: mqtt_session where
  "toy_session = (mqtt_session_new 0 ''10.0.0.5'')\<lparr>ms_listed := True, ms_reading := True\<rparr>"

definition toy_world :: mqtt_world where
  "toy_world = \<lparr>mw_sessions = [toy_session,
       toy_session\<lparr>ms_is_ws := True, ms_authenticated := True, ms_subs := [''app/+'']\<rparr>],
     mw_registry = toy_registry, mw_guard = guard_init\<rparr>"

theorem mqtt_auth_gate_witness:
  "\<not> ms_authenticated (sess (snd (process_packet toy_mqtt_env 0 [0x82, 0x00] toy_world)) 0)"
  using mqtt_auth_gate [of 0 toy_world "[0x82, 0x00]" toy_mqtt_env]
  by (auto simp: toy_world_def toy_session_def mqtt_session_new_def split: prod.splits)

section \<open>Relayed messages\<close>

lemma process_publish:
  assumes "q < 4" "ms_authenticated (sess w i)"
  shows "process_packet env i (encode_publish t p q pid @ rest) w =
    handle_publish env i (encode_publish t p q pid @ rest) w"
  using publish_header_fields(3) [OF assms(1)]
  by (simp add: process_packet_def encode_publish_body)

lemma relay_publish:
  assumes "i < length (mw_sessions w)" "ms_authenticated (sess w i)" "q < 4" "length t < 65536"
    and "length (publish_body t p q pid) < 2 ^ 21" "\<not> starts_with ''apr/'' t"
  shows "process_packet env i (encode_publish t p q pid) w =
    (None, broadcast (ms_server (sess w i)) t p
      (if q = 1 then send_raw i (encode_puback pid) False w else w))"
proof -
  have d: "decode_publish (encode_publish t p q pid) = Inr (Some \<lparr>pub_topic = t, pub_payload = p,
      pub_packet_id = (if q > 0 then pid else 0), pub_qos = q, pub_retain = False\<rparr>)"
    using decode_publish_framed [OF assms(3,4) refl assms(5), of "[]"] by simp
  have t: "t \<noteq> ''apr/node/meta''" "t \<noteq> ''apr/node/extra''"
    using assms(6) by (auto simp: starts_with_def)
  have "(0::byte) < 1" by simp
  with t d assms(1,2,6) process_publish [OF assms(3,2), of env t p pid "[]"] show ?thesis
    by (auto simp: handle_publish_def Let_def send_raw_sess)
qed

text \<open>
  C10: An authenticated client's PUBLISH outside \<open>apr/\<close> is relayed exactly: each session of the same
  server with a matching subscription (the sender included) is sent one packet, as a WebSocket frame
  if its connection is one, which decodes to the published topic and payload; the sender is sent a
  PUBACK first if it asked for QoS 1; nobody else is sent anything, and the registry's nodes and the
  connections stay as they are.
\<close>

theorem mqtt_relay:
  assumes "i < length (mw_sessions w)" "ms_authenticated (sess w i)" "q < 4" "length t < 65536"
    and "length (publish_body t p q pid) < 2 ^ 21" "\<not> starts_with ''apr/'' t"
  shows "\<exists>w'. process_packet env i (encode_publish t p q pid) w = (None, w') \<and>
    (\<forall>j < length (mw_sessions w). let s = sess w j in
       sess w' j = s\<lparr>ms_writes := ms_writes s @
         (if j = i \<and> q = 1 then [Packet_write (framed s (encode_puback pid))] else []) @
         (if receives (ms_server (sess w i)) t s then [Packet_write (framed s (encode_publish t p 0 0))] else [])\<rparr>) \<and>
    decode_publish (encode_publish t p 0 0) =
      Inr (Some \<lparr>pub_topic = t, pub_payload = p, pub_packet_id = 0, pub_qos = 0, pub_retain = False\<rparr>) \<and>
    r_nodes (mw_registry w') = r_nodes (mw_registry w) \<and> mw_guard w' = mw_guard w"
proof -
  let ?w = "if q = 1 then send_raw i (encode_puback pid) False w else w"
  let ?w' = "broadcast (ms_server (sess w i)) t p ?w"
  have s: "only_sends w ?w'"
    using only_sends_trans [OF only_sends_raw only_sends_broadcast] only_sends_broadcast by auto
  have "length (publish_body t p 0 0) \<le> length (publish_body t p q pid)" by (simp add: publish_body_def)
  then have "decode_publish (encode_publish t p 0 0) =
      Inr (Some \<lparr>pub_topic = t, pub_payload = p, pub_packet_id = 0, pub_qos = 0, pub_retain = False\<rparr>)"
    using decode_publish_framed [OF _ assms(4) refl, of 0 p 0 "[]"] assms(5) by simp
  moreover have "sess ?w' j = (sess w j)\<lparr>ms_writes := ms_writes (sess w j) @
         (if j = i \<and> q = 1 then [Packet_write (framed (sess w j) (encode_puback pid))] else []) @
         (if receives (ms_server (sess w i)) t (sess w j)
          then [Packet_write (framed (sess w j) (encode_publish t p 0 0))] else [])\<rparr>"
    if j: "j < length (mw_sessions w)" for j
  proof -
    have n: "j < length (mw_sessions ?w)" using j by (simp add: only_sendsD [OF only_sends_raw])
    have 1: "sess ?w j = (sess w j)\<lparr>ms_writes := ms_writes (sess w j) @
        (if j = i \<and> q = 1 then [Packet_write (framed (sess w j) (encode_puback pid))] else [])\<rparr>"
      using j by (simp add: send_raw_sess)
    show ?thesis using broadcast_sess [OF n, of "ms_server (sess w i)" t p] by (simp add: 1)
  qed
  ultimately show ?thesis
    using relay_publish [OF assms, of env] only_sendsD [OF s] by (auto simp: Let_def)
qed

theorem mqtt_relay_witness:
  "\<exists>w'. process_packet toy_mqtt_env 1 (encode_publish ''app/db'' ''hi'' 1 7) toy_world = (None, w') \<and>
     length (ms_writes (sess w' 0)) = 0 \<and> length (ms_writes (sess w' 1)) = 2"
proof -
  let ?t = "''app/db''"
  have m: "topic_matches ''app/+'' ?t" by code_simp
  have r: "receives 0 ?t (sess toy_world 1)" "\<not> receives 0 ?t (sess toy_world 0)"
    using m by (simp_all add: receives_def matches_topic_def toy_world_def toy_session_def mqtt_session_new_def)
  have l: "length (mw_sessions toy_world) = 2" "ms_authenticated (sess toy_world 1)"
    "ms_server (sess toy_world 1) = 0" "ms_writes (sess toy_world 0) = []" "ms_writes (sess toy_world 1) = []"
    by (simp_all add: toy_world_def toy_session_def mqtt_session_new_def)
  obtain w' where w': "process_packet toy_mqtt_env 1 (encode_publish ?t ''hi'' 1 7) toy_world = (None, w')"
    and s: "\<forall>j < length (mw_sessions toy_world). let s = sess toy_world j in
       sess w' j = s\<lparr>ms_writes := ms_writes s @
         (if j = 1 \<and> (1::byte) = 1 then [Packet_write (framed s (encode_puback 7))] else []) @
         (if receives (ms_server (sess toy_world 1)) ?t s
          then [Packet_write (framed s (encode_publish ?t ''hi'' 0 0))] else [])\<rparr>"
    using mqtt_relay [of 1 toy_world 1 ?t "''hi''" 7 toy_mqtt_env] l
    by (auto simp: publish_body_def write_u16_def starts_with_def)
  from s [rule_format, of 0] s [rule_format, of 1] have "ms_writes (sess w' 0) = []" "length (ms_writes (sess w' 1)) = 2"
    using l r by (simp_all add: Let_def)
  with w' show ?thesis by (intro exI [of _ w']) (simp del: One_nat_def)
qed

section \<open>Registration\<close>

text \<open>What a list of servers sends to a session when a node is announced.\<close>

definition announcements :: "string \<Rightarrow> string \<Rightarrow> nat list \<Rightarrow> mqtt_session \<Rightarrow> mqtt_write list" where
  "announcements topic text servers s = concat (map (\<lambda>server.
     if receives server topic s then [Packet_write (framed s (encode_publish topic text 0 0))] else []) servers)"

lemma announcements_writes [simp]:
  "announcements topic text servers (s\<lparr>ms_writes := x\<rparr>) = announcements topic text servers s"
  by (simp add: announcements_def cong: if_cong)

lemma deliver_to_sess:
  assumes "json_dump (me_lib env) (node_to_json node) = Inr text"
  obtains w' where "deliver_to env servers node w = (None, w')" "only_sends w w'"
    "\<And>j. j < length (mw_sessions w) \<Longrightarrow> sess w' j = (sess w j)\<lparr>ms_writes := ms_writes (sess w j) @
        announcements (''apr/'' @ n_role node) text servers (sess w j)\<rparr>"
proof -
  have "\<exists>w'. deliver_to env servers node w = (None, w') \<and> only_sends w w' \<and>
      (\<forall>j < length (mw_sessions w). sess w' j = (sess w j)\<lparr>ms_writes := ms_writes (sess w j) @
        announcements (''apr/'' @ n_role node) text servers (sess w j)\<rparr>)"
  proof (induction servers arbitrary: w)
    case (Cons server servers)
    let ?t = "''apr/'' @ n_role node"
    let ?b = "broadcast server ?t text w"
    have n: "length (mw_sessions ?b) = length (mw_sessions w)"
      using only_sendsD(1) [OF only_sends_broadcast] .
    obtain w' where w': "deliver_to env servers node ?b = (None, w')" "only_sends ?b w'"
      "\<forall>j < length (mw_sessions ?b). sess w' j = (sess ?b j)\<lparr>ms_writes := ms_writes (sess ?b j) @
        announcements ?t text servers (sess ?b j)\<rparr>"
      using Cons.IH [of ?b] by blast
    have "sess w' j = (sess w j)\<lparr>ms_writes := ms_writes (sess w j) @
        announcements ?t text (server # servers) (sess w j)\<rparr>" if j: "j < length (mw_sessions w)" for j
      using w'(3) [rule_format, of j] broadcast_sess [OF j, of server "?t" "text"] j n
      by (simp add: announcements_def cong: if_cong)
    moreover have "deliver_to env (server # servers) node w = (None, w')" using assms w'(1) by simp
    ultimately show ?case using only_sends_trans [OF only_sends_broadcast w'(2)] by blast
  qed (auto simp: announcements_def)
  with that show thesis by blast
qed

lemma handle_meta_publish:
  assumes "i < length (mw_sessions w)" "ms_authenticated (sess w i)" "q < 4"
    and "length (publish_body ''apr/node/meta'' p q pid) < 2 ^ 21"
  shows "process_packet env i (encode_publish ''apr/node/meta'' p q pid) w =
    caught (register_meta env i p (if q = 1 then send_raw i (encode_puback pid) False w else w))"
proof -
  have "decode_publish (encode_publish ''apr/node/meta'' p q pid) = Inr (Some
      \<lparr>pub_topic = ''apr/node/meta'', pub_payload = p, pub_packet_id = (if q > 0 then pid else 0),
       pub_qos = q, pub_retain = False\<rparr>)"
    using decode_publish_framed [OF assms(3) _ refl assms(4), of "[]"] by simp
  then show ?thesis
    using assms(2) process_publish [OF assms(3,2), of env "''apr/node/meta''" p pid "[]"]
    by (simp add: handle_publish_def Let_def)
qed

lemma reg_ok_tx [simp]: "reg_ok L (r\<lparr>r_mem := add_mqtt_tx_bytes b (r_mem r)\<rparr>) = reg_ok L r"
  by (simp add: reg_ok_def add_mqtt_tx_bytes_def)

lemma only_sends_reg_ok: "only_sends w w' \<Longrightarrow> reg_ok L (mw_registry w') = reg_ok L (mw_registry w)"
  unfolding only_sends_def by auto

lemma only_sends_find: "only_sends w w' \<Longrightarrow> find_node (mw_registry w') k = find_node (mw_registry w) k"
  by (simp add: find_node_def only_sendsD)

text \<open>The registration of a session, with the session itself.\<close>

lemma meta_publish_registers:
  assumes "reg_ok (me_lib env) (mw_registry w)" "dumps_all (me_lib env)"
    and "i < length (mw_sessions w)" "ms_authenticated (sess w i)"
    and "ms_node_id (sess w i) = [] \<or> issued (r_id_counter (mw_registry w)) (ms_node_id (sess w i))"
    and "q < 4" "length (publish_body ''apr/node/meta'' p q pid) < 2 ^ 21"
    and "parse_meta (me_lib env) (ms_role (sess w i)) p = Inr (role, workers, ep, extra)"
  shows "\<exists>w' node text. process_packet env i (encode_publish ''apr/node/meta'' p q pid) w = (None, w') \<and>
    json_dump (me_lib env) (node_to_json node) = Inr text \<and>
    n_role node = role \<and> n_workers node = workers \<and> n_status node = St_ok \<and>
    n_endpoint node = final_endpoint ep (ms_peer (sess w i)) \<and>
    ms_node_id (sess w' i) = n_id node \<and>
    (if ms_node_id (sess w i) = [] then find_node (mw_registry w) (n_id node) = None
     else n_id node = ms_node_id (sess w i)) \<and>
    find_node (mw_registry w') (n_id node) = Some node \<and>
    (\<forall>k. k \<noteq> n_id node \<longrightarrow> find_node (mw_registry w') k = find_node (mw_registry w) k) \<and>
    (\<forall>j < length (mw_sessions w). ms_writes (sess w' j) = ms_writes (sess w j) @
       (if j = i \<and> q = 1 then [Packet_write (framed (sess w j) (encode_puback pid))] else []) @
       announcements (''apr/'' @ role) text (map snd (r_cbs (mw_registry w))) (sess w j)) \<and>
    length (mw_sessions w') = length (mw_sessions w) \<and> ms_closed (sess w' i) = ms_closed (sess w i) \<and>
    (\<exists>xs. sess w' i = (sess w i)\<lparr>ms_writes := xs, ms_node_id := n_id node\<rparr>)"
proof -
  define w1 where "w1 = (if q = 1 then send_raw i (encode_puback pid) False w else w)"
  let ?s = "sess w i"
  have s1: "only_sends w w1" by (simp add: w1_def only_sends_raw)
  note k1 = only_sends_sess [OF s1 assms(3)]
  have sess1: "sess w1 j = (sess w j)\<lparr>ms_writes := ms_writes (sess w j) @
      (if j = i \<and> q = 1 then [Packet_write (framed (sess w j) (encode_puback pid))] else [])\<rparr>"
    if "j < length (mw_sessions w)" for j
    using that by (simp add: w1_def send_raw_sess)
  have ex: "ms_node_id ?s = [] \<or> issued (r_id_counter (mw_registry w1)) (ms_node_id ?s)"
    using assms(5) only_sendsD(4) [OF s1] by simp
  have ok1: "reg_ok (me_lib env) (mw_registry w1)" using assms(1) only_sends_reg_ok [OF s1] by simp
  obtain n ev r' where reg: "register_or_update_node (me_lib env) (me_node_size env) (me_now env)
      (me_id_time env) role workers ep (ms_peer ?s) (ms_node_id ?s) extra (mw_registry w1) = (Inr n, ev, r')"
    by (rule register_succeeds [OF ok1 assms(2) ex])
  note st = register_stored [OF ok1 ex reg]
  obtain "text" where printed: "json_dump (me_lib env) (node_to_json n) = Inr text"
    using assms(2) by (auto simp: dumps_all_def)
  let ?w2 = "w1\<lparr>mw_registry := r'\<rparr>" and ?cbs = "map snd (r_cbs (mw_registry w1))"
  obtain w3 where d: "deliver_to env ?cbs n ?w2 = (None, w3)" "only_sends ?w2 w3"
    and sess3: "\<And>j. j < length (mw_sessions ?w2) \<Longrightarrow> sess w3 j = (sess ?w2 j)\<lparr>ms_writes := ms_writes (sess ?w2 j) @
        announcements (''apr/'' @ n_role n) text ?cbs (sess ?w2 j)\<rparr>"
    by (rule deliver_to_sess [OF printed, of ?cbs ?w2], rule that)
  let ?w' = "upd_sess i (\<lambda>s. s\<lparr>ms_node_id := n_id n\<rparr>) w3"
  have len: "length (mw_sessions w3) = length (mw_sessions w)"
    using only_sendsD(1) [OF d(2)] only_sendsD(1) [OF s1] by simp
  have cbs: "?cbs = map snd (r_cbs (mw_registry w))" using only_sendsD(5) [OF s1] by simp
  have "process_packet env i (encode_publish ''apr/node/meta'' p q pid) w = (None, ?w')"
    using assms(8) reg st d(1)
    by (simp add: handle_meta_publish [OF assms(3,4,6,7)] flip: w1_def)
      (simp add: register_meta_def k1 Let_def deliver_def)
  moreover have "ms_writes (sess ?w' j) = ms_writes (sess w j) @
       (if j = i \<and> q = 1 then [Packet_write (framed (sess w j) (encode_puback pid))] else []) @
       announcements (''apr/'' @ role) text (map snd (r_cbs (mw_registry w))) (sess w j)"
    if j: "j < length (mw_sessions w)" for j
    using j len sess3 [of j] sess1 [OF j] st only_sendsD(1) [OF s1] cbs by (auto simp: world_simps)
  moreover have "ms_closed (sess ?w' i) = ms_closed (sess w i)"
    using assms(3) len only_sends_sess(2) [OF d(2), of i] only_sendsD(1) [OF s1] k1(2) by (simp add: world_simps)
  moreover have "\<exists>xs. sess ?w' i = (sess w i)\<lparr>ms_writes := xs, ms_node_id := n_id n\<rparr>"
    using assms(3) len sess3 [of i] sess1 [OF assms(3)] only_sendsD(1) [OF s1] by (auto simp: world_simps)
  moreover have "find_node (mw_registry ?w') k = find_node r' k" for k
    using only_sends_find [OF d(2), of k] by (simp add: world_simps)
  moreover have "find_node (mw_registry w1) k = find_node (mw_registry w) k" for k
    by (rule only_sends_find [OF s1])
  ultimately show ?thesis
    using st printed assms(3) len by (intro exI [of _ ?w'] exI [of _ n] exI [of _ "text"])
      (simp add: world_simps cong: if_cong)
qed


text \<open>A library that reads one announcement and prints everything.\<close>

definition meta_lib :: json_lib where
  "meta_lib = toy_lib\<lparr>json_parse := \<lambda>s. Inr (JObj [(''role'', JStr ''db'')])\<rparr>"

lemma meta_lib_dumps: "dumps_all meta_lib"
  by (auto simp: dumps_all_def meta_lib_def toy_lib_def split: json.split)


end
