(* ===== verification/MqttTransport.thy ===== *)
theory MqttTransport
  imports MqttSessionProps
begin

text \<open>
  The MQTT session between its packets and its connection: what closing does, what a registration
  that cannot be announced leaves behind, how the native transport treats several packets in one
  read, and that the WebSocket transport handles exactly the frames in its buffer, in order.
\<close>

section \<open>Closing\<close>

lemma upd_sess_idem: "(\<And>s. f (f s) = f s) \<Longrightarrow> upd_sess i f (upd_sess i f w) = upd_sess i f w"
  by (cases "i < length (mw_sessions w)") (simp_all add: upd_sess_def list_update_beyond)


definition toy_node_world :: mqtt_world where
  "toy_node_world = toy_world\<lparr>mw_sessions := [toy_session\<lparr>ms_authenticated := True, ms_node_id := ''node-1000-1''\<rparr>]\<rparr>"


section \<open>A registration that cannot be announced\<close>

lemma deliver_unprintable:
  "json_dump (me_lib env) (node_to_json n) = Inl e \<Longrightarrow> servers \<noteq> [] \<Longrightarrow>
     deliver_to env servers n w = (Some e, w)"
  by (cases servers) simp_all

text \<open>
  A node whose announcement cannot be printed (a role that is not UTF-8, taken from the user name)
  becomes a ghost: it is registered as OK, but the exception of the first observer leaves
  \<open>handle_publish\<close> before the session learns the node's id, and closing the session later leaves the
  registry as it is, so the node is never put in grace and never expires.
\<close>

theorem unprintable_role_ghost:
  assumes "reg_ok (me_lib env) (mw_registry w)" "i < length (mw_sessions w)"
    and "ms_authenticated (sess w i)" "ms_node_id (sess w i) = []" "r_cbs (mw_registry w) \<noteq> []"
    and "length (publish_body ''apr/node/meta'' p 0 0) < 2 ^ 21"
    and "parse_meta (me_lib env) (ms_role (sess w i)) p = Inr (role, workers, ep, JObj [])"
    and "\<forall>n. n_role n = role \<longrightarrow> json_dump (me_lib env) (node_to_json n) = Inl Json_error"
  shows "\<exists>w' nid n. process_packet env i (encode_publish ''apr/node/meta'' p 0 0) w = (None, w') \<and>
    find_node (mw_registry w) nid = None \<and> find_node (mw_registry w') nid = Some n \<and>
    n_role n = role \<and> n_status n = St_ok \<and> ms_node_id (sess w' i) = [] \<and>
    (\<exists>w''. close_and_notify env i w' = (None, w'') \<and> mw_registry w'' = mw_registry w')"
proof -
  let ?r = "mw_registry w"
  obtain res ev r' where reg: "register_or_update_node (me_lib env) (me_node_size env) (me_now env)
      (me_id_time env) role workers ep (ms_peer (sess w i)) [] (JObj []) ?r = (res, ev, r')"
    by (metis prod_cases3)
  have "\<exists>n. res = Inr n"
    using assms(1) _ reg by (rule register_outcome) auto
  then obtain n where n: "res = Inr n" by blast
  note st = register_stored [OF assms(1) _ reg [unfolded n]]
  let ?w' = "w\<lparr>mw_registry := r'\<rparr>"
  have "deliver env ev ?w' = (Some Json_error, ?w')"
    using st assms(5,8) deliver_unprintable by (simp add: deliver_def)
  then have p: "process_packet env i (encode_publish ''apr/node/meta'' p 0 0) w = (None, ?w')"
    using handle_meta_publish [OF assms(2,3) _ assms(6), of env] assms(4,7) reg n
    by (simp add: register_meta_def)
  obtain w'' where "close_and_notify env i ?w' = (None, w'')" "mw_registry w'' = mw_registry ?w'"
    using close_plain [of i ?w' env] assms(2,4) by auto
  with p st assms(4) show ?thesis
    by (intro exI [of _ ?w'] exI [of _ "n_id n"] exI [of _ n]) auto
qed

text \<open>A printer that refuses every node.\<close>

definition mute_lib :: json_lib where
  "mute_lib = meta_lib\<lparr>json_dump := \<lambda>j. Inl Json_error\<rparr>"

definition observed_registry :: "nat registry" where
  "observed_registry = snd (add_event_callback 0 (registry_init 8192))"

theorem unprintable_role_ghost_witness:
  "\<exists>w' nid n. process_packet (toy_mqtt_env\<lparr>me_lib := mute_lib\<rparr>) 1 (encode_publish ''apr/node/meta'' ''{}'' 0 0)
       (toy_world\<lparr>mw_registry := observed_registry\<rparr>) = (None, w') \<and>
     find_node (mw_registry w') nid = Some n \<and> n_status n = St_ok \<and> ms_node_id (sess w' 1) = []"
proof -
  let ?w = "toy_world\<lparr>mw_registry := observed_registry\<rparr>" and ?env = "toy_mqtt_env\<lparr>me_lib := mute_lib\<rparr>"
  have p: "parse_meta (me_lib ?env) (ms_role (sess ?w 1)) ''{}'' = Inr (''db'', [], None, JObj [])"
    by (simp add: parse_meta_def mute_lib_def meta_lib_def value_string_def jlookup_def)
  have r: "reg_ok (me_lib ?env) (mw_registry ?w)" "r_cbs (mw_registry ?w) \<noteq> []"
    using reg_ok_init by (simp_all add: observed_registry_def add_event_callback_def) (simp_all add: registry_init_def)
  have s: "1 < length (mw_sessions ?w)" "ms_authenticated (sess ?w 1)" "ms_node_id (sess ?w 1) = []"
    by (simp_all add: toy_world_def toy_session_def mqtt_session_new_def)
  show ?thesis
    using unprintable_role_ghost [OF r(1) s r(2) _ p] by (auto simp: publish_body_def mute_lib_def)
qed

section \<open>Several packets in one read\<close>

text \<open>A reader that succeeds does not look at what follows.\<close>

named_theorems read_stable \<open>successful reads, with more bytes behind\<close>

lemma decode_remaining_length_stable [read_stable]:
  assumes "decode_remaining_length (drop 1 data) = Inr r"
  shows "decode_remaining_length (drop 1 (data @ q)) = Inr r"
proof -
  have "decode_remaining_length_loop d m v k = Inr r \<Longrightarrow> decode_remaining_length_loop (d @ q) m v k = Inr r" for d m v k
    by (induction d m v k rule: decode_remaining_length_loop.induct) (auto simp: Let_def split: if_splits)
  moreover have "drop 1 (data @ q) = drop 1 data @ q" if "data \<noteq> []" using that by (cases data) simp_all
  ultimately show ?thesis
    using assms by (cases "data = []") (auto simp: decode_remaining_length_def)
qed

lemma read_string_stable [read_stable]: "read_string data a = Inr r \<Longrightarrow> read_string (data @ q) a = Inr r"
  by (auto simp: read_string_def Let_def byte_at_def slice_def nth_append string_of_bytes_def split: if_splits)

lemma read_u8_stable [read_stable]: "read_u8 data a = Inr r \<Longrightarrow> read_u8 (data @ q) a = Inr r"
  by (auto simp: read_u8_def byte_at_def nth_append split: if_splits)

lemma read_u16_stable [read_stable]: "read_u16 data a = Inr r \<Longrightarrow> read_u16 (data @ q) a = Inr r"
  by (auto simp: read_u16_def byte_at_def nth_append split: if_splits)

lemma slice_stable [read_stable]: "slice data a n = Inr r \<Longrightarrow> slice (data @ q) a n = Inr r"
  by (auto simp: slice_def split: if_splits)

lemma byte_at_stable [read_stable]: "byte_at data a = Inr r \<Longrightarrow> byte_at (data @ q) a = Inr r"
  by (auto simp: byte_at_def nth_append split: if_splits)

lemma decode_topics_stable [read_stable]:
  "decode_topics data a e ts = Inr r \<Longrightarrow> decode_topics (data @ q) a e ts = Inr r"
proof (induction data a e ts rule: decode_topics.induct)
  case (1 data a e ts)
  show ?case
  proof (cases "a < e")
    case True
    with 1(2) obtain t b c d where r: "read_string data a = Inr (t, b)" "read_u8 data b = Inr (c, d)"
      "decode_topics data d e (ts @ [t]) = Inr r"
      by (subst (asm) decode_topics.simps) (auto split: sum.splits)
    with True 1(1) show ?thesis
      by (subst decode_topics.simps) (simp add: read_stable)
  qed (use 1(2) in \<open>subst decode_topics.simps, subst (asm) decode_topics.simps, simp\<close>)
qed

lemma catch_res_Some: "catch_res None m = Inr (Some x) \<longleftrightarrow> m = Inr (Some x)"
  by (cases m) auto

text \<open>Two computations, the second of which delivers whatever the first delivers.\<close>

definition keeps :: "'a res \<Rightarrow> 'a res \<Rightarrow> bool" where
  "keeps m m' = (\<forall>r. m = Inr r \<longrightarrow> m' = Inr r)"

definition keeps_some :: "'a option res \<Rightarrow> 'a option res \<Rightarrow> bool" where
  "keeps_some m m' = (\<forall>x. m = Inr (Some x) \<longrightarrow> m' = Inr (Some x))"

lemma keeps_refl [simp]: "keeps m m"
  by (simp add: keeps_def)

lemma keeps_some_refl [simp]: "keeps_some m m"
  by (simp add: keeps_some_def)

lemma keeps_bind: "keeps m m' \<Longrightarrow> (\<And>x. keeps (f x) (f' x)) \<Longrightarrow> keeps (bind_res m f) (bind_res m' f')"
  by (auto simp: keeps_def)

lemma keeps_if: "keeps a a' \<Longrightarrow> keeps b b' \<Longrightarrow> keeps (if c then a else b) (if c then a' else b')"
  by simp

lemma keeps_some_bind:
  "keeps m m' \<Longrightarrow> (\<And>x. keeps_some (f x) (f' x)) \<Longrightarrow> keeps_some (bind_res m f) (bind_res m' f')"
  by (auto simp: keeps_def keeps_some_def)

lemma keeps_some_guard:
  "(\<not> c \<Longrightarrow> \<not> c') \<Longrightarrow> (\<not> c \<Longrightarrow> keeps_some x x') \<Longrightarrow>
     keeps_some (if c then Inr None else x) (if c' then Inr None else x')"
  by (auto simp: keeps_some_def)

lemma keeps_some_case: "(\<And>a b. keeps_some (f a b) (f' a b)) \<Longrightarrow>
    keeps_some (case x of (a, b) \<Rightarrow> f a b) (case x of (a, b) \<Rightarrow> f' a b)"
  by (cases x) simp

lemma keeps_case: "(\<And>a b. keeps (f a b) (f' a b)) \<Longrightarrow>
    keeps (case x of (a, b) \<Rightarrow> f a b) (case x of (a, b) \<Rightarrow> f' a b)"
  by (cases x) simp

lemma keeps_readers:
  "keeps (decode_remaining_length (drop 1 data)) (decode_remaining_length (drop 1 (data @ q)))"
  "keeps (read_string data a) (read_string (data @ q) a)" "keeps (read_u8 data a) (read_u8 (data @ q) a)"
  "keeps (read_u16 data a) (read_u16 (data @ q) a)" "keeps (slice data a n) (slice (data @ q) a n)"
  "keeps (byte_at data a) (byte_at (data @ q) a)"
  "keeps (decode_topics data a e ts) (decode_topics (data @ q) a e ts)"
  unfolding keeps_def by (blast intro: read_stable)+

lemmas keeps_rules = keeps_some_bind keeps_some_guard keeps_some_case keeps_readers keeps_bind keeps_if
  keeps_case keeps_refl keeps_some_refl

lemma keeps_some_subscribe: "keeps_some (decode_subscribe_body data) (decode_subscribe_body (data @ q))"
  unfolding decode_subscribe_body_def Let_def by (intro keeps_rules) simp_all

lemma keeps_some_publish: "keeps_some (decode_publish_body data) (decode_publish_body (data @ q))"
  unfolding decode_publish_body_def Let_def by (intro keeps_rules) simp_all

lemma keeps_some_connect: "keeps_some (decode_connect_body data) (decode_connect_body (data @ q))"
  unfolding decode_connect_body_def Let_def by (intro keeps_rules) simp_all

lemma decoders_stable:
  "decode_subscribe data = Inr (Some s) \<Longrightarrow> decode_subscribe (data @ q) = Inr (Some s)"
  "decode_publish data = Inr (Some p) \<Longrightarrow> decode_publish (data @ q) = Inr (Some p)"
  "decode_connect data = Inr (Some c) \<Longrightarrow> decode_connect (data @ q) = Inr (Some c)"
  using keeps_some_subscribe [of data q] keeps_some_publish [of data q] keeps_some_connect [of data q]
  by (simp_all add: decode_subscribe_def decode_publish_def decode_connect_def catch_res_Some keeps_some_def)

text \<open>A packet of one of the types a client sends, accepted by its decoder.\<close>

definition complete_packet :: "bytes \<Rightarrow> bool" where
  "complete_packet p = (p \<noteq> [] \<and>
     (let t = hd p AND 0xF0 in
       t = 0x10 \<and> (\<exists>c. decode_connect p = Inr (Some c)) \<or> t = 0x30 \<and> (\<exists>c. decode_publish p = Inr (Some c)) \<or>
       t = 0x80 \<and> (\<exists>c. decode_subscribe p = Inr (Some c)) \<or> t = 0xC0 \<or> t = 0xE0))"

lemma process_packet_first:
  assumes "complete_packet p"
  shows "process_packet env i (p @ q) w = process_packet env i p w"
  using assms decoders_stable [of p _ q]
  by (auto simp: complete_packet_def process_packet_def handle_connect_def handle_publish_def
      handle_subscribe_def Let_def)

text \<open>
  On the native transport one read is one packet: when TCP delivers a complete packet together
  with the bytes of the next ones, the session handles the first and drops the rest without a trace,
  whatever it is; only the receive counter sees it.
\<close>

theorem coalesced_packets_lost:
  assumes "i < length (mw_sessions w)" "ms_handshake_done (sess w i)" "\<not> ms_is_ws (sess w i)"
    and "complete_packet p"
  shows "on_bytes_read env i (p @ q) w =
    and_then (process_packet env i p (track_mem (add_mqtt_rx_bytes (int (length p + length q))) w))
      (\<lambda>w. (None, read_on i w))"
  using assms by (simp add: on_bytes_read_def process_packet_first Let_def world_simps)

theorem coalesced_packets_lost_witness:
  "\<exists>w'. on_bytes_read toy_mqtt_env 0 ([0xC0, 0x00] @ [0xE0, 0x00])
       (toy_world\<lparr>mw_sessions := [toy_session\<lparr>ms_handshake_done := True\<rparr>]\<rparr>) = (None, w') \<and>
     \<not> ms_closed (sess w' 0) \<and> ms_writes (sess w' 0) = [Packet_write encode_pingresp]"
proof -
  let ?w = "toy_world\<lparr>mw_sessions := [toy_session\<lparr>ms_handshake_done := True\<rparr>]\<rparr>"
  have "complete_packet [0xC0, 0x00]" by (simp add: complete_packet_def)
  with coalesced_packets_lost [of 0 ?w "[0xC0, 0x00]" toy_mqtt_env "[0xE0, 0x00]"]
  show ?thesis
    by (simp add: toy_world_def toy_session_def mqtt_session_new_def process_packet_def handle_pingreq_def
        read_on_def start_read_loop_def send_raw_def queue_write_def upd_sess_def track_mem_def Let_def)
qed

section \<open>The WebSocket transport\<close>

text \<open>
  The specification of the loop: the frames are handled one by one, in order, until one of them ends
  the session. No buffer, no offsets.
\<close>

fun run_frames :: "mqtt_env \<Rightarrow> nat \<Rightarrow> ws_frame list \<Rightarrow> mqtt_world \<Rightarrow> loop_exit \<times> mqtt_world" where
  "run_frames env i [] w = (Drained, w)"
| "run_frames env i (f # fs) w =
     (if ms_closing (sess w i) then (Drained, w)
      else if opcode f \<in> {0x01, 0x02}
      then case process_packet env i (frame_payload f) w of
             (Some e, w) \<Rightarrow> (Returned (Some e), w) | (None, w) \<Rightarrow> run_frames env i fs w
      else if opcode f = 0x08
      then case close_and_notify env i w of (exn, w) \<Rightarrow> (Returned exn, w)
      else if opcode f = 0x09
      then run_frames env i fs (queue_write i (Pong_write (encode_frame (frame_payload f) 0x0A)) w)
      else run_frames env i fs w)"

lemma ws_loop_refines:
  assumes "acc_ok acc" "drain ws_dec (acc_data acc) = (fs, rest)" "\<forall>e. decode_frame rest \<noteq> Inl e"
  shows "\<exists>acc'. ws_loop env i acc w = (fst (run_frames env i fs w), acc', snd (run_frames env i fs w)) \<and>
    acc_ok acc' \<and> acc_buf acc' = acc_buf acc \<and>
    (fst (run_frames env i fs w) = Drained \<and> \<not> ms_closing (sess (snd (run_frames env i fs w)) i) \<longrightarrow>
       acc_data acc' = rest)"
  using assms
proof (induction fs arbitrary: acc w)
  case Nil
  show ?case
  proof (cases "ms_closing (sess w i) \<or> acc_is_empty acc")
    case True
    then have "\<not> ms_closing (sess w i) \<longrightarrow> acc_data acc = []" using acc_is_empty_data [OF Nil(1)] by blast
    moreover have "rest = acc_data acc"
      using Nil(2) ws.drain_eq [of "acc_data acc"] by (auto split: option.splits prod.splits)
    ultimately show ?thesis using True Nil(1) by (subst ws_loop.simps) simp
  next
    case False
    have d: "ws_dec (acc_data acc) = None" "rest = acc_data acc"
      using Nil(2) ws.drain_eq [of "acc_data acc"] by (auto split: option.splits prod.splits)
    then have "decode_frame (acc_data acc) = Inr None"
      using Nil(3) by (auto simp: ws_dec_def split: sum.splits option.splits)
    with False d(2) Nil(1) show ?thesis by (subst ws_loop.simps) simp
  qed
next
  case (Cons f fs)
  obtain n where n: "ws_dec (acc_data acc) = Some (n, f)" "drain ws_dec (drop n (acc_data acc)) = (fs, rest)"
    using Cons.prems(2) ws.drain_eq [of "acc_data acc"] by (auto split: option.splits prod.splits)
  have b: "n \<le> length (acc_data acc)" "acc_data acc \<noteq> []"
    using ws.dec_bound [OF n(1)] by auto
  then have ne: "\<not> acc_is_empty acc" using acc_is_empty_data [OF Cons.prems(1)] by simp
  let ?acc = "acc_consume n acc"
  have a: "acc_ok ?acc" "acc_data ?acc = drop n (acc_data acc)" "acc_buf ?acc = acc_buf acc"
    using b(1) acc.adv_ok [OF Cons.prems(1)] acc.adv_view [OF Cons.prems(1)] by (simp_all, simp add: acc_consume_def)
  note IH = Cons.IH [OF a(1) _ Cons.prems(3), unfolded a(2,3), OF n(2)]
  show ?case
  proof (cases "ms_closing (sess w i)")
    case False
    have loop: "ws_loop env i acc w =
      (if opcode f = 0x01 \<or> opcode f = 0x02
       then case process_packet env i (frame_payload f) w of
              (Some e, w) \<Rightarrow> (Returned (Some e), ?acc, w) | (None, w) \<Rightarrow> ws_loop env i ?acc w
       else if opcode f = 0x08
       then case close_and_notify env i w of (exn, w) \<Rightarrow> (Returned exn, ?acc, w)
       else if opcode f = 0x09
       then ws_loop env i ?acc (queue_write i (Pong_write (encode_frame (frame_payload f) 0x0A)) w)
       else ws_loop env i ?acc w)"
      using False ne n(1) by (subst ws_loop.simps) (simp add: Let_def)
    show ?thesis
    proof (cases "opcode f = 0x01 \<or> opcode f = 0x02")
      case True
      obtain x w' where p: "process_packet env i (frame_payload f) w = (x, w')" by fastforce
      show ?thesis using True False p a IH [of w'] unfolding loop by (cases x) auto
    next
      case other: False
      show ?thesis
      proof (cases "opcode f = 0x08")
        case True
        obtain x w' where "close_and_notify env i w = (x, w')" by fastforce
        then show ?thesis using True False other a unfolding loop by simp
      next
        case not_close: False
        show ?thesis
          using IH [of "queue_write i (Pong_write (encode_frame (frame_payload f) 0x0A)) w"] IH [of w]
            False other not_close unfolding loop by simp
      qed
    qed
  qed (use Cons.prems(1) in \<open>subst ws_loop.simps, simp\<close>)
qed

lemma run_frames_append:
  "run_frames env i (fs @ gs) w =
     (case run_frames env i fs w of (Drained, w') \<Rightarrow> run_frames env i gs w' | r \<Rightarrow> r)"
proof (induction fs arbitrary: w)
  case (Cons f fs)
  show ?case
  proof (cases "ms_closing (sess w i)")
    case True
    then have "run_frames env i gs w = (Drained, w)" by (cases gs) simp_all
    with True show ?thesis by simp
  qed (use Cons in \<open>simp split: prod.split option.split\<close>)
qed simp

lemma run_frames_closing: "ms_closing (sess w i) \<Longrightarrow> run_frames env i fs w = (Drained, w)"
  by (cases fs) simp_all

text \<open>A length the decoder rejects is rejected again when more bytes have arrived.\<close>

lemma decode_frame_error_append:
  assumes "decode_frame data = Inl e"
  shows "decode_frame (data @ t) = Inl e"
proof (cases "2 \<le> length data")
  case True
  then show ?thesis
  proof (cases rule: decode_frame_cases)
    case (2 n h m h')
    have "(data @ t) ! 0 = data ! 0" "(data @ t) ! 1 = data ! 1" using True by (auto simp: nth_append)
    with 2 assms True show ?thesis
      using decode_length_append [OF 2(1), of t] decode_mask_append [OF 2(2), of t]
      by (auto simp: decode_frame_eq split: if_splits)
  qed (use assms in simp)
qed (use assms in \<open>simp add: decode_frame_def\<close>)

lemma drain_no_error:
  assumes "drain ws_dec (r @ t) = (fs, z)" "\<forall>e. decode_frame z \<noteq> Inl e"
  shows "decode_frame r \<noteq> Inl e"
proof
  assume "decode_frame r = Inl e"
  from decode_frame_error_append [OF this, of t]
  have d: "decode_frame (r @ t) = Inl e" .
  then have "ws_dec (r @ t) = None" by (simp add: ws_dec_def)
  then have "z = r @ t" using assms(1) ws.drain_eq [of "r @ t"] by simp
  with d assms(2) show False by simp
qed

text \<open>The reads of a session whose handshake is done, each followed by the loop and compaction.\<close>

fun ws_reads :: "mqtt_env \<Rightarrow> nat \<Rightarrow> bytes list \<Rightarrow> byte stream_acc \<Rightarrow> mqtt_world \<Rightarrow>
    loop_exit \<times> byte stream_acc \<times> mqtt_world" where
  "ws_reads env i [] acc w = (Drained, acc, w)"
| "ws_reads env i (c # cs) acc w =
     (case ws_loop env i (acc_append c acc) w of
        (Drained, acc, w) \<Rightarrow> if ms_closing (sess w i) then (Drained, acc_compact acc, w)
                            else ws_reads env i cs (acc_compact acc) w
      | r \<Rightarrow> r)"

lemma ws_reads_refines:
  assumes "acc_ok acc" "acc_total_capacity acc + length (concat chunks) < 2 ^ 64"
    and "drain ws_dec (acc_data acc) = ([], acc_data acc)"
    and "drain ws_dec (acc_data acc @ concat chunks) = (fs, rest)" "\<forall>e. decode_frame rest \<noteq> Inl e"
  shows "\<exists>acc'. ws_reads env i chunks acc w = (fst (run_frames env i fs w), acc', snd (run_frames env i fs w)) \<and>
    (fst (run_frames env i fs w) = Drained \<and> \<not> ms_closing (sess (snd (run_frames env i fs w)) i) \<longrightarrow>
       acc_data acc' = rest)"
  using assms
proof (induction chunks arbitrary: acc w fs)
  case Nil
  then show ?case by auto
next
  case (Cons c cs)
  let ?acc = "acc_append c acc"
  have a: "acc_ok ?acc" "acc_data ?acc = acc_data acc @ c"
    using Cons.prems(1,2) acc.app_view [OF Cons.prems(1), of c] by auto
  obtain gs r where gs: "drain ws_dec (acc_data acc @ c) = (gs, r)" by fastforce
  obtain hs q where hs: "drain ws_dec (r @ concat cs) = (hs, q)" by fastforce
  have fs: "fs = gs @ hs" "q = rest"
    using ws.drain_append [OF gs, of "concat cs"] Cons.prems(4) hs by simp_all
  have "decode_frame r \<noteq> Inl e" for e using drain_no_error [OF hs] fs(2) Cons.prems(5) by simp
  then have noerr: "\<forall>e. decode_frame r \<noteq> Inl e" by blast
  obtain x w1 where run: "run_frames env i gs w = (x, w1)" by fastforce
  obtain acc1 where loop: "ws_loop env i ?acc w = (x, acc1, w1)" "acc_ok acc1" "acc_buf acc1 = acc_buf ?acc"
    "x = Drained \<and> \<not> ms_closing (sess w1 i) \<longrightarrow> acc_data acc1 = r"
    using ws_loop_refines [OF a(1) gs [folded a(2)] noerr, of env i w] by (auto simp: run)
  show ?case
  proof (cases x)
    case Drained
    show ?thesis
    proof (cases "ms_closing (sess w1 i)")
      case True
      then show ?thesis using loop run Drained run_frames_closing [OF True] fs by (simp add: run_frames_append)
    next
      case False
      then have r: "acc_data acc1 = r" using loop(4) Drained by simp
      let ?acc1 = "acc_compact acc1"
      have c: "acc_ok ?acc1" "acc_data ?acc1 = r"
        using loop(2) r acc.pack_view [OF loop(2), of 4096] by auto
      have "acc_total_capacity ?acc1 \<le> acc_total_capacity acc1"
        by (simp add: acc_compact_at_def acc_total_capacity_def)
      moreover have "acc_total_capacity acc1 = acc_total_capacity acc + length c"
        using loop(3) by (simp add: acc_total_capacity_def acc_append_def)
      ultimately have cap: "acc_total_capacity ?acc1 + length (concat cs) < 2 ^ 64"
        using Cons.prems(2) by simp
      from Cons.IH [OF c(1) cap, unfolded c(2), OF ws.drain_idle [OF gs] _ Cons.prems(5), of hs w1]
      show ?thesis using hs fs loop run Drained False by (simp add: run_frames_append)
    qed
  qed (use loop run fs in \<open>simp add: run_frames_append\<close>)
qed



text \<open>
  A DISCONNECT does not end a WebSocket session's frames: if the frame behind it in the same buffer
  is an announcement, the closed session still registers a node. It is OK in the registry, its session
  is closed and can never be closed again, so the node is never put in grace and never expires.
\<close>

theorem disconnected_session_registers:
  assumes "reg_ok (me_lib env) (mw_registry w)" "dumps_all (me_lib env)" "i < length (mw_sessions w)"
    and "ms_authenticated (sess w i)" "ms_node_id (sess w i) = []" "\<not> ms_closing (sess w i)"
    and "length (publish_body ''apr/node/meta'' p 0 0) < 2 ^ 21"
    and "parse_meta (me_lib env) (ms_role (sess w i)) p = Inr (role, workers, ep, extra)"
  shows "\<exists>w' node. run_frames env i
      [\<lparr>opcode = 0x02, fin = True, frame_payload = [0xE0, 0x00]\<rparr>,
       \<lparr>opcode = 0x02, fin = True, frame_payload = encode_publish ''apr/node/meta'' p 0 0\<rparr>] w = (Drained, w') \<and>
    ms_closed (sess w' i) \<and> n_role node = role \<and> n_status node = St_ok \<and>
    find_node (mw_registry w') (n_id node) = Some node \<and> ms_node_id (sess w' i) = n_id node \<and>
    (\<forall>env'. \<exists>w''. close_and_notify env' i w' = (None, w'') \<and> mw_registry w'' = mw_registry w')"
proof -
  obtain w1 where close: "close_and_notify env i w = (None, w1)" "mw_registry w1 = mw_registry w"
    "length (mw_sessions w1) = length (mw_sessions w)"
    and s1: "sess w1 i = (sess w i)\<lparr>ms_closed := True, ms_listed := False\<rparr>"
  proof (rule close_plain [OF assms(3,5), of env])
    fix w1
    assume *: "close_and_notify env i w = (None, w1)" "mw_registry w1 = mw_registry w"
      "length (mw_sessions w1) = length (mw_sessions w)"
      "\<And>j. j < length (mw_sessions w) \<Longrightarrow> sess w1 j =
         (if j = i then (sess w i)\<lparr>ms_closed := True, ms_listed := False\<rparr> else sess w j)"
    show thesis by (rule that [OF *(1-3)]) (simp add: *(4) [OF assms(3)])
  qed
  have disc: "process_packet env i [0xE0, 0x00] w = (None, w1)"
    using close(1) by (simp add: process_packet_def handle_disconnect_def)
  obtain w' node where meta: "process_packet env i (encode_publish ''apr/node/meta'' p 0 0) w1 = (None, w')"
    and n: "n_role node = role" "n_status node = St_ok" "ms_node_id (sess w' i) = n_id node"
      "find_node (mw_registry w') (n_id node) = Some node" "ms_closed (sess w' i) = ms_closed (sess w1 i)"
    using meta_publish_registers [of env w1 i 0 p 0 role workers ep extra] assms close(2,3) s1 by auto
  have "close_and_notify env' i w' = (None, upd_sess i (\<lambda>s. s\<lparr>ms_listed := False\<rparr>) w')" for env'
    using n(5) s1 by (simp add: close_and_notify_def close_session_def on_session_closed_def)
  moreover have "run_frames env i
      [\<lparr>opcode = 0x02, fin = True, frame_payload = [0xE0, 0x00]\<rparr>,
       \<lparr>opcode = 0x02, fin = True, frame_payload = encode_publish ''apr/node/meta'' p 0 0\<rparr>] w = (Drained, w')"
    using assms(6) disc meta s1 by simp
  ultimately show ?thesis using n s1 by (intro exI [of _ w'] exI [of _ node]) (simp add: world_simps)
qed

theorem disconnected_session_registers_witness:
  "\<exists>w' node. run_frames (toy_mqtt_env\<lparr>me_lib := meta_lib\<rparr>) 1
      [\<lparr>opcode = 0x02, fin = True, frame_payload = [0xE0, 0x00]\<rparr>,
       \<lparr>opcode = 0x02, fin = True, frame_payload = encode_publish ''apr/node/meta'' ''{}'' 0 0\<rparr>]
      (toy_world\<lparr>mw_registry := registry_init 8192\<rparr>) = (Drained, w') \<and>
    ms_closed (sess w' 1) \<and> find_node (mw_registry w') (n_id node) = Some node \<and> n_status node = St_ok"
proof -
  let ?w = "toy_world\<lparr>mw_registry := registry_init 8192\<rparr>" and ?env = "toy_mqtt_env\<lparr>me_lib := meta_lib\<rparr>"
  have p: "parse_meta (me_lib ?env) (ms_role (sess ?w 1)) ''{}'' = Inr (''db'', [], None, JObj [])"
    by (simp add: parse_meta_def meta_lib_def value_string_def jlookup_def)
  have s: "1 < length (mw_sessions ?w)" "ms_authenticated (sess ?w 1)" "ms_node_id (sess ?w 1) = []"
    "\<not> ms_closing (sess ?w 1)"
    by (simp_all add: toy_world_def toy_session_def mqtt_session_new_def)
  have "reg_ok (me_lib ?env) (mw_registry ?w)" "dumps_all (me_lib ?env)"
    "length (publish_body ''apr/node/meta'' ''{}'' 0 0) < 2 ^ 21"
    by (simp_all add: reg_ok_init meta_lib_dumps publish_body_def)
  from disconnected_session_registers [OF this(1,2) s this(3) p] show ?thesis by blast
qed

end
