(* ===== verification/SessionInv.thy ===== *)
theory SessionInv
  imports MqttTransport
begin

text \<open>
  The invariant the MQTT sessions keep together: the registry is consistent, the guard counts exactly
  the sessions that are not closed (and whatever else the process admitted), within its limits, and
  only an authenticated session holds a node id, one the registry issued. Every handler keeps it, also
  when an exception leaves it.
\<close>

section \<open>The invariant\<close>

abbreviation open_peers :: "mqtt_session list \<Rightarrow> string multiset" where
  "open_peers ss \<equiv> open_of ms_peer ms_closed ss"

definition owner_ok :: "nat \<Rightarrow> mqtt_session \<Rightarrow> bool" where
  "owner_ok c s = (ms_node_id s = [] \<or> ms_authenticated s \<and> issued c (ms_node_id s))"

definition world_ok :: "json_lib \<Rightarrow> connection_limits \<Rightarrow> string multiset \<Rightarrow> mqtt_world \<Rightarrow> bool" where
  "world_ok L lim M w =
     (reg_ok L (mw_registry w) \<and> counts (mw_guard w) (open_peers (mw_sessions w) + M) \<and>
      within_limits lim (open_peers (mw_sessions w) + M) \<and>
      (\<forall>s \<in> set (mw_sessions w). owner_ok (r_id_counter (mw_registry w)) s))"

definition stays :: "json_lib \<Rightarrow> connection_limits \<Rightarrow> string multiset \<Rightarrow> mqtt_world \<Rightarrow> mqtt_world \<Rightarrow> bool" where
  "stays L lim M w w' =
     (length (mw_sessions w') = length (mw_sessions w) \<and> (world_ok L lim M w \<longrightarrow> world_ok L lim M w'))"

lemma issued_mono: "issued c k \<Longrightarrow> c \<le> c' \<Longrightarrow> issued c' k"
  unfolding issued_def using less_le_trans by blast

lemma owner_ok_mono: "owner_ok c s \<Longrightarrow> c \<le> c' \<Longrightarrow> owner_ok c' s"
  using issued_mono by (auto simp: owner_ok_def)

lemma owners_update:
  "\<forall>s \<in> set ss. owner_ok c s \<Longrightarrow> owner_ok c x \<Longrightarrow> \<forall>s \<in> set (ss[i := x]). owner_ok c s"
  using set_update_subset_insert [of ss i x] by blast

section \<open>What keeps it\<close>

lemma stays_refl [simp]: "stays L lim M w w"
  by (simp add: stays_def)

lemma stays_trans: "stays L lim M w1 w2 \<Longrightarrow> stays L lim M w2 w3 \<Longrightarrow> stays L lim M w1 w3"
  by (simp add: stays_def)

lemma stays_length: "stays L lim M w w' \<Longrightarrow> length (mw_sessions w') = length (mw_sessions w)"
  by (simp add: stays_def)

lemma stays_and_then:
  assumes "stays L lim M w (snd r)"
    and "\<And>w'. length (mw_sessions w') = length (mw_sessions w) \<Longrightarrow> stays L lim M w' (snd (f w'))"
  shows "stays L lim M w (snd (and_then r f))"
proof (cases r)
  case (Pair e w')
  then show ?thesis using assms stays_trans stays_length by (cases e) force+
qed

lemma caught_world [simp]: "snd (caught r) = snd r"
  by (cases r rule: caught.cases) auto

text \<open>Changing a session in a way that leaves its peer, its life and its ownership alone.\<close>

definition minor :: "(mqtt_session \<Rightarrow> mqtt_session) \<Rightarrow> bool" where
  "minor f = (\<forall>s. ms_peer (f s) = ms_peer s \<and> ms_closed (f s) = ms_closed s \<and>
     (\<forall>c. owner_ok c s \<longrightarrow> owner_ok c (f s)))"

lemma stays_sessions:
  assumes "length ss = length (mw_sessions w)"
    and "\<And>j. j < length ss \<Longrightarrow> ms_peer (ss ! j) = ms_peer (sess w j) \<and> ms_closed (ss ! j) = ms_closed (sess w j)"
    and "\<And>j c. j < length ss \<Longrightarrow> owner_ok c (sess w j) \<Longrightarrow> owner_ok c (ss ! j)"
  shows "stays L lim M w (w\<lparr>mw_sessions := ss\<rparr>)"
proof -
  have "open_peers ss = open_peers (mw_sessions w)"
    by (rule open_of_same) (simp add: list_all2_conv_all_nth assms(1,2))
  then show ?thesis using assms(1,3) by (simp add: stays_def world_ok_def all_set_conv_all_nth)
qed

lemma stays_upd:
  assumes "minor f"
  shows "stays L lim M w (upd_sess i f w)"
  unfolding upd_sess_def
proof (rule stays_sessions)
  fix j
  assume "j < length ((mw_sessions w)[i := f (sess w i)])"
  then show "ms_peer ((mw_sessions w)[i := f (sess w i)] ! j) = ms_peer (sess w j) \<and>
      ms_closed ((mw_sessions w)[i := f (sess w i)] ! j) = ms_closed (sess w j)"
    using assms by (cases "i = j") (auto simp: minor_def)
next
  fix j c
  assume "j < length ((mw_sessions w)[i := f (sess w i)])" "owner_ok c (sess w j)"
  then show "owner_ok c ((mw_sessions w)[i := f (sess w i)] ! j)"
    using assms by (cases "i = j") (auto simp: minor_def)
qed simp

lemma stays_registry:
  assumes "reg_ok L (mw_registry w) \<Longrightarrow> reg_ok L r \<and> r_id_counter (mw_registry w) \<le> r_id_counter r"
  shows "stays L lim M w (w\<lparr>mw_registry := r\<rparr>)"
  using assms owner_ok_mono by (auto simp: stays_def world_ok_def)

lemma stays_mem:
  assumes "\<And>t. extra_bytes (f t) = extra_bytes t"
  shows "stays L lim M w (track_mem f w)"
  unfolding track_mem_def by (rule stays_registry) (simp add: reg_ok_def assms)

lemma stays_sends:
  assumes "only_sends w w'"
  shows "stays L lim M w w'"
proof -
  have c: "mw_guard w' = mw_guard w" "r_id_counter (mw_registry w') = r_id_counter (mw_registry w)"
    "length (mw_sessions w') = length (mw_sessions w)" using only_sendsD [OF assms] by auto
  have "open_peers (mw_sessions w') = open_peers (mw_sessions w)"
    by (rule open_of_same) (simp add: list_all2_conv_all_nth c(3) only_sends_sess [OF assms])
  moreover have "(\<forall>s \<in> set (mw_sessions w'). owner_ok k s) = (\<forall>s \<in> set (mw_sessions w). owner_ok k s)" for k
    by (simp add: all_set_conv_all_nth c(3) owner_ok_def only_sends_sess [OF assms])
  ultimately show ?thesis
    using c only_sends_reg_ok [OF assms] by (simp add: stays_def world_ok_def)
qed

lemma stays_deliver: "stays L lim M w (snd (deliver env ev w))"
  using only_sends_deliver [of env ev w] stays_sends by (metis prod.collapse)

lemma stays_raw: "stays L lim M w (send_raw i data af w)"
  by (rule stays_sends [OF only_sends_raw])

lemma stays_queue: "stays L lim M w (queue_write i x w)"
  unfolding queue_write_def by (rule stays_upd) (simp add: minor_def owner_ok_def)

lemma stays_raw_close: "stays L lim M w (send_raw_and_close i data w)"
  unfolding send_raw_and_close_def Let_def
  by (rule stays_trans [OF stays_upd stays_trans [OF stays_mem stays_queue]])
    (simp_all add: minor_def owner_ok_def add_mqtt_tx_bytes_def)

text \<open>Delivering what an operation of the registry announces.\<close>

lemma stays_notify:
  assumes "reg_ok L (mw_registry w) \<Longrightarrow> reg_ok L r \<and> r_id_counter (mw_registry w) \<le> r_id_counter r"
  shows "stays L lim M w (snd (deliver env ev (w\<lparr>mw_registry := r\<rparr>)))"
  by (rule stays_trans [OF stays_registry [OF assms] stays_deliver])

lemma counter_kept:
  "mark_node_grace now k r = (b, ev, r') \<Longrightarrow> r_id_counter r' = r_id_counter r"
  "update_node_extra L now k w v r = (res, ev, r') \<Longrightarrow> r_id_counter r' = r_id_counter r"
  "remove_node_permanently L sz k r = (res, ev, r') \<Longrightarrow> r_id_counter r' = r_id_counter r"
  by (auto simp: mark_node_grace_def update_node_extra_def remove_node_permanently_def put_node_def Let_def
      split: option.splits prod.splits sum.splits bool.splits)

lemma register_counter:
  assumes "reg_ok L r" "existing = [] \<or> issued (r_id_counter r) existing"
    and "register_or_update_node L sz now t_id role workers ep peer_ip existing extra r = (res, ev, r')"
  shows "r_id_counter r \<le> r_id_counter r'"
  using assms by (rule register_outcome) (simp add: put_node_def)

section \<open>The handlers\<close>

lemma close_session_stays:
  assumes "i < length (mw_sessions w)"
  shows "stays (me_lib env) lim M w (snd (close_session env i w))"
proof (cases "ms_closed (sess w i)")
  case False
  let ?s = "(sess w i)\<lparr>ms_closed := True\<rparr>"
  let ?w = "upd_sess i (\<lambda>s. s\<lparr>ms_closed := True\<rparr>) w"
  let ?w1 = "?w\<lparr>mw_guard := release (ms_peer (sess w i)) (mw_guard w)\<rparr>"
  note p = open_of_close [where closed = ms_closed and peer = ms_peer, OF assms False, of ?s]
  have "stays (me_lib env) lim M w ?w1"
  proof -
    have "world_ok (me_lib env) lim M ?w1" if "world_ok (me_lib env) lim M w"
    proof -
      have "owner_ok c ?s" if "\<forall>s \<in> set (mw_sessions w). owner_ok c s" for c
        using that assms by (auto simp: owner_ok_def)
      note owners_update [OF _ this]
      moreover have "open_peers (mw_sessions w) - {#ms_peer (sess w i)#} + M =
          open_peers (mw_sessions w) + M - {#ms_peer (sess w i)#}" using p by simp
      ultimately show ?thesis
        using that p cg.rel_step [of "mw_guard w" "open_peers (mw_sessions w) + M" lim "ms_peer (sess w i)"]
        by (auto simp: world_ok_def upd_sess_def)
    qed
    then show ?thesis by (simp add: stays_def world_simps)
  qed
  moreover have "stays (me_lib env) lim M ?w1 (snd (close_session env i w))"
  proof -
    obtain b ev r where m: "mark_node_grace (me_now env) (ms_node_id (sess w i)) (mw_registry w) = (b, ev, r)"
      by (metis prod_cases3)
    show ?thesis
      using assms m stays_notify [of "me_lib env" ?w1 r lim M env ev] mark_grace_ok [OF _ m] counter_kept(1) [OF m] False
      by (auto simp: close_session_def on_before_close_def Let_def world_simps)
  qed
  ultimately show ?thesis by (rule stays_trans)
qed (simp add: close_session_def)

lemma close_and_notify_stays:
  assumes "i < length (mw_sessions w)"
  shows "stays (me_lib env) lim M w (snd (close_and_notify env i w))"
  unfolding close_and_notify_def
  by (rule stays_and_then [OF close_session_stays [OF assms]])
    (simp add: on_session_closed_def stays_upd minor_def owner_ok_def)

lemma register_meta_stays:
  assumes "i < length (mw_sessions w)" "ms_authenticated (sess w i)"
  shows "stays (me_lib env) lim M w (snd (register_meta env i payload w))"
proof (cases "parse_meta (me_lib env) (ms_role (sess w i)) payload")
  case (Inr x)
  obtain role workers ep extra where x: "x = (role, workers, ep, extra)" by (cases x)
  obtain res ev r where reg: "register_or_update_node (me_lib env) (me_node_size env) (me_now env) (me_id_time env)
      role workers ep (ms_peer (sess w i)) (ms_node_id (sess w i)) extra (mw_registry w) = (res, ev, r)"
    by (metis prod_cases3)
  let ?w1 = "w\<lparr>mw_registry := r\<rparr>"
  obtain e w2 where d: "deliver env ev ?w1 = (e, w2)" by fastforce
  let ?w' = "snd (register_meta env i payload w)"
  have w': "?w' = (case res of Inl e \<Rightarrow> ?w1
      | Inr node \<Rightarrow> if e = None then upd_sess i (\<lambda>s. s\<lparr>ms_node_id := n_id node\<rparr>) w2 else w2)"
    using Inr x reg d by (cases res; cases e) (simp_all add: register_meta_def)
  have len: "length (mw_sessions w2) = length (mw_sessions w)"
    using only_sendsD(1) [OF only_sends_deliver [OF d]] by simp
  have "world_ok (me_lib env) lim M ?w'" if ok: "world_ok (me_lib env) lim M w"
  proof -
    have ex: "ms_node_id (sess w i) = [] \<or> issued (r_id_counter (mw_registry w)) (ms_node_id (sess w i))"
      and rok: "reg_ok (me_lib env) (mw_registry w)"
      using ok assms(1) by (auto simp: world_ok_def owner_ok_def)
    have r: "reg_ok (me_lib env) r" by (rule register_ok [OF rok ex reg])
    have w1: "world_ok (me_lib env) lim M ?w1"
      using ok stays_registry [of "me_lib env" w r lim M] r register_counter [OF rok ex reg] by (simp add: stays_def)
    have w2: "world_ok (me_lib env) lim M w2"
      using w1 stays_deliver [of "me_lib env" lim M ?w1 env ev] d by (simp add: stays_def)
    show ?thesis
    proof (cases res)
      case (Inr node)
      have "find_node r (n_id node) = Some node"
        using register_stored [OF rok ex reg [unfolded Inr]] by blast
      then have "issued (r_id_counter r) (n_id node)" using reg_ok_lookup [OF r] by blast
      then have "issued (r_id_counter (mw_registry w2)) (n_id node)"
        using only_sendsD(4) [OF only_sends_deliver [OF d]] by simp
      then have "owner_ok (r_id_counter (mw_registry w2)) ((sess w2 i)\<lparr>ms_node_id := n_id node\<rparr>)"
        using assms only_sends_sess(5) [OF only_sends_deliver [OF d], of i] by (simp add: owner_ok_def)
      moreover have "open_peers ((mw_sessions w2)[i := (sess w2 i)\<lparr>ms_node_id := n_id node\<rparr>]) = open_peers (mw_sessions w2)"
        by (rule open_of_update) simp_all
      ultimately have "world_ok (me_lib env) lim M (upd_sess i (\<lambda>s. s\<lparr>ms_node_id := n_id node\<rparr>) w2)"
        using w2 owners_update [of "mw_sessions w2" "r_id_counter (mw_registry w2)"]
        by (simp add: world_ok_def upd_sess_def)
      then show ?thesis using w' w2 Inr by simp
    qed (use w' w1 in simp)
  qed
  moreover have "length (mw_sessions ?w') = length (mw_sessions w)"
    using w' len by (auto simp: world_simps split: sum.split)
  ultimately show ?thesis by (simp add: stays_def)
qed (simp add: register_meta_def)

lemma stays_extra:
  assumes "update_node_extra (me_lib env) now k worker v (mw_registry w) = (res, ev, r)"
  shows "stays (me_lib env) lim M w (w\<lparr>mw_registry := r\<rparr>)"
    "stays (me_lib env) lim M w (snd (deliver env ev (w\<lparr>mw_registry := r\<rparr>)))"
  using assms update_extra_ok [OF _ assms] counter_kept(2) [OF assms]
  by (simp_all add: stays_registry stays_notify)

lemma announce_extra_stays: "stays (me_lib env) lim M w (snd (announce_extra env i payload w))"
proof -
  let ?p = "bind_res (json_parse (me_lib env) payload) (\<lambda>j.
      bind_res (value_string j ''worker'' []) (\<lambda>worker. Inr (worker, jlookup j ''extra'')))"
  show ?thesis
  proof (cases ?p)
    case (Inr x)
    obtain worker v where x: "x = (worker, v)" by (cases x)
    show ?thesis
    proof (cases v)
      case (Some v)
      obtain res ev r where u: "update_node_extra (me_lib env) (me_now env) (ms_node_id (sess w i)) worker v (mw_registry w) =
          (res, ev, r)" by (metis prod_cases3)
      show ?thesis unfolding announce_extra_def Inr x Some
        using u stays_extra [OF u] by (cases res) simp_all
    next
      case None
      show ?thesis unfolding announce_extra_def Inr x None by simp
    qed
  next
    case (Inl e)
    show ?thesis unfolding announce_extra_def Inl by simp
  qed
qed

text \<open>The packet handlers.\<close>

lemma minor_simps [simp]:
  "minor (\<lambda>s. s\<lparr>ms_client_id := a, ms_username := b\<rparr>)"
  "minor (\<lambda>s. s\<lparr>ms_role := f s, ms_authenticated := True\<rparr>)"
  "minor (\<lambda>s. s\<lparr>ms_subs := g s\<rparr>)" "minor (\<lambda>s. s\<lparr>ms_reading := c\<rparr>)" "minor (\<lambda>s. s\<lparr>ms_acc := h s\<rparr>)"
  "minor (\<lambda>s. s\<lparr>ms_writes := k s\<rparr>)" "minor (\<lambda>s. s\<lparr>ms_listed := c\<rparr>)"
  "minor (\<lambda>s. s\<lparr>ms_is_ws := True, ms_handshake_done := True, ms_acc := acc\<rparr>)"
  "minor (\<lambda>s. s\<lparr>ms_handshake_done := True, ms_is_ws := False\<rparr>)"
  by (auto simp: minor_def owner_ok_def)

lemma handle_connect_stays: "stays (me_lib env) lim M w (snd (handle_connect env i data w))"
  by (auto simp: handle_connect_def Let_def stays_raw_close
      intro: stays_trans [OF stays_upd stays_raw_close] stays_trans [OF stays_upd stays_trans [OF stays_upd stays_raw]]
      split: sum.split option.split)

lemma handle_publish_stays:
  assumes "i < length (mw_sessions w)"
  shows "stays (me_lib env) lim M w (snd (handle_publish env i data w))"
proof (cases "ms_authenticated (sess w i)")
  case True
  have acked: "stays (me_lib env) lim M w (snd (if a then caught (register_meta env i p w')
      else if b then if c then (None, w') else caught (announce_extra env i p w')
      else if d then (None, broadcast sv t p w') else (None, w')))"
    if "w' = w \<or> w' = send_raw i ack False w" for w' a b c d p sv t ack
  proof -
    have w': "stays (me_lib env) lim M w w'" "i < length (mw_sessions w')" "ms_authenticated (sess w' i)"
      using that stays_raw assms True by (auto simp: send_raw_sess only_sendsD [OF only_sends_raw])
    show ?thesis
      using w'(1) stays_trans [OF w'(1) register_meta_stays [OF w'(2,3)]]
        stays_trans [OF w'(1) announce_extra_stays] stays_trans [OF w'(1) stays_sends [OF only_sends_broadcast]]
      by simp
  qed
  obtain c where d: "decode_publish data = Inr c" using decoders_return(2) by blast
  show ?thesis
  proof (cases c)
    case (Some pub)
    show ?thesis
      unfolding handle_publish_def d Some Let_def using True by (simp only: if_True not_True_eq_False if_False
          sum.case option.case) (rule acked [where ack = "encode_puback (pub_packet_id pub)"], simp)
  qed (use d in \<open>simp add: handle_publish_def\<close>)
qed (simp add: handle_publish_def)

lemma process_packet_stays:
  assumes "i < length (mw_sessions w)"
  shows "stays (me_lib env) lim M w (snd (process_packet env i data w))"
proof -
  have "stays (me_lib env) lim M w (snd (handle_subscribe i data w))"
    by (auto simp: handle_subscribe_def Let_def intro: stays_trans [OF stays_upd stays_raw]
        split: sum.split option.split)
  moreover have "stays (me_lib env) lim M w (snd (handle_pingreq i w))"
    by (simp add: handle_pingreq_def stays_raw)
  ultimately show ?thesis
    using handle_connect_stays handle_publish_stays [OF assms] close_and_notify_stays [OF assms]
    by (simp add: process_packet_def handle_disconnect_def Let_def)
qed

section \<open>The transports and the server\<close>

lemma ws_loop_stays:
  "i < length (mw_sessions w) \<Longrightarrow> stays (me_lib env) lim M w (snd (snd (ws_loop env i acc w)))"
proof (induction env i acc w rule: ws_loop.induct)
  case (1 env i acc w)
  show ?case
  proof (cases "ms_closing (sess w i) \<or> acc_is_empty acc")
    case False
    consider (stop) "\<forall>n f. decode_frame (acc_data acc) \<noteq> Inr (Some (n, f))"
      | (frame) n f where "decode_frame (acc_data acc) = Inr (Some (n, f))" by blast
    then show ?thesis
    proof cases
      case stop
      then show ?thesis using False
        by (subst ws_loop.simps) (auto split: sum.split option.split)
    next
      case frame
      let ?acc = "acc_consume n acc" and ?p = "frame_payload f"
      obtain e w1 where p: "process_packet env i ?p w = (e, w1)" by fastforce
      obtain c w2 where c: "close_and_notify env i w = (c, w2)" by fastforce
      let ?w3 = "queue_write i (Pong_write (encode_frame ?p 0x0A)) w"
      have k: "stays (me_lib env) lim M w w1" "stays (me_lib env) lim M w w2" "stays (me_lib env) lim M w ?w3"
        using process_packet_stays [OF 1(4), of env lim M ?p] close_and_notify_stays [OF 1(4), of env lim M]
        by (simp_all add: p c stays_queue)
      have len: "i < length (mw_sessions w1)" "i < length (mw_sessions ?w3)"
        using k 1(4) by (simp_all add: stays_length)
      note IH = 1(1) [OF False frame refl refl refl _ p [symmetric] _ len(1)]
        1(2) [OF False frame refl refl refl _ _ _ len(2)]
        1(3) [OF False frame refl refl refl _ _ _ 1(4)]
      have loop: "ws_loop env i acc w =
          (if opcode f = 0x01 \<or> opcode f = 0x02
           then if e = None then ws_loop env i ?acc w1 else (Returned e, ?acc, w1)
           else if opcode f = 0x08 then (Returned c, ?acc, w2)
           else if opcode f = 0x09 then ws_loop env i ?acc ?w3
           else ws_loop env i ?acc w)"
        using False frame p c by (subst ws_loop.simps) (cases e; simp add: Let_def)
      show ?thesis
        unfolding loop using k IH stays_trans [OF k(1)] stays_trans [OF k(3)] by simp
    qed
  qed (simp add: ws_loop.simps)
qed

lemma read_on_stays: "stays L lim M w (read_on i w)"
  by (simp add: read_on_def start_read_loop_def stays_upd)

lemma ws_frames_stays:
  assumes "i < length (mw_sessions w)"
  shows "stays (me_lib env) lim M w (snd (ws_frames env i w))"
proof -
  obtain x acc w1 where l: "ws_loop env i (ms_acc (sess w i)) w = (x, acc, w1)" by (metis prod_cases3)
  then have k: "stays (me_lib env) lim M w w1" using ws_loop_stays [OF assms, of env lim M "ms_acc (sess w i)"] by simp
  show ?thesis
    using stays_trans [OF k stays_upd] stays_trans [OF k stays_trans [OF stays_upd read_on_stays]]
    by (cases x) (simp_all add: ws_frames_def l)
qed

lemma first_bytes_stays:
  assumes "i < length (mw_sessions w)"
  shows "stays (me_lib env) lim M w (snd (first_bytes env i w))"
proof -
  have ws: "stays (me_lib env) lim M w (snd (ws_frames env i (queue_write i x (upd_sess i
      (\<lambda>s. s\<lparr>ms_is_ws := True, ms_handshake_done := True, ms_acc := a\<rparr>) w))))" for x a
    using assms by (intro stays_trans [OF stays_upd stays_trans [OF stays_queue ws_frames_stays]])
      (simp_all add: queue_write_def world_simps)
  have native: "stays (me_lib env) lim M w (snd (and_then (process_packet env i data (upd_sess i
      (\<lambda>s. s\<lparr>ms_handshake_done := True, ms_is_ws := False\<rparr>) w)) (\<lambda>w.
        (None, read_on i (upd_sess i (\<lambda>s. s\<lparr>ms_acc := acc_clear (ms_acc s)\<rparr>) w)))))" for data
  proof (rule stays_trans [OF stays_upd stays_and_then [OF process_packet_stays]])
    show "stays (me_lib env) lim M w' (snd (None, read_on i (upd_sess i (\<lambda>s. s\<lparr>ms_acc := acc_clear (ms_acc s)\<rparr>) w')))" for w'
      by (simp add: stays_trans [OF stays_upd read_on_stays])
  qed (use assms in \<open>simp_all add: world_simps\<close>)
  show ?thesis
    using ws native close_and_notify_stays [OF assms]
    by (simp add: first_bytes_def Let_def start_read_loop_def stays_upd split: option.split)
qed

lemma on_bytes_read_stays:
  assumes "i < length (mw_sessions w)"
  shows "stays (me_lib env) lim M w (snd (on_bytes_read env i data w))"
proof -
  let ?w = "track_mem (add_mqtt_rx_bytes (int (length data))) w"
  let ?a = "upd_sess i (\<lambda>s. s\<lparr>ms_acc := acc_append data (ms_acc s)\<rparr>) ?w"
  have m: "stays (me_lib env) lim M w ?w" by (rule stays_mem) (simp add: add_mqtt_rx_bytes_def)
  have a: "stays (me_lib env) lim M w ?a" by (rule stays_trans [OF m stays_upd]) simp
  have len: "i < length (mw_sessions ?w)" "i < length (mw_sessions ?a)" using assms by (simp_all add: world_simps)
  have "stays (me_lib env) lim M ?w (snd (and_then (process_packet env i data ?w) (\<lambda>w. (None, read_on i w))))"
    by (rule stays_and_then [OF process_packet_stays [OF len(1)]]) (simp add: read_on_stays)
  note native = stays_trans [OF m this]
  have pick: "P (snd x1) \<Longrightarrow> P (snd x2) \<Longrightarrow> P (snd x3) \<Longrightarrow> P (snd x4) \<Longrightarrow> P (snd x5) \<Longrightarrow>
      P (snd (if b1 then if b2 then x1 else x2 else if b3 then if b2 then x1 else x3 else if b4 then x4 else x5))"
    for P :: "mqtt_world \<Rightarrow> bool" and x1 x2 x3 x4 x5 :: "mqtt_world outcome" and b1 b2 b3 b4
    by simp
  show ?thesis
    unfolding on_bytes_read_def Let_def
    by (rule pick [OF stays_trans [OF a close_and_notify_stays [OF len(2)]]
        stays_trans [OF a first_bytes_stays [OF len(2)]] stays_trans [OF a ws_frames_stays [OF len(2)]]
        stays_trans [OF m ws_frames_stays [OF len(1)]] native])
qed

text \<open>The completion handlers, the acceptor and the end of a server.\<close>

lemma completions_stay:
  assumes "i < length (mw_sessions w)"
  shows "stays (me_lib env) lim M w (snd (read_done env i ec data w))"
    "stays (me_lib env) lim M w (snd (write_done env i ec x w))"
    "stays (me_lib env) lim M w (snd (idle_expired env i w))"
proof -
  have len: "i < length (mw_sessions (upd_sess i f w))" for f using assms by (simp add: world_simps)
  show "stays (me_lib env) lim M w (snd (read_done env i ec data w))"
    using stays_trans [OF stays_upd close_and_notify_stays [OF len]] stays_trans [OF stays_upd on_bytes_read_stays [OF len]]
    by (simp add: read_done_def Let_def)
  show "stays (me_lib env) lim M w (snd (write_done env i ec x w))"
    using stays_trans [OF stays_upd close_and_notify_stays [OF len]]
    by (cases x) (simp_all add: write_done_def Let_def stays_upd)
  show "stays (me_lib env) lim M w (snd (idle_expired env i w))"
    by (simp add: idle_expired_def close_and_notify_stays [OF assms])
qed

lemma accept_ok:
  assumes "world_ok L lim M w"
  shows "world_ok L lim M (mqtt_accept lim now server peer peer w)"
proof -
  let ?s = "(mqtt_session_new server peer)\<lparr>ms_listed := True, ms_reading := True\<rparr>"
  obtain b g where t: "try_acquire lim now peer (mw_guard w) = (b, g)" by fastforce
  note step = cg.acquire_step [OF _ _ t, of "open_peers (mw_sessions w) + M"]
  have new: "open_peers (mw_sessions w @ [?s]) = add_mset peer (open_peers (mw_sessions w))"
    "owner_ok c ?s" for c
    by (simp_all add: open_of_def mqtt_session_new_def owner_ok_def)
  show ?thesis
  proof (cases b)
    case True
    have "mqtt_accept lim now server peer peer w = w\<lparr>mw_guard := g, mw_sessions := mw_sessions w @ [?s]\<rparr>"
      using t True by (simp add: mqtt_accept_def start_read_loop_def upd_sess_def)
    then show ?thesis using assms step True new by (simp add: world_ok_def)
  next
    case False
    then show ?thesis using assms step t by (simp add: mqtt_accept_def world_ok_def)
  qed
qed

lemma drop_session_stays:
  assumes "i < length (mw_sessions w)"
  shows "stays (me_lib env) lim M w (snd (drop_session env server i w))"
proof -
  let ?w = "upd_sess i (\<lambda>s. s\<lparr>ms_listed := False\<rparr>) w"
  have u: "stays (me_lib env) lim M w ?w" by (simp add: stays_upd)
  have "i < length (mw_sessions ?w)" using assms by (simp add: world_simps)
  from stays_trans [OF u close_session_stays [OF this]] u show ?thesis
    by (simp add: drop_session_def Let_def)
qed

lemma server_stop_stays: "stays (me_lib env) lim M w (snd (mqtt_server_stop env server w))"
proof -
  have "stays (me_lib env) lim M w (snd (fold (\<lambda>i r. and_then r (drop_session env server i)) is r))"
    if "stays (me_lib env) lim M w (snd r)" "\<forall>i \<in> set is. i < length (mw_sessions w)" for "is" r
    using that
  proof (induction "is" arbitrary: r)
    case (Cons i "is")
    have "stays (me_lib env) lim M w (snd (and_then r (drop_session env server i)))"
      using Cons.prems by (intro stays_and_then drop_session_stays) simp_all
    with Cons show ?case by simp
  qed simp
  then show ?thesis by (simp add: mqtt_server_stop_def)
qed

lemma server_delete_stays: "stays (me_lib env) lim M w (snd (mqtt_server_delete env server token w))"
  unfolding mqtt_server_delete_def
  by (rule stays_trans [OF stays_registry server_stop_stays]) (simp add: remove_event_callback_def)

end
