(* ===== verification/HttpParsing.thy ===== *)
theory HttpParsing
  imports StreamAcc
begin

text \<open>
  The HTTP request parser (\<open>src/http/http_parsing.hpp\<close>, \<open>http_parsing.cpp\<close>): finding the end of a
  request in the receive buffer, the request line, the query string and the headers. A position in
  the text is represented by the remaining suffix. The hash maps are association lists; the order in
  which the headers are iterated is the argument \<open>iter\<close>. The 64-bit arithmetic of the body length
  wraps.
\<close>

record http_request =
  req_method :: string
  req_path :: string
  req_version :: string
  req_query :: "(string \<times> string) list"
  req_headers :: "(string \<times> string) list"
  req_keep_alive :: bool

definition request_default :: http_request where
  "request_default = \<lparr>req_method = [], req_path = [], req_version = ''HTTP/1.1'', req_query = [],
     req_headers = [], req_keep_alive = True\<rparr>"

section \<open>Lines and pairs\<close>

definition iequals_ascii :: "string \<Rightarrow> string \<Rightarrow> bool" where
  "iequals_ascii a b = (length a = length b \<and> to_lower a = to_lower b)"

text \<open>The line at the front of the text, without its ending, and the text after it.\<close>

definition next_line :: "string \<Rightarrow> string \<times> string" where
  "next_line raw =
     (let line = takeWhile (\<lambda>c. c \<noteq> CHR 0x0A) raw
      in (strip_cr line, drop (length line + 1) raw))"

text \<open>One item of the query string.\<close>

definition query_item :: "string \<Rightarrow> (string \<times> string) list \<Rightarrow> (string \<times> string) list" where
  "query_item item m =
     (case find_char CHR ''='' item 0 of
        Some e \<Rightarrow> AList.update (take e item) (drop (e + 1) item) m
      | None \<Rightarrow> if item \<noteq> [] then AList.update item [] m else m)"

function parse_query_loop :: "string \<Rightarrow> (string \<times> string) list \<Rightarrow> (string \<times> string) list" where
  "parse_query_loop s m =
     (if s = [] then m
      else let item = takeWhile (\<lambda>c. c \<noteq> CHR ''&'') s
           in parse_query_loop (drop (length item + 1) s) (query_item item m))"
  by pat_completeness auto
termination by (relation "measure (\<lambda>(s, m). length s)") auto

definition parse_query :: "string \<Rightarrow> (string \<times> string) list" where
  "parse_query s = parse_query_loop s []"

section \<open>The request\<close>

text \<open>The request line, split at its spaces and at the question mark.\<close>

definition parse_request_line :: "string \<Rightarrow> http_request \<Rightarrow> http_request" where
  "parse_request_line line req =
     (case find_char CHR '' '' line 0 of
        None \<Rightarrow> req
      | Some sp1 \<Rightarrow>
          let req = req\<lparr>req_method := take sp1 line\<rparr>;
              rest = strip_spaces (drop sp1 line);
              full_path = takeWhile (\<lambda>c. c \<noteq> CHR '' '') rest;
              ver = (case find_char CHR '' '' rest 0 of
                       None \<Rightarrow> [] | Some sp2 \<Rightarrow> strip_spaces (drop sp2 rest));
              req = (if ver \<noteq> [] then req\<lparr>req_version := ver\<rparr> else req)
          in (case find_char CHR ''?'' full_path 0 of
                Some q \<Rightarrow> req\<lparr>req_path := take q full_path, req_query := parse_query (drop (q + 1) full_path)\<rparr>
              | None \<Rightarrow> req\<lparr>req_path := full_path\<rparr>))"

definition header_line :: "string \<Rightarrow> (string \<times> string) list \<Rightarrow> (string \<times> string) list" where
  "header_line line hs =
     (case find_char CHR '':'' line 0 of
        Some colon \<Rightarrow> AList.update (take colon line) (strip_spaces (drop (colon + 1) line)) hs
      | None \<Rightarrow> hs)"

function parse_headers :: "string \<Rightarrow> (string \<times> string) list \<Rightarrow> (string \<times> string) list" where
  "parse_headers raw hs =
     (if raw = [] then hs
      else let (line, rest) = next_line raw
           in if line = [] then hs else parse_headers rest (header_line line hs))"
  by pat_completeness auto
termination by (relation "measure (\<lambda>(s, m). length s)") (auto simp: next_line_def Let_def)

text \<open>The first header named \<open>Connection\<close> in any case, in the map's iteration order.\<close>

definition connection_header :: "((string \<times> string) list \<Rightarrow> (string \<times> string) list) \<Rightarrow>
    (string \<times> string) list \<Rightarrow> string" where
  "connection_header iter hs =
     (case filter (\<lambda>kv. iequals_ascii (fst kv) ''Connection'') (iter hs) of
        [] \<Rightarrow> [] | kv # _ \<Rightarrow> snd kv)"

definition keep_alive_of :: "string \<Rightarrow> string \<Rightarrow> bool" where
  "keep_alive_of version connection =
     (if to_lower connection = ''close'' then False
      else if to_lower connection = ''keep-alive'' then True
      else find_sub ''1.1'' version \<noteq> None)"

definition parse_raw_http :: "((string \<times> string) list \<Rightarrow> (string \<times> string) list) \<Rightarrow> string \<Rightarrow> http_request"
where
  "parse_raw_http iter raw =
     (let (req, rest) = (if raw \<noteq> [] then let (line, rest) = next_line raw
                                          in (parse_request_line line request_default, rest)
                         else (request_default, raw));
          req = req\<lparr>req_headers := parse_headers rest []\<rparr>
      in req\<lparr>req_keep_alive := keep_alive_of (req_version req) (connection_header iter (req_headers req))\<rparr>)"

section \<open>The end of a request\<close>

text \<open>\<open>parsed = parsed * 10 + (c - '0')\<close> over the leading digits, modulo \<open>2 ^ 64\<close>.\<close>

primrec read_length :: "nat \<Rightarrow> string \<Rightarrow> nat" where
  "read_length acc [] = acc"
| "read_length acc (c # cs) =
     (if is_digit c then read_length (wrap64 (acc * 10 + digit_val c)) cs else acc)"

definition length_line :: "string \<Rightarrow> nat \<Rightarrow> nat" where
  "length_line line content_length =
     (let line = strip_cr line
      in case find_char CHR '':'' line 0 of
           Some colon \<Rightarrow>
             if iequals_ascii (take colon line) ''Content-Length''
             then read_length 0 (strip_spaces (drop (colon + 1) line))
             else content_length
         | None \<Rightarrow> content_length)"

function scan_headers :: "string \<Rightarrow> nat \<Rightarrow> nat" where
  "scan_headers block content_length =
     (let line = takeWhile (\<lambda>c. c \<noteq> CHR 0x0A) block;
          content_length = length_line line content_length
      in if length line < length block then scan_headers (drop (length line + 1) block) content_length
         else content_length)"
  by pat_completeness auto
termination by (relation "measure (\<lambda>(s, m). length s)") auto

definition find_request_boundary :: "string \<Rightarrow> nat option" where
  "find_request_boundary buffered =
     (case find_sub (crlf @ crlf) buffered of
        None \<Rightarrow> None
      | Some header_end \<Rightarrow>
          let headers_len = header_end + 4;
              content_length = scan_headers (take header_end buffered) 0;
              total = wrap64 (headers_len + content_length)
          in if length buffered < total then None else Some total)"

declare parse_query_loop.simps [simp del] parse_headers.simps [simp del] scan_headers.simps [simp del]

section \<open>Requests in the byte stream\<close>

text \<open>What a session takes from the buffer: a complete request of at least one byte.\<close>

definition http_dec :: "(char, string) decoder" where
  "http_dec s = (case find_request_boundary s of
     Some n \<Rightarrow> if n = 0 then None else Some (n, take n s) | None \<Rightarrow> None)"

lemma boundary_bound: "find_request_boundary s = Some n \<Longrightarrow> n \<le> length s"
  by (auto simp: find_request_boundary_def Let_def split: option.splits if_splits)

lemma boundary_append:
  "find_request_boundary s = Some n \<Longrightarrow> find_request_boundary (s @ t) = Some n"
proof -
  assume b: "find_request_boundary s = Some n"
  then obtain e where e: "find_sub (crlf @ crlf) s = Some e"
    by (auto simp: find_request_boundary_def split: option.splits)
  then have "e \<le> length s" using find_sub_Some_bound by fastforce
  then show ?thesis using b e find_sub_append [OF e, of t]
    by (auto simp: find_request_boundary_def Let_def split: if_splits)
qed

interpretation http: frame_decoder http_dec
proof
  fix s t :: string and n f
  assume "http_dec s = Some (n, f)"
  then have n: "find_request_boundary s = Some n" "n \<noteq> 0" "f = take n s"
    by (auto simp: http_dec_def split: option.splits if_splits)
  then show "0 < n \<and> n \<le> length s" "http_dec (s @ t) = Some (n, f)"
    using boundary_bound [OF n(1)] boundary_append [OF n(1), of t] by (auto simp: http_dec_def)
qed

section \<open>Well-formed messages\<close>

text \<open>A header block: non-empty lines without line breaks, each ended by CRLF, then an empty line.\<close>

definition good_line :: "string \<Rightarrow> bool" where
  "good_line l = (l \<noteq> [] \<and> CHR 0x0D \<notin> set l \<and> CHR 0x0A \<notin> set l)"

definition head_text :: "string list \<Rightarrow> string" where
  "head_text lines = concat (map (\<lambda>l. l @ crlf) lines) @ crlf"

fun join_crlf :: "string list \<Rightarrow> string" where
  "join_crlf [] = []"
| "join_crlf [l] = l"
| "join_crlf (l # ls) = l @ crlf @ join_crlf ls"

lemma head_text_join: "lines \<noteq> [] \<Longrightarrow> head_text lines = join_crlf lines @ crlf @ crlf"
  by (induction lines rule: join_crlf.induct) (auto simp: head_text_def)

lemma find_blank_line:
  assumes "lines \<noteq> []" "\<forall>l \<in> set lines. good_line l"
  shows "find_sub (crlf @ crlf) (join_crlf lines @ crlf @ crlf @ rest) = Some (length (join_crlf lines))"
  using assms
proof (induction lines rule: join_crlf.induct)
  case (2 l)
  then have "CHR 0x0D \<notin> set l" by (simp add: good_line_def)
  from find_sub_skip [OF this, of "tl (crlf @ crlf)" "crlf @ crlf @ rest"]
  show ?case using find_sub_here [of "crlf @ crlf" rest] by (simp add: crlf_def)
next
  case (3 l m ls)
  let ?t = "join_crlf (m # ls) @ crlf @ crlf @ rest"
  have cr: "CHR 0x0D \<notin> set l" using 3(3) by (simp add: good_line_def)
  obtain c t where t: "?t = c # t" "c \<noteq> CHR 0x0D"
    using 3(3) by (cases m; cases ls) (auto simp: good_line_def)
  have "find_sub (crlf @ crlf) (crlf @ ?t) = map_option (\<lambda>n. Suc (Suc n)) (find_sub (crlf @ crlf) ?t)"
    unfolding t(1) using t(2) by (cases "find_sub (crlf @ crlf) (c # t)") (auto simp: crlf_def)
  then have "find_sub (crlf @ crlf) (crlf @ ?t) = Some (2 + length (join_crlf (m # ls)))"
    using 3 by simp
  then show ?case
    using find_sub_skip [OF cr, of "tl (crlf @ crlf)" "crlf @ ?t"] by (simp add: crlf_def)
qed simp

lemma strip_cr_good: "good_line l \<Longrightarrow> strip_cr l = l"
  unfolding strip_cr_def good_line_def by (metis last_in_set)

lemma strip_cr_ended [simp]: "strip_cr (l @ [CHR 0x0D]) = l"
  by (simp add: strip_cr_def)

lemma takeWhile_line:
  "CHR 0x0A \<notin> set l \<Longrightarrow> takeWhile (\<lambda>c. c \<noteq> CHR 0x0A) (l @ crlf @ t) = l @ [CHR 0x0D]"
  by (induction l) (auto simp: crlf_def)

lemma length_line_ended: "good_line l \<Longrightarrow> length_line (l @ [CHR 0x0D]) n = length_line l n"
  by (simp add: length_line_def strip_cr_good)

lemma scan_headers_join:
  assumes "lines \<noteq> []" "\<forall>l \<in> set lines. good_line l"
  shows "scan_headers (join_crlf lines) n = fold length_line lines n"
  using assms
proof (induction lines arbitrary: n rule: join_crlf.induct)
  case (2 l)
  then show ?case by (subst scan_headers.simps) (simp add: takeWhile_absent good_line_def)
next
  case (3 l m ls)
  have l: "CHR 0x0A \<notin> set l" "good_line l" using 3(3) by (simp_all add: good_line_def)
  have "scan_headers (l @ crlf @ join_crlf (m # ls)) n
      = scan_headers (join_crlf (m # ls)) (length_line l n)"
    by (subst scan_headers.simps)
      (simp only: takeWhile_line [OF l(1)] length_line_ended [OF l(2)] Let_def, simp add: crlf_def)
  then show ?case using 3 by simp
qed simp

lemma boundary_head:
  assumes "lines \<noteq> []" "\<forall>l \<in> set lines. good_line l"
  shows "find_request_boundary (head_text lines @ t) =
    (let total = wrap64 (length (head_text lines) + fold length_line lines 0)
     in if length (head_text lines @ t) < total then None else Some total)"
proof -
  have "length crlf = 2" by (simp add: crlf_def)
  then have "length (head_text lines) = length (join_crlf lines) + 4"
    by (simp add: head_text_join [OF assms(1)])
  moreover have "head_text lines @ t = join_crlf lines @ crlf @ crlf @ t"
    by (simp add: head_text_join [OF assms(1)])
  ultimately show ?thesis
    using find_blank_line [OF assms, of t] scan_headers_join [OF assms, of 0]
    by (simp only: find_request_boundary_def) (simp add: Let_def)
qed

text \<open>
  A message: the lines before and after its length header and its body; without a body there is no
  length header.
\<close>

type_synonym http_message = "string list \<times> string list \<times> string option"

definition is_length_header :: "string \<Rightarrow> bool" where
  "is_length_header l =
     (\<exists>k v. l = k @ CHR '':'' # v \<and> CHR '':'' \<notin> set k \<and> iequals_ascii k ''Content-Length'')"

fun message_lines :: "http_message \<Rightarrow> string list" where
  "message_lines (pre, post, None) = pre @ post"
| "message_lines (pre, post, Some body) =
     pre @ [''Content-Length: '' @ nat_to_string (length body)] @ post"

definition message_text :: "http_message \<Rightarrow> string" where
  "message_text m = head_text (message_lines m) @ (case snd (snd m) of Some body \<Rightarrow> body | None \<Rightarrow> [])"

definition message_ok :: "http_message \<Rightarrow> bool" where
  "message_ok m =
     (case m of (pre, post, body) \<Rightarrow>
        (\<forall>l \<in> set (pre @ post). good_line l \<and> \<not> is_length_header l) \<and>
        message_lines m \<noteq> [] \<and> length (message_text m) < 2 ^ 64)"

lemma length_line_other:
  assumes "good_line l" "\<not> is_length_header l"
  shows "length_line l n = n"
proof (cases "index_of CHR '':'' l")
  case None
  then show ?thesis using assms(1) by (simp add: length_line_def strip_cr_good find_char_def)
next
  case (Some i)
  then have i: "i < length l" "l ! i = CHR '':''" "CHR '':'' \<notin> set (take i l)"
    by (simp_all add: index_of_Some_conv)
  then have "l = take i l @ CHR '':'' # drop (Suc i) l"
    using id_take_nth_drop [of i l] by simp
  with i(3) assms(2) have "\<not> iequals_ascii (take i l) ''Content-Length''"
    unfolding is_length_header_def by blast
  then show ?thesis
    using assms(1) Some by (simp add: length_line_def strip_cr_good find_char_def Let_def)
qed

lemma read_length_digits:
  "\<forall>c \<in> set ds. is_digit c \<Longrightarrow> read_digits a ds < 2 ^ 64 \<Longrightarrow> read_length a ds = read_digits a ds"
proof (induction ds arbitrary: a)
  case (Cons c cs)
  have "b \<le> read_digits b cs" for b using Cons.prems(1)
  proof (induction cs arbitrary: b)
    case (Cons d ds)
    have "b \<le> b * 10 + digit_val d" by simp
    also have "\<dots> \<le> read_digits (b * 10 + digit_val d) ds" using Cons by simp
    finally show ?case using Cons.prems by simp
  qed simp
  then have "a * 10 + digit_val c < 2 ^ 64"
    using Cons.prems by (auto intro: le_less_trans)
  then show ?case using Cons by simp
qed simp

lemma strip_spaces_digits: "\<forall>c \<in> set ds. is_digit c \<Longrightarrow> strip_spaces ds = ds"
  by (cases ds) (auto simp: strip_spaces_def is_digit_def less_eq_char_def)

lemma good_length_header: "good_line (''Content-Length: '' @ nat_to_string n)"
proof -
  have "CHR 0x0D \<notin> set (nat_to_string n) \<and> CHR 0x0A \<notin> set (nat_to_string n)"
    using digits_nat_to_string [of n] by (auto simp: is_digit_def less_eq_char_def)
  then show ?thesis by (simp add: good_line_def)
qed

lemma length_line_header:
  assumes "n < 2 ^ 64"
  shows "length_line (''Content-Length: '' @ nat_to_string n) m = n"
proof -
  note d = digits_nat_to_string [of n]
  show ?thesis
    using read_length_digits [OF d, of 0] strip_spaces_digits [OF d, unfolded strip_spaces_def] assms
      good_length_header [of n]
    by (simp add: length_line_def strip_cr_good find_char_def iequals_ascii_def read_nat_to_string
        strip_spaces_def)
qed

lemma fold_length_other:
  "\<forall>l \<in> set ls. good_line l \<and> \<not> is_length_header l \<Longrightarrow> fold length_line ls n = n"
  by (induction ls arbitrary: n) (auto simp: length_line_other)

lemma message_length:
  assumes "message_ok (pre, post, body)"
  shows "fold length_line (message_lines (pre, post, body)) 0 =
    (case body of Some b \<Rightarrow> length b | None \<Rightarrow> 0)"
proof -
  have o: "\<forall>l \<in> set (pre @ post). good_line l \<and> \<not> is_length_header l"
    using assms by (simp add: message_ok_def)
  show ?thesis
  proof (cases body)
    case None
    then show ?thesis using fold_length_other [OF o, of 0] by simp
  next
    case (Some b)
    then have "length b < 2 ^ 64" using assms by (simp add: message_ok_def message_text_def)
    then show ?thesis using Some length_line_header fold_length_other o by simp
  qed
qed

lemma message_good:
  assumes "message_ok (pre, post, body)"
  shows "\<forall>l \<in> set (message_lines (pre, post, body)). good_line l"
  using assms good_length_header by (cases body) (auto simp: message_ok_def)

lemma http_dec_message:
  assumes "message_ok m"
  shows "http_dec (message_text m @ t) = Some (length (message_text m), message_text m)"
proof -
  obtain pre post body where m: "m = (pre, post, body)" by (cases m)
  let ?h = "head_text (message_lines m)" and ?b = "case body of Some b \<Rightarrow> b | None \<Rightarrow> []"
  have tx: "message_text m = ?h @ ?b" by (simp add: message_text_def m)
  have len: "length (message_text m) < 2 ^ 64" "message_lines m \<noteq> []"
    using assms by (auto simp: message_ok_def m)
  have "fold length_line (message_lines m) 0 = length ?b"
    using message_length [OF assms [unfolded m]] unfolding m by (cases body) simp_all
  then have "find_request_boundary (?h @ ?b @ t) = Some (length (message_text m))"
    using boundary_head [OF len(2), of "?b @ t"] message_good assms len(1) unfolding m
    by (simp add: tx [unfolded m] wrap64_def)
  moreover have "length (message_text m) \<noteq> 0" by (simp add: tx head_text_def crlf_def)
  ultimately show ?thesis by (simp add: http_dec_def tx)
qed

lemma drain_messages:
  "\<forall>m \<in> set ms. message_ok m \<Longrightarrow> drain http_dec (concat (map message_text ms)) = (map message_text ms, [])"
proof (induction ms)
  case Nil
  show ?case by (simp add: drain_def)
next
  case (Cons m ms)
  then show ?case using http_dec_message [of m "concat (map message_text ms)"]
    by (subst http.drain_eq) simp
qed

text \<open>
  C28: Requests survive the byte stream: however the network cuts a sequence of well-formed requests
  (pipelined or not, with or without a \<open>Content-Length\<close> body, the header anywhere in the block) into
  reads, cutting requests from what has arrived after each read yields exactly those requests, each
  with its whole body, in order, and leaves nothing over.
\<close>

theorem http_stream_roundtrip:
  assumes "\<forall>m \<in> set ms. message_ok m" "concat chunks = concat (map message_text ms)"
  shows "feed_all http_dec chunks = (map message_text ms, [])"
  by (simp add: http.feed_all_concat assms(2) drain_messages [OF assms(1)])

theorem http_stream_roundtrip_witness:
  "feed_all http_dec [''GET / HTTP/1.1'' @ [CHR 0x0D], [CHR 0x0A, CHR 0x0D, CHR 0x0A]] =
     ([message_text ([''GET / HTTP/1.1''], [], None)], [])"
proof -
  have "message_ok ([''GET / HTTP/1.1''], [], None)"
    by (auto simp: message_ok_def good_line_def is_length_header_def message_text_def head_text_def
        crlf_def iequals_ascii_def append_eq_Cons_conv Cons_eq_append_conv)
  then show ?thesis
    using http_stream_roundtrip [of "[([''GET / HTTP/1.1''], [], None)]"
        "[''GET / HTTP/1.1'' @ [CHR 0x0D], [CHR 0x0A, CHR 0x0D, CHR 0x0A]]"]
    by (simp add: message_text_def head_text_def crlf_def)
qed

definition head_with_length :: "string list \<Rightarrow> nat \<Rightarrow> string" where
  "head_with_length pre n = head_text (pre @ [''Content-Length: '' @ nat_to_string n])"

text \<open>
  The declared body length is added to the header length without an overflow check: if the sum
  passes \<open>2 ^ 64\<close>, the request is taken to end inside its own header block, and if it is exactly
  \<open>2 ^ 64\<close>, it is complete with length zero, so it is answered and stays in the buffer, to be
  answered again.
\<close>

theorem http_length_wrap:
  assumes "\<forall>l \<in> set pre. good_line l \<and> \<not> is_length_header l" "n < 2 ^ 64"
    and "length (head_with_length pre n) < 2 ^ 64" "2 ^ 64 \<le> length (head_with_length pre n) + n"
  shows "find_request_boundary (head_with_length pre n @ t) =
      Some (length (head_with_length pre n) + n - 2 ^ 64)
    \<and> length (head_with_length pre n) + n - 2 ^ 64 < length (head_with_length pre n)"
proof -
  let ?ls = "pre @ [''Content-Length: '' @ nat_to_string n]" and ?h = "head_with_length pre n"
  have "\<forall>l \<in> set ?ls. good_line l" using assms(1) good_length_header by auto
  then have "find_request_boundary (?h @ t) =
      (let total = wrap64 (length ?h + fold length_line ?ls 0)
       in if length (?h @ t) < total then None else Some total)"
    unfolding head_with_length_def by (intro boundary_head) simp_all
  moreover have "fold length_line ?ls 0 = n"
    using fold_length_other [OF assms(1), of 0] length_line_header [OF assms(2)] by simp
  moreover have "wrap64 (length ?h + n) = length ?h + n - 2 ^ 64"
    using assms(2-4) by (intro wrap64_once) simp_all
  moreover have "length ?h + n - 2 ^ 64 < length ?h" using assms(2,4) by simp
  ultimately show ?thesis by (simp add: Let_def)
qed

text \<open>The witness's header block has 63 bytes, so a length 63 less than \<open>2 ^ 64\<close> wraps to zero.\<close>

theorem http_length_wrap_witness:
  "find_request_boundary (head_with_length [''GET /healthz HTTP/1.1''] 18446744073709551553) = Some 0"
proof -
  have "nat_to_string 18446744073709551553 = ''18446744073709551553''"
    by (simp add: nat_to_string.simps digit_char_eval)
  then have "length (head_with_length [''GET /healthz HTTP/1.1''] 18446744073709551553) = 63"
    by (simp add: head_with_length_def head_text_def crlf_def)
  then show ?thesis
    using http_length_wrap [of "[''GET /healthz HTTP/1.1'']" 18446744073709551553 "[]"]
    by (simp add: good_line_def is_length_header_def iequals_ascii_def append_eq_Cons_conv
        Cons_eq_append_conv)
qed

section \<open>Parsing what a client writes\<close>

fun join_query :: "(string \<times> string) list \<Rightarrow> string" where
  "join_query [] = []"
| "join_query [(k, v)] = k @ ''='' @ v"
| "join_query ((k, v) # kvs) = k @ ''='' @ v @ ''&'' @ join_query kvs"

definition target_text :: "string \<Rightarrow> (string \<times> string) list \<Rightarrow> string" where
  "target_text path kvs = path @ (if kvs = [] then [] else ''?'' @ join_query kvs)"

definition request_text :: "string \<Rightarrow> string \<Rightarrow> (string \<times> string) list \<Rightarrow> string \<Rightarrow> (string \<times> string) list \<Rightarrow> string"
where
  "request_text verb path kvs ver hs =
     head_text ((verb @ '' '' @ target_text path kvs @ '' '' @ ver) # map (\<lambda>(k, v). k @ '': '' @ v) hs)"

text \<open>A text without spaces and line breaks, and a header the parser can split.\<close>

definition token_text :: "string \<Rightarrow> bool" where
  "token_text s = (CHR '' '' \<notin> set s \<and> CHR 0x0D \<notin> set s \<and> CHR 0x0A \<notin> set s)"

definition plain_header :: "string \<times> string \<Rightarrow> bool" where
  "plain_header kv = (case kv of (k, v) \<Rightarrow>
     CHR '':'' \<notin> set k \<and> CHR 0x0D \<notin> set k \<and> CHR 0x0A \<notin> set k \<and>
     CHR 0x0D \<notin> set v \<and> CHR 0x0A \<notin> set v \<and> (v = [] \<or> hd v \<noteq> CHR '' ''))"

definition plain_query :: "string \<times> string \<Rightarrow> bool" where
  "plain_query kv = (case kv of (k, v) \<Rightarrow> token_text k \<and> token_text v \<and>
     CHR ''='' \<notin> set k \<and> CHR ''&'' \<notin> set k \<and> CHR ''&'' \<notin> set v)"

lemma map_of_fold_update:
  "map_of (fold (\<lambda>(k, v). AList.update k v) kvs m) = map_of m ++ map_of (rev kvs)"
  by (induction kvs arbitrary: m) (auto simp: map_of_update map_add_upd split: prod.splits)

lemma find_char_skip: "c \<notin> set xs \<Longrightarrow> find_char c (xs @ c # ys) 0 = Some (length xs)"
  by (simp add: find_char_def index_of_skip)

lemma find_char_none: "c \<notin> set xs \<Longrightarrow> find_char c xs 0 = None"
  by (simp add: find_char_def index_of_None_conv)

lemma query_item_pair: "CHR ''='' \<notin> set k \<Longrightarrow> query_item (k @ CHR ''='' # v) m = AList.update k v m"
  by (simp add: query_item_def find_char_skip)

lemma parse_query_step:
  "s \<noteq> [] \<Longrightarrow> takeWhile (\<lambda>c. c \<noteq> CHR ''&'') s = item \<Longrightarrow>
     parse_query_loop s m = parse_query_loop (drop (Suc (length item)) s) (query_item item m)"
  by (subst parse_query_loop.simps) simp

lemma parse_query_end [simp]: "parse_query_loop [] m = m"
  by (subst parse_query_loop.simps) simp

lemma parse_join_query:
  "\<forall>kv \<in> set kvs. plain_query kv \<Longrightarrow>
     parse_query_loop (join_query kvs) m = fold (\<lambda>(k, v). AList.update k v) kvs m"
proof (induction kvs arbitrary: m rule: join_query.induct)
  case (2 k v)
  let ?s = "k @ CHR ''='' # v"
  have "CHR ''&'' \<notin> set ?s" using 2 by (auto simp: plain_query_def)
  then have "takeWhile (\<lambda>c. c \<noteq> CHR ''&'') ?s = ?s" by (rule takeWhile_absent)
  then have "parse_query_loop ?s m = parse_query_loop (drop (Suc (length ?s)) ?s) (query_item ?s m)"
    by (intro parse_query_step) simp_all
  then show ?case using 2 by (simp add: query_item_pair plain_query_def)
next
  case (3 k v kv kvs)
  let ?s = "k @ CHR ''='' # v" and ?t = "join_query (kv # kvs)"
  have "CHR ''&'' \<notin> set ?s" using 3(2) by (auto simp: plain_query_def)
  then have "takeWhile (\<lambda>c. c \<noteq> CHR ''&'') (?s @ CHR ''&'' # ?t) = ?s" by (rule takeWhile_upto)
  then have "parse_query_loop (?s @ CHR ''&'' # ?t) m =
      parse_query_loop (drop (Suc (length ?s)) (?s @ CHR ''&'' # ?t)) (query_item ?s m)"
    by (intro parse_query_step) simp_all
  then have "parse_query_loop (?s @ CHR ''&'' # ?t) m = parse_query_loop ?t (query_item ?s m)"
    by simp
  then show ?case using 3 by (simp add: query_item_pair plain_query_def)
qed simp

lemma next_line_head:
  assumes "CHR 0x0A \<notin> set l"
  shows "next_line (l @ crlf @ t) = (l, t)"
proof -
  have "drop (length (l @ [CHR 0x0D]) + 1) (l @ crlf @ t) = t" by (simp add: crlf_def)
  then show ?thesis by (simp only: next_line_def takeWhile_line [OF assms] Let_def strip_cr_ended)
qed

lemma header_line_plain: "plain_header (k, v) \<Longrightarrow> header_line (k @ '': '' @ v) hs = AList.update k v hs"
  by (cases v) (auto simp: header_line_def find_char_skip plain_header_def strip_spaces_def)

lemma parse_headers_step:
  "CHR 0x0A \<notin> set l \<Longrightarrow> l \<noteq> [] \<Longrightarrow>
     parse_headers (l @ crlf @ t) m = parse_headers t (header_line l m)"
  by (subst parse_headers.simps) (simp add: next_line_head)

lemma parse_headers_text:
  "\<forall>h \<in> set hs. plain_header h \<Longrightarrow>
    parse_headers (head_text (map (\<lambda>(k, v). k @ '': '' @ v) hs)) m = fold (\<lambda>(k, v). AList.update k v) hs m"
proof (induction hs arbitrary: m)
  case Nil
  show ?case by (subst parse_headers.simps) (simp add: head_text_def crlf_def next_line_def strip_cr_def)
next
  case (Cons h hs)
  obtain k v where h: "h = (k, v)" by (cases h)
  let ?t = "head_text (map (\<lambda>(k, v). k @ '': '' @ v) hs)" and ?l = "k @ '': '' @ v"
  have "CHR 0x0A \<notin> set ?l" using Cons.prems h by (auto simp: plain_header_def)
  then have "parse_headers (?l @ crlf @ ?t) m = parse_headers ?t (header_line ?l m)"
    by (rule parse_headers_step) simp
  then show ?case using Cons h header_line_plain [of k v m] by (simp add: head_text_def)
qed

lemma parse_request_line_text:
  assumes "token_text verb" "token_text path" "CHR ''?'' \<notin> set path" "path \<noteq> []"
    and "\<forall>kv \<in> set kvs. plain_query kv" "ver \<noteq> []" "hd ver \<noteq> CHR '' ''"
  shows "\<exists>q. parse_request_line (verb @ '' '' @ target_text path kvs @ '' '' @ ver) r =
      r\<lparr>req_method := verb, req_path := path, req_version := ver, req_query := q\<rparr> \<and>
    (kvs \<noteq> [] \<longrightarrow> q = fold (\<lambda>(k, v). AList.update k v) kvs []) \<and> (kvs = [] \<longrightarrow> q = req_query r)"
proof -
  define p where "p = target_text path kvs"
  have "\<forall>kv \<in> set kvs. plain_query kv \<Longrightarrow> CHR '' '' \<notin> set (join_query kvs)"
    by (induction kvs rule: join_query.induct) (auto simp: plain_query_def token_text_def)
  then have p: "CHR '' '' \<notin> set p" using assms(2,5) by (auto simp: p_def target_text_def token_text_def)
  have v: "CHR '' '' \<notin> set verb" using assms(1) by (auto simp: token_text_def)
  have hp: "p \<noteq> []" "hd p \<noteq> CHR '' ''"
    using assms(2,4) by (cases path; auto simp: p_def target_text_def token_text_def)+
  then have s: "strip_spaces (CHR '' '' # p @ CHR '' '' # ver) = p @ CHR '' '' # ver"
    by (cases p) (auto simp: strip_spaces_def)
  have sv: "strip_spaces (CHR '' '' # ver) = ver"
    using assms(6,7) by (cases ver) (auto simp: strip_spaces_def)
  have tw: "takeWhile (\<lambda>c. c \<noteq> CHR '' '') (p @ CHR '' '' # ver) = p"
    by (rule takeWhile_upto [OF p])
  have q: "find_char CHR ''?'' p 0 = (if kvs = [] then None else Some (length path))"
    using assms(3) by (simp add: p_def target_text_def find_char_none find_char_skip)
  have parts: "kvs = [] \<Longrightarrow> p = path" "kvs \<noteq> [] \<Longrightarrow> take (length path) p = path"
    "kvs \<noteq> [] \<Longrightarrow> drop (length path + 1) p = join_query kvs"
    by (simp_all add: p_def target_text_def)
  have "parse_request_line (verb @ CHR '' '' # p @ CHR '' '' # ver) r =
      (let r1 = r\<lparr>req_method := verb, req_version := ver\<rparr>
       in if kvs = [] then r1\<lparr>req_path := p\<rparr>
          else r1\<lparr>req_path := take (length path) p, req_query := parse_query (drop (length path + 1) p)\<rparr>)"
    by (simp add: parse_request_line_def find_char_skip [OF v] find_char_skip [OF p] s sv tw q Let_def
        assms(6))
  then show ?thesis
    unfolding p_def [symmetric]
    using parts parse_join_query [OF assms(5), of "[]"]
    by (cases "kvs = []") (auto simp: parse_query_def Let_def)
qed

lemma parse_raw_request:
  assumes "token_text verb" "token_text path" "CHR ''?'' \<notin> set path" "path \<noteq> []"
    and "\<forall>kv \<in> set kvs. plain_query kv" "token_text ver" "ver \<noteq> []" "\<forall>h \<in> set hs. plain_header h"
  shows "let r = parse_raw_http iter (request_text verb path kvs ver hs) in
    req_method r = verb \<and> req_path r = path \<and> req_version r = ver \<and>
    map_of (req_query r) = map_of (rev kvs) \<and> map_of (req_headers r) = map_of (rev hs) \<and>
    req_keep_alive r = keep_alive_of ver (connection_header iter (req_headers r)) \<and>
    req_headers r = fold (\<lambda>(k, v). AList.update k v) hs []"
proof -
  define l where "l = verb @ '' '' @ target_text path kvs @ '' '' @ ver"
  define t where "t = head_text (map (\<lambda>(k, v). k @ '': '' @ v) hs)"
  have ver: "hd ver \<noteq> CHR '' ''" using assms(6,7) by (cases ver) (auto simp: token_text_def)
  obtain q where q: "parse_request_line l request_default =
      request_default\<lparr>req_method := verb, req_path := path, req_version := ver, req_query := q\<rparr>"
    "kvs \<noteq> [] \<longrightarrow> q = fold (\<lambda>(k, v). AList.update k v) kvs []" "kvs = [] \<longrightarrow> q = []"
    using parse_request_line_text [OF assms(1-5,7) ver, of request_default] unfolding l_def
    by (auto simp: request_default_def)
  have "\<forall>kv \<in> set kvs. plain_query kv \<Longrightarrow> CHR 0x0A \<notin> set (join_query kvs)"
    by (induction kvs rule: join_query.induct) (auto simp: plain_query_def token_text_def)
  then have "CHR 0x0A \<notin> set l"
    using assms(1,2,5,6) by (auto simp: l_def target_text_def token_text_def)
  then have n: "next_line (l @ crlf @ t) = (l, t)" by (rule next_line_head)
  have tx: "request_text verb path kvs ver hs = l @ crlf @ t"
    by (simp add: request_text_def head_text_def l_def t_def)
  have h: "parse_headers t [] = fold (\<lambda>(k, v). AList.update k v) hs []"
    using parse_headers_text [OF assms(8), of "[]"] by (simp add: t_def)
  have "map_of q = map_of (rev kvs)" using q(2,3) map_of_fold_update [of kvs "[]"] by (cases kvs) simp_all
  moreover have "map_of (parse_headers t []) = map_of (rev hs)"
    unfolding h using map_of_fold_update [of hs "[]"] by simp
  moreover have "l @ crlf @ t \<noteq> []" by (simp add: l_def)
  ultimately show ?thesis
    unfolding parse_raw_http_def tx n Let_def by (simp add: q(1) h)
qed

text \<open>
  The parser reads back what a client writes: the request line's verb, path, version and query
  parameters and the headers are recovered exactly (for a repeated parameter or header, the last
  one), for every text that respects the delimiters.
\<close>

theorem http_request_parsed:
  assumes "token_text verb" "token_text path" "CHR ''?'' \<notin> set path" "path \<noteq> []"
    and "\<forall>kv \<in> set kvs. plain_query kv" "token_text ver" "ver \<noteq> []" "\<forall>h \<in> set hs. plain_header h"
  shows "let r = parse_raw_http iter (request_text verb path kvs ver hs) in
    req_method r = verb \<and> req_path r = path \<and> req_version r = ver \<and>
    map_of (req_query r) = map_of (rev kvs) \<and> map_of (req_headers r) = map_of (rev hs) \<and>
    req_keep_alive r = keep_alive_of ver (connection_header iter (req_headers r))"
  using parse_raw_request [OF assms, of iter] unfolding Let_def by blast

theorem http_request_parsed_witness:
  "req_path (parse_raw_http (\<lambda>xs. xs) (request_text ''GET'' ''/resolve'' [(''role'', ''api'')] ''HTTP/1.1'' []))
     = ''/resolve''"
  using http_request_parsed [of "''GET''" "''/resolve''" "[(''role'', ''api'')]" "''HTTP/1.1''" "[]" "\<lambda>xs. xs"]
  by (simp add: token_text_def plain_query_def Let_def)

end
