(* ===== verification/HttpServer.thy ===== *)
theory HttpServer
  imports RegistryProps HttpParsing ConnGuard
begin

text \<open>
  The HTTP server (\<open>src/http/http_server.hpp\<close>, \<open>http_server.cpp\<close>): the routes, and the session that
  reads requests from its accumulator, answers one at a time and closes. An \<open>async_write\<close> is an
  outcome of the step that issues it; its completion handler is the step \<open>http_write_done\<close>. The
  settings of the server, the embedded pages, the clocks and the JSON library are the record
  \<open>http_env\<close>; the process-wide registry (with the memory tracker) and connection guard are part of
  the state.
\<close>

section \<open>Settings and state\<close>

record http_env =
  he_lib :: json_lib
  he_iter_nodes :: "(string \<times> node_info) list \<Rightarrow> (string \<times> node_info) list"
  he_iter_headers :: "(string \<times> string) list \<Rightarrow> (string \<times> string) list"
  he_monitor :: bool
  he_tester :: bool
  he_monitor_html :: string
  he_tester_html :: string
  he_cell_id :: string
  he_uptime :: nat
  he_now :: int
  he_rss :: "64 word"
  he_max_buffer :: nat
  he_max_requests :: nat

record http_response =
  res_status :: nat
  res_status_text :: string
  res_content_type :: string
  res_body :: string

definition response_default :: http_response where
  "response_default = \<lparr>res_status = 200, res_status_text = ''OK'',
     res_content_type = ''application/json'', res_body = []\<rparr>"

record http_session =
  hs_acc :: "char stream_acc"
  hs_requests :: nat
  hs_peer :: string
  hs_closed :: bool

record 'cb http_state =
  ht_session :: http_session
  ht_registry :: "'cb registry"
  ht_guard :: guard

definition http_session_new :: "string \<Rightarrow> http_session" where
  "http_session_new peer = \<lparr>hs_acc = acc_empty, hs_requests = 0, hs_peer = peer, hs_closed = False\<rparr>"

section \<open>Routes\<close>

definition stats_to_json :: "memory_stats \<Rightarrow> json" where
  "stats_to_json s = obj_of
     [(''total'', JUInt (unat (total_kb s))), (''registry'', JUInt (unat (registry_kb s))),
      (''mqtt_rx'', JUInt (unat (mqtt_rx_kb s))), (''mqtt_tx'', JUInt (unat (mqtt_tx_kb s))),
      (''http_rx'', JUInt (unat (http_rx_kb s))), (''http_tx'', JUInt (unat (http_tx_kb s))),
      (''other'', JUInt (unat (other_kb s))), (''extra'', JUInt (unat (extra_kb s)))]"

definition counts_to_json :: "(string \<times> nat) list \<Rightarrow> json" where
  "counts_to_json m = obj_of (map (\<lambda>(k, c). (k, JUInt c)) m)"

text \<open>Setting the body to the printed value; printing may throw.\<close>

definition json_response :: "http_env \<Rightarrow> nat \<Rightarrow> string \<Rightarrow> json \<Rightarrow> http_response res" where
  "json_response env status reason j =
     bind_res (json_dump (he_lib env) j) (\<lambda>s.
       Inr (response_default\<lparr>res_status := status, res_status_text := reason, res_body := s\<rparr>))"

definition error_response :: "http_env \<Rightarrow> nat \<Rightarrow> string \<Rightarrow> string \<Rightarrow> http_response res" where
  "error_response env status reason msg = json_response env status reason (obj_of [(''error'', JStr msg)])"

definition query_param :: "http_request \<Rightarrow> string \<Rightarrow> string option" where
  "query_param req k = map_of (req_query req) k"

definition param_or_empty :: "http_request \<Rightarrow> string \<Rightarrow> string" where
  "param_or_empty req k = (case query_param req k of Some v \<Rightarrow> v | None \<Rightarrow> [])"

text \<open>\<open>std::stoul\<close> of a parameter if it is there.\<close>

definition number_param :: "http_request \<Rightarrow> string \<Rightarrow> nat \<Rightarrow> nat res" where
  "number_param req k d = (case query_param req k of Some v \<Rightarrow> stoul v | None \<Rightarrow> Inr d)"

definition healthz_route :: "http_env \<Rightarrow> http_response res" where
  "healthz_route env = json_response env 200 ''OK'' (obj_of
     [(''status'', JStr ''UP''), (''cell_id'', JStr (he_cell_id env)), (''uptime'', JUInt (he_uptime env))])"

definition status_route :: "http_env \<Rightarrow> 'cb http_state \<Rightarrow> http_response res" where
  "status_route env st =
     (let stats = get_stats (he_iter_nodes env) (ht_registry st);
          mem = tracker_stats (he_rss env) (r_mem (ht_registry st))
      in json_response env 200 ''OK'' (obj_of
        [(''nodes'', obj_of [(''total'', JUInt (total_nodes stats)), (''alive'', JUInt (alive_nodes stats)),
            (''grace'', JUInt (grace_nodes stats))]),
         (''memory'', stats_to_json mem),
         (''connections'', obj_of [(''total'', JUInt (total_connections (ht_guard st)))]),
         (''roles'', counts_to_json (stat_roles stats)),
         (''workers'', counts_to_json (stat_workers stats))]))"

definition registry_route :: "http_env \<Rightarrow> http_request \<Rightarrow> 'cb http_state \<Rightarrow> http_response res" where
  "registry_route env req st =
     bind_res (number_param req ''page'' 1) (\<lambda>page.
     bind_res (number_param req ''count'' 50) (\<lambda>cnt.
     bind_res (query_registry (he_now env) (he_iter_nodes env) page cnt
         (param_or_empty req ''role'') (param_or_empty req ''worker'') (ht_registry st)) (\<lambda>(total, nodes).
       json_response env 200 ''OK'' (obj_of
         [(''total'', JUInt total), (''nodes'', JArr (map node_to_json nodes))]))))"

definition node_route :: "http_env \<Rightarrow> string \<Rightarrow> 'cb http_state \<Rightarrow> http_response res" where
  "node_route env nid st =
     (case get_node (he_now env) nid (ht_registry st) of
        Some n \<Rightarrow> json_response env 200 ''OK'' (node_to_json n)
      | None \<Rightarrow> error_response env 404 ''Not Found'' ''Node not found'')"

definition resolve_json :: "string \<Rightarrow> node_info \<Rightarrow> json" where
  "resolve_json worker n =
     (let base = [(''id'', JStr (n_id n)),
                  (''endpoint'', case n_endpoint n of Some ep \<Rightarrow> endpoint_to_json ep | None \<Rightarrow> JNull)]
      in case map_of (n_extra n) worker of
           Some v \<Rightarrow> if worker \<noteq> [] then obj_of (base @ [(''extra'', v)]) else obj_of base
         | None \<Rightarrow> obj_of base)"

definition resolve_route :: "http_env \<Rightarrow> http_request \<Rightarrow> 'cb http_state \<Rightarrow>
    http_response res \<times> 'cb http_state" where
  "resolve_route env req st =
     (let role = param_or_empty req ''role''; worker = param_or_empty req ''worker''
      in if role = []
         then (error_response env 400 ''Bad Request'' ''Missing required query parameter: role'', st)
         else let (found, reg) = resolve_node (he_iter_nodes env) role worker (ht_registry st)
              in ((case found of
                     Some n \<Rightarrow> json_response env 200 ''OK'' (resolve_json worker n)
                   | None \<Rightarrow> error_response env 404 ''Not Found'' ''No available node found''),
                  st\<lparr>ht_registry := reg\<rparr>))"

definition html_response :: "string \<Rightarrow> http_response" where
  "html_response page = response_default\<lparr>res_content_type := ''text/html'', res_body := page\<rparr>"

definition route_request :: "http_env \<Rightarrow> http_request \<Rightarrow> 'cb http_state \<Rightarrow>
    http_response res \<times> 'cb http_state" where
  "route_request env req st =
     (let path = req_path req
      in if he_monitor env \<and> (path = ''/monitor'' \<or> path = ''/'')
           then (Inr (html_response (he_monitor_html env)), st)
         else if he_tester env \<and> path = ''/tester'' then (Inr (html_response (he_tester_html env)), st)
         else if path = ''/healthz'' then (healthz_route env, st)
         else if path = ''/status'' then (status_route env st, st)
         else if path = ''/registry'' then (registry_route env req st, st)
         else if starts_with ''/registry/'' path
           then (node_route env (drop (length ''/registry/'') path) st, st)
         else if path = ''/resolve'' then resolve_route env req st
         else (error_response env 404 ''Not Found'' ''Route not found'', st))"

section \<open>The session\<close>

definition response_text :: "http_response \<Rightarrow> bool \<Rightarrow> string" where
  "response_text res keep_alive =
     ''HTTP/1.1 '' @ nat_to_string (res_status res) @ '' '' @ res_status_text res @
     crlf @ ''Content-Type: '' @ res_content_type res @
     crlf @ ''Content-Length: '' @ nat_to_string (length (res_body res)) @
     (if keep_alive then crlf @ ''Connection: keep-alive'' @ crlf @ crlf
      else crlf @ ''Connection: close'' @ crlf @ crlf) @
     res_body res"

datatype http_outcome = Read_more | Writing string bool | Session_closed | Thrown fault

text \<open>\<open>close_session()\<close> with the HTTP session's \<open>on_before_close\<close>.\<close>

definition http_close :: "'cb http_state \<Rightarrow> 'cb http_state" where
  "http_close st =
     (if hs_closed (ht_session st) then st
      else st\<lparr>ht_session := (ht_session st)\<lparr>hs_closed := True\<rparr>,
              ht_guard := release (hs_peer (ht_session st)) (ht_guard st)\<rparr>)"

definition http_try_process :: "http_env \<Rightarrow> 'cb http_state \<Rightarrow> http_outcome \<times> 'cb http_state" where
  "http_try_process env st =
     (let s = ht_session st; buffered = acc_data (hs_acc s)
      in case find_request_boundary buffered of
           None \<Rightarrow> (Read_more, st)
         | Some boundary \<Rightarrow>
             let raw_request = take boundary buffered;
                 s = s\<lparr>hs_acc := acc_compact (acc_consume boundary (hs_acc s))\<rparr>;
                 req = parse_raw_http (he_iter_headers env) raw_request;
                 (result, st) = route_request env req (st\<lparr>ht_session := s\<rparr>)
             in (case result of
                   Inl e \<Rightarrow> (Thrown e, st)
                 | Inr res \<Rightarrow>
                     let s = ht_session st; count = hs_requests s + 1;
                         keep_alive = (req_keep_alive req \<and>
                           \<not> (he_max_requests env > 0 \<and> count \<ge> he_max_requests env));
                         out = response_text res keep_alive;
                         reg = ht_registry st
                     in (Writing out keep_alive,
                         st\<lparr>ht_session := s\<lparr>hs_requests := count\<rparr>,
                            ht_registry := reg\<lparr>r_mem := add_http_tx_bytes (int (length out)) (r_mem reg)\<rparr>\<rparr>)))"

text \<open>The write's completion handler: \<open>ec\<close> is the write error, \<open>keep_alive\<close> what was captured.\<close>

definition http_write_done :: "http_env \<Rightarrow> bool \<Rightarrow> bool \<Rightarrow> 'cb http_state \<Rightarrow> http_outcome \<times> 'cb http_state" where
  "http_write_done env ec keep_alive st =
     (if ec \<or> \<not> keep_alive then (Session_closed, http_close st) else http_try_process env st)"

definition http_on_bytes_read :: "http_env \<Rightarrow> bytes \<Rightarrow> 'cb http_state \<Rightarrow> http_outcome \<times> 'cb http_state" where
  "http_on_bytes_read env data st =
     (let reg = ht_registry st; s = ht_session st;
          st = st\<lparr>ht_registry := reg\<lparr>r_mem := add_http_rx_bytes (int (length data)) (r_mem reg)\<rparr>,
                  ht_session := s\<lparr>hs_acc := acc_append (string_of_bytes data) (hs_acc s)\<rparr>\<rparr>
      in if acc_total_capacity (hs_acc (ht_session st)) > he_max_buffer env
         then (Session_closed, http_close st)
         else http_try_process env st)"

text \<open>
  Accepting a connection (\<open>do_accept\<close>): refused sockets are closed, admitted ones get a session. The
  peer's address is read by the acceptor and again by the constructor of the session.
\<close>

definition http_accept :: "connection_limits \<Rightarrow> int \<Rightarrow> string \<Rightarrow> string \<Rightarrow> guard \<Rightarrow> http_session option \<times> guard" where
  "http_accept lim now peer_ip session_peer g =
     (case try_acquire lim now peer_ip g of
        (False, g) \<Rightarrow> (None, g)
      | (True, g) \<Rightarrow> (Some (http_session_new session_peer), g))"

section \<open>Routing\<close>

lemma json_response_ok:
  "dumps_all (he_lib env) \<Longrightarrow> \<exists>s. json_response env status reason j =
     Inr (response_default\<lparr>res_status := status, res_status_text := reason, res_body := s\<rparr>)"
  unfolding dumps_all_def json_response_def by (metis bind_res.simps(2))

lemma response_default_sel [simp]:
  "res_status response_default = 200" "res_status_text response_default = ''OK''"
  "res_content_type response_default = ''application/json''"
  by (simp_all add: response_default_def)

text \<open>A response of one of the three kinds the routes produce.\<close>

definition plain_response :: "http_response \<Rightarrow> bool" where
  "plain_response r =
     ((res_status r, res_status_text r) \<in> {(200, ''OK''), (400, ''Bad Request''), (404, ''Not Found'')} \<and>
      res_content_type r \<in> {''application/json'', ''text/html''})"

lemma json_response_plain:
  assumes "dumps_all (he_lib env)"
    and "(status, reason) \<in> {(200, ''OK''), (400, ''Bad Request''), (404, ''Not Found'')}"
  shows "\<exists>r. json_response env status reason j = Inr r \<and> plain_response r \<and> res_status r = status"
  using json_response_ok [OF assms(1), of status reason j] assms(2) by (auto simp: plain_response_def)

lemma error_response_plain:
  assumes "dumps_all (he_lib env)"
    and "(status, reason) \<in> {(200, ''OK''), (400, ''Bad Request''), (404, ''Not Found'')}"
  shows "\<exists>r. error_response env status reason msg = Inr r \<and> plain_response r \<and> res_status r = status"
  unfolding error_response_def by (rule json_response_plain [OF assms])

lemma page_of_fault: "page_of page cnt xs = Inl e \<Longrightarrow> e = Out_of_bounds"
  by (auto simp: page_of_def Let_def split: if_splits)

lemma registry_route_cases:
  assumes "dumps_all (he_lib env)"
  shows "case registry_route env req st of
      Inl e \<Rightarrow> number_param req ''page'' 1 = Inl e \<or> number_param req ''count'' 50 = Inl e \<or>
        (\<exists>page cnt. number_param req ''page'' 1 = Inr page \<and> number_param req ''count'' 50 = Inr cnt \<and>
           query_registry (he_now env) (he_iter_nodes env) page cnt (param_or_empty req ''role'')
             (param_or_empty req ''worker'') (ht_registry st) = Inl e)
    | Inr r \<Rightarrow> plain_response r \<and> res_status r = 200"
proof (cases "number_param req ''page'' 1")
  case (Inr page)
  show ?thesis
  proof (cases "number_param req ''count'' 50")
    case Inr': (Inr cnt)
    show ?thesis
    proof (cases "query_registry (he_now env) (he_iter_nodes env) page cnt (param_or_empty req ''role'')
             (param_or_empty req ''worker'') (ht_registry st)")
      case Inr'': (Inr tn)
      obtain total ns where tn: "tn = (total, ns)" by (cases tn)
      show ?thesis
        using json_response_plain [OF assms, of 200 "''OK''" "obj_of [(''total'', JUInt total),
            (''nodes'', JArr (map node_to_json ns))]"]
        by (auto simp: registry_route_def bind_res.simps Inr [simplified] Inr' [simplified] Inr'' tn)
    qed (simp add: registry_route_def Inr [simplified] Inr')
  qed (simp add: registry_route_def Inr [simplified])
qed (simp add: registry_route_def)


definition toy_env :: http_env where
  "toy_env = \<lparr>he_lib = toy_lib, he_iter_nodes = (\<lambda>xs. xs), he_iter_headers = (\<lambda>xs. xs),
     he_monitor = False, he_tester = False, he_monitor_html = [], he_tester_html = [],
     he_cell_id = ''cell'', he_uptime = 5, he_now = 1100, he_rss = 4096, he_max_buffer = 262144,
     he_max_requests = 2\<rparr>"

definition toy_http :: "nat http_state" where
  "toy_http = \<lparr>ht_session = http_session_new ''10.0.0.7'', ht_registry = toy_registry,
     ht_guard = snd (try_acquire \<lparr>max_total_connections = 0, max_connections_per_ip = 0,
        max_new_connections_per_ip = 0, rate_window = 10\<rparr> 0 ''10.0.0.7'' guard_init)\<rparr>"

lemma toy_dumps: "dumps_all (he_lib toy_env)"
  by (auto simp: dumps_all_def toy_env_def toy_lib_def split: json.split)


text \<open>
  Requests do not change the registry's nodes: every route leaves the nodes, the gauges, the
  guard and the session as they are; only the round-robin cursor may move, and only on \<open>/resolve\<close>.
\<close>

theorem route_request_readonly:
  "case snd (route_request env req st) of st' \<Rightarrow>
     r_nodes (ht_registry st') = r_nodes (ht_registry st) \<and> r_mem (ht_registry st') = r_mem (ht_registry st) \<and>
     ht_guard st' = ht_guard st \<and> ht_session st' = ht_session st \<and>
     (req_path req = ''/resolve'' \<or> st' = st)"
  by (auto simp: route_request_def resolve_route_def resolve_node_def Let_def split: prod.splits)

lemma route_request_session:
  "fst (route_request env req (st\<lparr>ht_session := s\<rparr>)) = fst (route_request env req st)"
  by (auto simp: route_request_def resolve_route_def status_route_def registry_route_def node_route_def
      Let_def split: prod.splits option.splits)

lemma route_request_kept:
  "ht_session (snd (route_request env req st)) = ht_session st"
  "ht_guard (snd (route_request env req st)) = ht_guard st"
  by (auto simp: route_request_def resolve_route_def Let_def split: prod.splits)

section \<open>Responses on the wire\<close>

lemma response_text_message:
  "response_text res ka = message_text
     ([''HTTP/1.1 '' @ nat_to_string (res_status res) @ '' '' @ res_status_text res,
       ''Content-Type: '' @ res_content_type res],
      [''Connection: '' @ (if ka then ''keep-alive'' else ''close'')], Some (res_body res))"
  by (simp add: response_text_def message_text_def head_text_def)

lemma no_length_header:
  "\<not> iequals_ascii k ''Content-Length'' \<Longrightarrow> CHR '':'' \<notin> set k \<Longrightarrow> \<not> is_length_header (k @ CHR '':'' # v)"
proof
  assume k: "\<not> iequals_ascii k ''Content-Length''" "CHR '':'' \<notin> set k" and "is_length_header (k @ CHR '':'' # v)"
  then obtain k' v' where *: "k @ CHR '':'' # v = k' @ CHR '':'' # v'" "CHR '':'' \<notin> set k'"
    "iequals_ascii k' ''Content-Length''" unfolding is_length_header_def by blast
  have "takeWhile (\<lambda>c. c \<noteq> CHR '':'') (k @ CHR '':'' # v) = k" by (rule takeWhile_upto [OF k(2)])
  moreover have "takeWhile (\<lambda>c. c \<noteq> CHR '':'') (k' @ CHR '':'' # v') = k'" by (rule takeWhile_upto [OF *(2)])
  ultimately have "k = k'" using *(1) by simp
  with k(1) *(3) show False by simp
qed

lemma no_colon_no_length: "CHR '':'' \<notin> set l \<Longrightarrow> \<not> is_length_header l"
  by (auto simp: is_length_header_def)

lemma digits_plain: "CHR 0x0D \<notin> set (nat_to_string n) \<and> CHR 0x0A \<notin> set (nat_to_string n) \<and>
    CHR '':'' \<notin> set (nat_to_string n)"
  using digits_nat_to_string [of n] by (auto simp: is_digit_def less_eq_char_def)

lemma response_message_ok:
  assumes "plain_response res" "length (response_text res ka) < 2 ^ 64"
  shows "message_ok
     ([''HTTP/1.1 '' @ nat_to_string (res_status res) @ '' '' @ res_status_text res,
       ''Content-Type: '' @ res_content_type res],
      [''Connection: '' @ (if ka then ''keep-alive'' else ''close'')], Some (res_body res))"
proof -
  have st: "CHR 0x0D \<notin> set (res_status_text res)" "CHR 0x0A \<notin> set (res_status_text res)"
    "CHR '':'' \<notin> set (res_status_text res)"
    "CHR 0x0D \<notin> set (res_content_type res)" "CHR 0x0A \<notin> set (res_content_type res)"
    using assms(1) by (auto simp: plain_response_def)
  have 1: "good_line (''HTTP/1.1 '' @ nat_to_string (res_status res) @ '' '' @ res_status_text res)"
    using st digits_plain [of "res_status res"] by (simp add: good_line_def)
  have 2: "\<not> is_length_header (''HTTP/1.1 '' @ nat_to_string (res_status res) @ '' '' @ res_status_text res)"
    using st digits_plain [of "res_status res"] by (intro no_colon_no_length) simp
  have 3: "good_line (''Content-Type: '' @ res_content_type res)"
    using st by (simp add: good_line_def)
  have 4: "\<not> is_length_header (''Content-Type: '' @ res_content_type res)"
    using no_length_header [of "''Content-Type''" "'' '' @ res_content_type res"]
    by (simp add: iequals_ascii_def)
  have 5: "good_line (''Connection: '' @ (if ka then ''keep-alive'' else ''close''))"
    by (simp add: good_line_def)
  have 6: "\<not> is_length_header (''Connection: '' @ (if ka then ''keep-alive'' else ''close''))"
    using no_length_header [of "''Connection''" "'' '' @ (if ka then ''keep-alive'' else ''close'')"]
    by (simp add: iequals_ascii_def)
  show ?thesis
    using 1 2 3 4 5 6 assms(2) unfolding response_text_message message_ok_def by simp
qed

text \<open>
  Responses are framed correctly: a reader that cuts messages by \<open>Content-Length\<close> gets exactly
  the response out of the stream, whatever its body contains and whatever follows it.
\<close>

theorem response_framing:
  assumes "plain_response res" "length (response_text res ka) < 2 ^ 64"
  shows "http_dec (response_text res ka @ t) = Some (length (response_text res ka), response_text res ka)"
  unfolding response_text_message
  by (rule http_dec_message [OF response_message_ok [OF assms]])

theorem response_framing_witness:
  "http_dec (response_text response_default True @ ''x'') =
     Some (length (response_text response_default True), response_text response_default True)"
proof (rule response_framing)
  show "plain_response response_default" by (simp add: plain_response_def)
  have "length (nat_to_string 200) = 3" "length (nat_to_string 0) = 1"
    by (simp_all add: nat_to_string.simps)
  then show "length (response_text response_default True) < 2 ^ 64"
    by (simp add: response_text_def response_default_def crlf_def)
qed

section \<open>The session\<close>

text \<open>One step with a complete request at the front of the buffer.\<close>

lemma process_next:
  fixes env st m
  defines "req \<equiv> parse_raw_http (he_iter_headers env) (message_text m)"
  defines "ka \<equiv> req_keep_alive req \<and>
    \<not> (he_max_requests env > 0 \<and> hs_requests (ht_session st) + 1 \<ge> he_max_requests env)"
  assumes "acc_ok (hs_acc (ht_session st))" "acc_data (hs_acc (ht_session st)) = message_text m @ t" "message_ok m"
  obtains st' where "http_try_process env st =
      (case fst (route_request env req st) of Inl e \<Rightarrow> Thrown e | Inr res \<Rightarrow> Writing (response_text res ka) ka, st')"
    "acc_ok (hs_acc (ht_session st'))" "acc_data (hs_acc (ht_session st')) = t"
proof -
  let ?acc = "hs_acc (ht_session st)" and ?n = "length (message_text m)"
  let ?s = "(ht_session st)\<lparr>hs_acc := acc_compact (acc_consume ?n ?acc)\<rparr>"
  have b: "find_request_boundary (message_text m @ t) = Some ?n"
    using http_dec_message [OF assms(5), of t] by (auto simp: http_dec_def split: option.splits if_splits)
  have n: "?n \<le> length (acc_data ?acc)" by (simp add: assms(4))
  have acc: "acc_ok (acc_compact (acc_consume ?n ?acc)) \<and> acc_data (acc_compact (acc_consume ?n ?acc)) = t"
    using acc.pack_ok [OF acc.adv_ok [OF assms(3) n], of 4096]
      acc.pack_view [OF acc.adv_ok [OF assms(3) n], of 4096] acc.adv_view [OF assms(3) n] assms(4)
    by simp
  obtain r st1 where r: "route_request env req (st\<lparr>ht_session := ?s\<rparr>) = (r, st1)" by fastforce
  have s1: "ht_session st1 = ?s"
    using route_request_kept(1) [of env req "st\<lparr>ht_session := ?s\<rparr>"] r by simp
  have f: "fst (route_request env req st) = r"
    using route_request_session [of env req ?s st] r by simp
  have p: "parse_raw_http (he_iter_headers env) (message_text m) = req" by (simp add: req_def)
  show ?thesis
  proof (cases r)
    case (Inl e)
    show ?thesis by (rule that [of st1]) (use acc f s1 r b p Inl in \<open>simp_all add: http_try_process_def assms(4) Let_def\<close>)
  next
    case (Inr res)
    show ?thesis by (rule that [of "snd (http_try_process env st)"])
      (use acc f s1 r b p Inr in \<open>simp_all add: http_try_process_def assms(4) Let_def ka_def\<close>)
  qed
qed

text \<open>
  C26: The session answers exactly the next request: with a complete well-formed request at the front
  of the buffer, one step routes that request alone, consumes exactly its bytes (leaving whatever was
  pipelined behind it), and either writes the route's response or lets the route's exception out.
\<close>

theorem http_process_next:
  assumes "acc_ok (hs_acc (ht_session st))" "acc_data (hs_acc (ht_session st)) = message_text m @ t"
    and "message_ok m"
  shows "let (o', st') = http_try_process env st;
      req = parse_raw_http (he_iter_headers env) (message_text m) in
    acc_ok (hs_acc (ht_session st')) \<and> acc_data (hs_acc (ht_session st')) = t \<and>
    (case fst (route_request env req st) of
       Inl e \<Rightarrow> o' = Thrown e
     | Inr res \<Rightarrow> \<exists>ka. o' = Writing (response_text res ka) ka \<and> (ka \<longrightarrow> req_keep_alive req))"
  by (rule process_next [OF assms, of env]) (auto simp: Let_def split: sum.split)

theorem http_process_next_witness:
  "\<exists>o' st'. http_try_process toy_env (toy_http\<lparr>ht_session := (ht_session toy_http)\<lparr>hs_acc :=
      acc_append (message_text ([''GET / HTTP/1.1''], [], None)) acc_empty\<rparr>\<rparr>) = (o', st') \<and>
     acc_data (hs_acc (ht_session st')) = []"
proof -
  let ?m = "([''GET / HTTP/1.1''], [], None) :: http_message"
  let ?st = "toy_http\<lparr>ht_session := (ht_session toy_http)\<lparr>hs_acc := acc_append (message_text ?m) acc_empty\<rparr>\<rparr>"
  have len: "length (message_text ?m) = 18" by (simp add: message_text_def head_text_def crlf_def)
  have "message_ok ?m"
    by (simp add: message_ok_def good_line_def is_length_header_def len iequals_ascii_def
        append_eq_Cons_conv Cons_eq_append_conv)
  moreover have "acc_ok (hs_acc (ht_session ?st))" "acc_data (hs_acc (ht_session ?st)) = message_text ?m @ []"
    by (simp_all add: acc_ok_def acc_data_def acc_append_def acc_empty_def len)
  ultimately show ?thesis using http_process_next [of ?st ?m "[]" toy_env]
    by (auto simp: Let_def split: prod.splits)
qed

section \<open>A connection over its life\<close>

text \<open>
  What can happen on a connection: a read delivers bytes or fails, a write finishes, the idle timer
  fires (also late, when its handler was already queued), and in between the rest of the server
  changes the registry and the guard. The pending operation decides which handler an event reaches.
\<close>

datatype 'cb http_event =
    Got_bytes bytes
  | Read_failed
  | Idle_fired
  | Write_finished bool
  | Others_ran "'cb registry" guard

record 'cb http_conn =
  hc_pending :: http_outcome
  hc_state :: "'cb http_state"
  hc_responses :: nat

fun issued_writes :: "http_outcome \<Rightarrow> nat" where
  "issued_writes (Writing out ka) = 1"
| "issued_writes _ = 0"

definition http_after :: "http_outcome \<times> 'cb http_state \<Rightarrow> 'cb http_conn \<Rightarrow> 'cb http_conn" where
  "http_after r c = \<lparr>hc_pending = fst r, hc_state = snd r,
     hc_responses = hc_responses c + issued_writes (fst r)\<rparr>"

fun http_event_step :: "http_env \<Rightarrow> 'cb http_event \<Rightarrow> 'cb http_conn \<Rightarrow> 'cb http_conn" where
  "http_event_step env (Got_bytes data) c =
     (if hc_pending c = Read_more then http_after (http_on_bytes_read env data (hc_state c)) c else c)"
| "http_event_step env Read_failed c =
     (if hc_pending c = Read_more then http_after (Session_closed, http_close (hc_state c)) c else c)"
| "http_event_step env Idle_fired c = c\<lparr>hc_state := http_close (hc_state c)\<rparr>"
| "http_event_step env (Write_finished ec) c =
     (case hc_pending c of
        Writing out ka \<Rightarrow> http_after (http_write_done env ec ka (hc_state c)) c | _ \<Rightarrow> c)"
| "http_event_step env (Others_ran reg g) c =
     c\<lparr>hc_state := (hc_state c)\<lparr>ht_registry := reg, ht_guard := g\<rparr>\<rparr>"

definition http_conn_new :: "'cb http_state \<Rightarrow> string \<Rightarrow> 'cb http_conn" where
  "http_conn_new st peer =
     \<lparr>hc_pending = Read_more, hc_state = st\<lparr>ht_session := http_session_new peer\<rparr>, hc_responses = 0\<rparr>"

text \<open>The number of responses is the session's counter; after the last one no read is pending.\<close>

definition cap_inv :: "http_env \<Rightarrow> 'cb http_conn \<Rightarrow> bool" where
  "cap_inv env c =
     (let n = hs_requests (ht_session (hc_state c))
      in hc_responses c = n \<and> n \<le> he_max_requests env \<and>
         (hc_pending c = Read_more \<longrightarrow> n < he_max_requests env) \<and>
         (\<forall>out. hc_pending c = Writing out True \<longrightarrow> n < he_max_requests env))"

lemma http_close_requests [simp]: "hs_requests (ht_session (http_close st)) = hs_requests (ht_session st)"
  by (simp add: http_close_def)

lemma http_try_process_count:
  assumes "http_try_process env st = (o', st')" "hs_requests (ht_session st) < he_max_requests env"
  shows "hs_requests (ht_session st') = hs_requests (ht_session st) + issued_writes o' \<and>
    (\<forall>out. o' = Writing out True \<longrightarrow> hs_requests (ht_session st') < he_max_requests env) \<and>
    o' \<noteq> Session_closed"
proof (cases "find_request_boundary (acc_data (hs_acc (ht_session st)))")
  case None
  then show ?thesis using assms by (auto simp: http_try_process_def Let_def)
next
  case (Some b)
  let ?s = "(ht_session st)\<lparr>hs_acc := acc_compact (acc_consume b (hs_acc (ht_session st)))\<rparr>"
  let ?req = "parse_raw_http (he_iter_headers env) (take b (acc_data (hs_acc (ht_session st))))"
  obtain r st1 where r: "route_request env ?req (st\<lparr>ht_session := ?s\<rparr>) = (r, st1)" by fastforce
  have "hs_requests (ht_session st1) = hs_requests (ht_session st)"
    using route_request_kept(1) [of env ?req "st\<lparr>ht_session := ?s\<rparr>"] r by simp
  then show ?thesis using assms Some r
    by (cases r) (auto simp: http_try_process_def Let_def)
qed

lemma http_bytes_count:
  assumes "http_on_bytes_read env data st = (o', st')" "hs_requests (ht_session st) < he_max_requests env"
  shows "hs_requests (ht_session st') = hs_requests (ht_session st) + issued_writes o' \<and>
    (\<forall>out. o' = Writing out True \<longrightarrow> hs_requests (ht_session st') < he_max_requests env)"
  using assms
    http_try_process_count [of env "st\<lparr>ht_registry := (ht_registry st)\<lparr>r_mem :=
        add_http_rx_bytes (int (length data)) (r_mem (ht_registry st))\<rparr>,
      ht_session := (ht_session st)\<lparr>hs_acc := acc_append (string_of_bytes data) (hs_acc (ht_session st))\<rparr>\<rparr>" o' st']
  by (auto simp: http_on_bytes_read_def Let_def split: if_splits)

interpretation cap: event_driven "http_event_step env" "cap_inv env" for env
proof
  fix c :: "'a http_conn" and e
  assume inv: "cap_inv env c"
  let ?n = "hs_requests (ht_session (hc_state c))"
  show "cap_inv env (http_event_step env e c)"
  proof (cases e)
    case (Got_bytes data)
    obtain o' st' where r: "http_on_bytes_read env data (hc_state c) = (o', st')" by fastforce
    show ?thesis
    proof (cases "hc_pending c = Read_more")
      case True
      then have "?n < he_max_requests env" using inv by (simp add: cap_inv_def Let_def)
      from http_bytes_count [OF r this] True inv this show ?thesis
        by (cases o') (auto simp: Got_bytes r http_after_def cap_inv_def Let_def)
    qed (use inv Got_bytes in simp)
  next
    case (Write_finished ec)
    show ?thesis
    proof (cases "hc_pending c")
      case (Writing out ka)
      show ?thesis
      proof (cases "ec \<or> \<not> ka")
        case True
        then show ?thesis using inv Write_finished Writing
          by (auto simp: http_write_done_def http_after_def cap_inv_def Let_def)
      next
        case False
        then have n: "?n < he_max_requests env" using inv Writing by (simp add: cap_inv_def Let_def)
        obtain o' st' where r: "http_try_process env (hc_state c) = (o', st')" by fastforce
        from http_try_process_count [OF r n] False inv n Write_finished Writing r show ?thesis
          by (cases o') (auto simp: http_write_done_def http_after_def cap_inv_def Let_def)
      qed
    qed (use inv Write_finished in simp_all)
  qed (use inv in \<open>auto simp: cap_inv_def http_after_def Let_def\<close>)
qed

text \<open>
  C29: The request cap bounds a connection for good: with \<open>max_requests_per_connection\<close> set, no
  sequence of reads, completed or failed writes, timer expirations and interleaved work of the rest
  of the server makes one connection serve more responses than the cap.
\<close>

theorem http_request_cap:
  assumes "0 < he_max_requests env"
  shows "hc_responses (fold (http_event_step env) es (http_conn_new st peer)) \<le> he_max_requests env"
proof -
  have "cap_inv env (http_conn_new st peer)"
    using assms by (simp add: cap_inv_def http_conn_new_def http_session_new_def Let_def)
  from cap.run_inv [OF this, of es] show ?thesis by (simp add: cap_inv_def Let_def)
qed

theorem http_request_cap_witness:
  "hc_responses (fold (http_event_step toy_env) [Got_bytes [71], Write_finished False]
      (http_conn_new toy_http ''10.0.0.7'')) \<le> 2"
  using http_request_cap [of toy_env "[Got_bytes [71], Write_finished False]" toy_http "''10.0.0.7''"]
  by (simp add: toy_env_def)

text \<open>
  A page or count that is not a number takes the whole connection down: the exception leaves the
  read handler, no response is written, and the connection is never released, so the guard goes on
  counting a connection that no longer exists.
\<close>

theorem bad_page_leaks:
  assumes "hs_acc (ht_session st) = acc_append text acc_empty" "find_request_boundary text = Some (length text)"
    and "req_path (parse_raw_http (he_iter_headers env) text) = ''/registry''"
    and "query_param (parse_raw_http (he_iter_headers env) text) ''page'' = Some v" "stoul v = Inl e"
  shows "\<exists>st'. http_try_process env st = (Thrown e, st') \<and> ht_guard st' = ht_guard st \<and>
    hs_closed (ht_session st') = hs_closed (ht_session st)"
proof -
  let ?req = "parse_raw_http (he_iter_headers env) text"
  have d: "acc_data (acc_append text acc_empty) = text"
    by (simp add: acc_data_def acc_append_def acc_empty_def)
  have "fst (route_request env ?req st) = Inl e" for st :: "'a http_state"
    using assms(3-5) by (simp add: route_request_def registry_route_def number_param_def)
  then show ?thesis
    using assms(1,2) d route_request_kept [of env ?req
        "st\<lparr>ht_session := (ht_session st)\<lparr>hs_acc := acc_compact (acc_consume (length text) (acc_append text acc_empty))\<rparr>\<rparr>"]
    by (auto simp: http_try_process_def Let_def split: prod.split sum.split) (metis fst_conv sum.inject(1) Inl_Inr_False)+
qed

definition bad_page_request :: string where
  "bad_page_request = request_text ''GET'' ''/registry'' [(''page'', ''abc'')] ''HTTP/1.1'' []"

theorem bad_page_leaks_witness:
  "\<exists>st'. http_try_process toy_env (toy_http\<lparr>ht_session := (ht_session toy_http)\<lparr>hs_acc :=
       acc_append bad_page_request acc_empty\<rparr>\<rparr>) = (Thrown Invalid_argument, st') \<and>
     total_connections (ht_guard st') = 1 \<and> \<not> hs_closed (ht_session st')"
proof -
  let ?st = "toy_http\<lparr>ht_session := (ht_session toy_http)\<lparr>hs_acc := acc_append bad_page_request acc_empty\<rparr>\<rparr>"
  let ?m = "([''GET /registry?page=abc HTTP/1.1''], [], None) :: http_message"
  have m: "bad_page_request = message_text ?m"
    by (simp add: bad_page_request_def request_text_def target_text_def message_text_def)
  have "message_ok ?m"
    by (simp add: message_ok_def good_line_def is_length_header_def message_text_def head_text_def crlf_def
        iequals_ascii_def append_eq_Cons_conv Cons_eq_append_conv)
  from http_dec_message [OF this, of "[]"]
  have b: "find_request_boundary bad_page_request = Some (length bad_page_request)"
    by (simp add: m http_dec_def split: option.splits if_splits)
  have "let r = parse_raw_http (\<lambda>xs. xs) bad_page_request in
      req_path r = ''/registry'' \<and> map_of (req_query r) = map_of (rev [(''page'', ''abc'')])"
    using parse_raw_request [of "''GET''" "''/registry''" "[(''page'', ''abc'')]" "''HTTP/1.1''" "[]" "\<lambda>xs. xs"]
    by (simp add: bad_page_request_def token_text_def plain_query_def Let_def)
  then have p: "req_path (parse_raw_http (\<lambda>xs. xs) bad_page_request) = ''/registry''"
    and q: "query_param (parse_raw_http (\<lambda>xs. xs) bad_page_request) ''page'' = Some ''abc''"
    by (simp_all add: Let_def query_param_def)
  have e: "stoul ''abc'' = Inl Invalid_argument" by code_simp
  have i: "he_iter_headers toy_env = (\<lambda>xs. xs)" by (simp add: toy_env_def)
  have "\<exists>st'. http_try_process toy_env ?st = (Thrown Invalid_argument, st') \<and>
      ht_guard st' = ht_guard ?st \<and> hs_closed (ht_session st') = hs_closed (ht_session ?st)"
    by (rule bad_page_leaks [OF _ b _ _ e]) (simp_all add: i p q)
  moreover have "total_connections (ht_guard ?st) = 1" "\<not> hs_closed (ht_session ?st)"
    by (simp_all add: toy_http_def http_session_new_def, code_simp)
  ultimately show ?thesis by metis
qed

end
