(* ===== verification/HttpInv.thy ===== *)
theory HttpInv
  imports HttpServer
begin

text \<open>
  What the events of an HTTP connection do to the objects it shares with the rest of the process: the
  registry keeps its nodes and its extra gauge, and the guard changes only when the connection closes,
  by releasing its own address, once.
\<close>

definition same_extra :: "memory_tracker \<Rightarrow> memory_tracker \<Rightarrow> bool" where
  "same_extra t t' = (extra_bytes t' = extra_bytes t)"

definition shares :: "'cb http_state \<Rightarrow> 'cb http_state \<Rightarrow> bool" where
  "shares st st' =
     (r_nodes (ht_registry st') = r_nodes (ht_registry st) \<and>
      r_id_counter (ht_registry st') = r_id_counter (ht_registry st) \<and>
      r_max_extra (ht_registry st') = r_max_extra (ht_registry st) \<and>
      r_cbs (ht_registry st') = r_cbs (ht_registry st) \<and>
      same_extra (r_mem (ht_registry st)) (r_mem (ht_registry st')) \<and>
      hs_peer (ht_session st') = hs_peer (ht_session st) \<and>
      (if hs_closed (ht_session st') = hs_closed (ht_session st) then ht_guard st' = ht_guard st
       else hs_closed (ht_session st') \<and> ht_guard st' = release (hs_peer (ht_session st)) (ht_guard st)))"

lemma shares_refl [simp]: "shares st st"
  by (simp add: shares_def same_extra_def)

lemma shares_trans: "shares st1 st2 \<Longrightarrow> shares st2 st3 \<Longrightarrow> shares st1 st3"
  by (auto simp: shares_def same_extra_def split: if_splits)

lemma shares_reg_ok: "shares st st' \<Longrightarrow> reg_ok L (ht_registry st') = reg_ok L (ht_registry st)"
  by (simp add: shares_def same_extra_def reg_ok_def)

lemma shares_close: "shares st (http_close st)"
  by (simp add: shares_def http_close_def same_extra_def)

text \<open>Changing the session's buffer or counter, and counting bytes.\<close>

lemma shares_session:
  assumes "hs_peer s = hs_peer (ht_session st)" "hs_closed s = hs_closed (ht_session st)"
    and "same_extra (r_mem (ht_registry st)) t"
  shows "shares st (st\<lparr>ht_session := s\<rparr>)"
    "shares st (st\<lparr>ht_session := s, ht_registry := (ht_registry st)\<lparr>r_mem := t\<rparr>\<rparr>)"
  using assms by (simp_all add: shares_def same_extra_def)

lemma same_extra_http [simp]: "same_extra t (add_http_rx_bytes n t)" "same_extra t (add_http_tx_bytes n t)" "same_extra t t"
  by (simp_all add: same_extra_def add_http_rx_bytes_def add_http_tx_bytes_def)

lemma shares_route: "shares st (snd (route_request env req st))"
  by (auto simp: shares_def same_extra_def route_request_def resolve_route_def resolve_node_def Let_def
      split: prod.splits)

lemma shares_try_process: "shares st (snd (http_try_process env st))"
proof (cases "find_request_boundary (acc_data (hs_acc (ht_session st)))")
  case (Some b)
  let ?s = "(ht_session st)\<lparr>hs_acc := acc_compact (acc_consume b (hs_acc (ht_session st)))\<rparr>"
  let ?req = "parse_raw_http (he_iter_headers env) (take b (acc_data (hs_acc (ht_session st))))"
  obtain r st1 where r: "route_request env ?req (st\<lparr>ht_session := ?s\<rparr>) = (r, st1)" by fastforce
  have "shares st (st\<lparr>ht_session := ?s\<rparr>)" by (rule shares_session(1) [OF _ _ same_extra_http(3)]) simp_all
  from shares_trans [OF this shares_route, of env ?req] have 1: "shares st st1" by (simp add: r)
  have "shares st1 (st1\<lparr>ht_session := (ht_session st1)\<lparr>hs_requests := n\<rparr>,
      ht_registry := (ht_registry st1)\<lparr>r_mem := add_http_tx_bytes k (r_mem (ht_registry st1))\<rparr>\<rparr>)" for n k
    by (rule shares_session(2)) simp_all
  from shares_trans [OF 1 this] 1 Some r show ?thesis
    by (cases r) (simp_all add: http_try_process_def Let_def)
qed (simp add: http_try_process_def Let_def)

lemma shares_bytes_read: "shares st (snd (http_on_bytes_read env data st))"
proof -
  let ?st = "st\<lparr>ht_registry := (ht_registry st)\<lparr>r_mem := add_http_rx_bytes (int (length data)) (r_mem (ht_registry st))\<rparr>,
      ht_session := (ht_session st)\<lparr>hs_acc := acc_append (string_of_bytes data) (hs_acc (ht_session st))\<rparr>\<rparr>"
  have "shares st ?st" by (simp add: shares_def same_extra_def add_http_rx_bytes_def)
  from shares_trans [OF this shares_close] shares_trans [OF this shares_try_process] show ?thesis
    by (simp add: http_on_bytes_read_def Let_def)
qed

lemma shares_event:
  assumes "\<forall>reg g. e \<noteq> Others_ran reg g"
  shows "shares (hc_state c) (hc_state (http_event_step env e c))"
proof (cases e)
  case (Write_finished ec)
  then show ?thesis
    by (cases "hc_pending c")
      (simp_all add: http_after_def http_write_done_def shares_close shares_try_process)
qed (use assms in \<open>simp_all add: http_after_def shares_close shares_bytes_read\<close>)

end
