(* ===== verification/CliOptions.thy ===== *)
theory CliOptions
  imports Json
begin

text \<open>
  Configuration (\<open>include/apr/cli_options.hpp\<close>, \<open>src/core/cli_options.cpp\<close>, the start of
  \<open>src/main.cpp\<close>): the options and their defaults, the JSON configuration file, the command line, and
  the environment. The file system is the argument \<open>files\<close>: what parsing the file at a path gives,
  \<open>None\<close> if it cannot be opened or parsed. \<open>argv\<close> is the list of arguments after the program's name.
\<close>

section \<open>Options\<close>

record cli_options =
  co_standalone :: bool
  co_cell_id :: string
  co_access_key :: string
  co_mqtt_port :: "16 word"
  co_ws_port :: "16 word"
  co_http_port :: "16 word"
  co_threads :: nat
  co_log_file :: string
  co_log_level :: string
  co_session_idle_timeout_sec :: nat
  co_max_session_buffer_bytes :: nat
  co_max_node_extra_bytes :: nat
  co_max_connections :: nat
  co_max_connections_per_ip :: nat
  co_max_new_connections_per_ip :: nat
  co_connection_rate_window_sec :: nat
  co_max_requests_per_connection :: nat
  co_monitor_enabled :: bool
  co_tester_enabled :: bool

definition cli_default :: cli_options where
  "cli_default = \<lparr>co_standalone = False,
     co_cell_id = ''default_cell'',
     co_access_key = ''lightapr_secret_key'',
     co_mqtt_port = 1883,
     co_ws_port = 8083,
     co_http_port = 8080,
     co_threads = 0,
     co_log_file = ''lightapr.log'',
     co_log_level = ''info'',
     co_session_idle_timeout_sec = 90,
     co_max_session_buffer_bytes = 262144,
     co_max_node_extra_bytes = 8192,
     co_max_connections = 10000,
     co_max_connections_per_ip = 100,
     co_max_new_connections_per_ip = 20,
     co_connection_rate_window_sec = 10,
     co_max_requests_per_connection = 10000,
     co_monitor_enabled = False,
     co_tester_enabled = False\<rparr>"

section \<open>The configuration file\<close>

text \<open>A member is read if it is there and of the right kind; anything else leaves the option alone.\<close>

definition file_bool :: "json \<Rightarrow> string \<Rightarrow> bool \<Rightarrow> bool" where
  "file_bool j k d = (case jlookup j k of Some (JBool b) \<Rightarrow> b | _ \<Rightarrow> d)"

definition file_string :: "json \<Rightarrow> string \<Rightarrow> string \<Rightarrow> string" where
  "file_string j k d = (case jlookup j k of Some (JStr s) \<Rightarrow> s | _ \<Rightarrow> d)"

definition file_u16 :: "json \<Rightarrow> string \<Rightarrow> 16 word \<Rightarrow> 16 word" where
  "file_u16 j k d = (case jlookup j k of Some (JUInt n) \<Rightarrow> word_of_nat n | _ \<Rightarrow> d)"

definition file_size :: "json \<Rightarrow> string \<Rightarrow> nat \<Rightarrow> nat" where
  "file_size j k d = (case jlookup j k of Some (JUInt n) \<Rightarrow> n | _ \<Rightarrow> d)"

definition load_options :: "json \<Rightarrow> cli_options \<Rightarrow> cli_options" where
  "load_options j opts = opts
    \<lparr>co_standalone := file_bool j ''standalone'' (co_standalone opts),
     co_cell_id := file_string j ''cell_id'' (co_cell_id opts),
     co_access_key := file_string j ''access_key'' (co_access_key opts),
     co_mqtt_port := file_u16 j ''mqtt_port'' (co_mqtt_port opts),
     co_ws_port := file_u16 j ''ws_port'' (co_ws_port opts),
     co_http_port := file_u16 j ''http_port'' (co_http_port opts),
     co_threads := file_size j ''threads'' (co_threads opts),
     co_log_file := file_string j ''log_file'' (co_log_file opts),
     co_log_level := file_string j ''log_level'' (co_log_level opts),
     co_session_idle_timeout_sec := file_size j ''session_idle_timeout_sec'' (co_session_idle_timeout_sec opts),
     co_max_session_buffer_bytes := file_size j ''max_session_buffer_bytes'' (co_max_session_buffer_bytes opts),
     co_max_node_extra_bytes := file_size j ''max_node_extra_bytes'' (co_max_node_extra_bytes opts),
     co_max_connections := file_size j ''max_connections'' (co_max_connections opts),
     co_max_connections_per_ip := file_size j ''max_connections_per_ip'' (co_max_connections_per_ip opts),
     co_max_new_connections_per_ip := file_size j ''max_new_connections_per_ip'' (co_max_new_connections_per_ip opts),
     co_connection_rate_window_sec := file_size j ''connection_rate_window_sec'' (co_connection_rate_window_sec opts),
     co_max_requests_per_connection := file_size j ''max_requests_per_connection'' (co_max_requests_per_connection opts),
     co_monitor_enabled := file_bool j ''monitor'' (co_monitor_enabled opts),
     co_tester_enabled := file_bool j ''tester'' (co_tester_enabled opts)\<rparr>"

definition load_from_file :: "(string \<Rightarrow> json option) \<Rightarrow> string \<Rightarrow> cli_options \<Rightarrow> bool \<times> cli_options" where
  "load_from_file files path opts =
     (case files path of None \<Rightarrow> (False, opts) | Some j \<Rightarrow> (True, load_options j opts))"

section \<open>The command line\<close>

record cli_overrides =
  ov_values :: cli_options
  ov_standalone :: bool
  ov_cell_id :: bool
  ov_access_key :: bool
  ov_mqtt_port :: bool
  ov_ws_port :: bool
  ov_http_port :: bool
  ov_threads :: bool
  ov_log_file :: bool
  ov_log_level :: bool
  ov_session_idle_timeout_sec :: bool
  ov_max_session_buffer_bytes :: bool
  ov_max_node_extra_bytes :: bool
  ov_max_connections :: bool
  ov_max_connections_per_ip :: bool
  ov_max_new_connections_per_ip :: bool
  ov_connection_rate_window_sec :: bool
  ov_max_requests_per_connection :: bool
  ov_monitor_enabled :: bool
  ov_tester_enabled :: bool

definition overrides_none :: cli_overrides where
  "overrides_none = \<lparr>ov_values = cli_default,
     ov_standalone = False, ov_cell_id = False, ov_access_key = False, ov_mqtt_port = False, ov_ws_port = False, ov_http_port = False, ov_threads = False, ov_log_file = False, ov_log_level = False, ov_session_idle_timeout_sec = False, ov_max_session_buffer_bytes = False, ov_max_node_extra_bytes = False, ov_max_connections = False, ov_max_connections_per_ip = False, ov_max_new_connections_per_ip = False, ov_connection_rate_window_sec = False, ov_max_requests_per_connection = False, ov_monitor_enabled = False, ov_tester_enabled = False\<rparr>"

definition apply_overrides :: "cli_overrides \<Rightarrow> cli_options \<Rightarrow> cli_options" where
  "apply_overrides ov opts = opts
    \<lparr>co_standalone := (if ov_standalone ov then co_standalone (ov_values ov) else co_standalone opts),
     co_cell_id := (if ov_cell_id ov then co_cell_id (ov_values ov) else co_cell_id opts),
     co_access_key := (if ov_access_key ov then co_access_key (ov_values ov) else co_access_key opts),
     co_mqtt_port := (if ov_mqtt_port ov then co_mqtt_port (ov_values ov) else co_mqtt_port opts),
     co_ws_port := (if ov_ws_port ov then co_ws_port (ov_values ov) else co_ws_port opts),
     co_http_port := (if ov_http_port ov then co_http_port (ov_values ov) else co_http_port opts),
     co_threads := (if ov_threads ov then co_threads (ov_values ov) else co_threads opts),
     co_log_file := (if ov_log_file ov then co_log_file (ov_values ov) else co_log_file opts),
     co_log_level := (if ov_log_level ov then co_log_level (ov_values ov) else co_log_level opts),
     co_session_idle_timeout_sec := (if ov_session_idle_timeout_sec ov then co_session_idle_timeout_sec (ov_values ov) else co_session_idle_timeout_sec opts),
     co_max_session_buffer_bytes := (if ov_max_session_buffer_bytes ov then co_max_session_buffer_bytes (ov_values ov) else co_max_session_buffer_bytes opts),
     co_max_node_extra_bytes := (if ov_max_node_extra_bytes ov then co_max_node_extra_bytes (ov_values ov) else co_max_node_extra_bytes opts),
     co_max_connections := (if ov_max_connections ov then co_max_connections (ov_values ov) else co_max_connections opts),
     co_max_connections_per_ip := (if ov_max_connections_per_ip ov then co_max_connections_per_ip (ov_values ov) else co_max_connections_per_ip opts),
     co_max_new_connections_per_ip := (if ov_max_new_connections_per_ip ov then co_max_new_connections_per_ip (ov_values ov) else co_max_new_connections_per_ip opts),
     co_connection_rate_window_sec := (if ov_connection_rate_window_sec ov then co_connection_rate_window_sec (ov_values ov) else co_connection_rate_window_sec opts),
     co_max_requests_per_connection := (if ov_max_requests_per_connection ov then co_max_requests_per_connection (ov_values ov) else co_max_requests_per_connection opts),
     co_monitor_enabled := (if ov_monitor_enabled ov then co_monitor_enabled (ov_values ov) else co_monitor_enabled opts),
     co_tester_enabled := (if ov_tester_enabled ov then co_tester_enabled (ov_values ov) else co_tester_enabled opts)\<rparr>"

record cli_state =
  cs_overrides :: cli_overrides
  cs_config :: "string option"

definition cli_state_init :: cli_state where
  "cli_state_init = \<lparr>cs_overrides = overrides_none, cs_config = None\<rparr>"

text \<open>Storing the value of one flag and remembering that it was given.\<close>

definition set_standalone :: "bool \<Rightarrow> cli_state \<Rightarrow> cli_state" where
  "set_standalone x st = st\<lparr>cs_overrides := (cs_overrides st)
     \<lparr>ov_values := (ov_values (cs_overrides st))\<lparr>co_standalone := x\<rparr>, ov_standalone := True\<rparr>\<rparr>"

definition set_cell_id :: "string \<Rightarrow> cli_state \<Rightarrow> cli_state" where
  "set_cell_id x st = st\<lparr>cs_overrides := (cs_overrides st)
     \<lparr>ov_values := (ov_values (cs_overrides st))\<lparr>co_cell_id := x\<rparr>, ov_cell_id := True\<rparr>\<rparr>"

definition set_access_key :: "string \<Rightarrow> cli_state \<Rightarrow> cli_state" where
  "set_access_key x st = st\<lparr>cs_overrides := (cs_overrides st)
     \<lparr>ov_values := (ov_values (cs_overrides st))\<lparr>co_access_key := x\<rparr>, ov_access_key := True\<rparr>\<rparr>"

definition set_mqtt_port :: "16 word \<Rightarrow> cli_state \<Rightarrow> cli_state" where
  "set_mqtt_port x st = st\<lparr>cs_overrides := (cs_overrides st)
     \<lparr>ov_values := (ov_values (cs_overrides st))\<lparr>co_mqtt_port := x\<rparr>, ov_mqtt_port := True\<rparr>\<rparr>"

definition set_ws_port :: "16 word \<Rightarrow> cli_state \<Rightarrow> cli_state" where
  "set_ws_port x st = st\<lparr>cs_overrides := (cs_overrides st)
     \<lparr>ov_values := (ov_values (cs_overrides st))\<lparr>co_ws_port := x\<rparr>, ov_ws_port := True\<rparr>\<rparr>"

definition set_http_port :: "16 word \<Rightarrow> cli_state \<Rightarrow> cli_state" where
  "set_http_port x st = st\<lparr>cs_overrides := (cs_overrides st)
     \<lparr>ov_values := (ov_values (cs_overrides st))\<lparr>co_http_port := x\<rparr>, ov_http_port := True\<rparr>\<rparr>"

definition set_threads :: "nat \<Rightarrow> cli_state \<Rightarrow> cli_state" where
  "set_threads x st = st\<lparr>cs_overrides := (cs_overrides st)
     \<lparr>ov_values := (ov_values (cs_overrides st))\<lparr>co_threads := x\<rparr>, ov_threads := True\<rparr>\<rparr>"

definition set_log_file :: "string \<Rightarrow> cli_state \<Rightarrow> cli_state" where
  "set_log_file x st = st\<lparr>cs_overrides := (cs_overrides st)
     \<lparr>ov_values := (ov_values (cs_overrides st))\<lparr>co_log_file := x\<rparr>, ov_log_file := True\<rparr>\<rparr>"

definition set_log_level :: "string \<Rightarrow> cli_state \<Rightarrow> cli_state" where
  "set_log_level x st = st\<lparr>cs_overrides := (cs_overrides st)
     \<lparr>ov_values := (ov_values (cs_overrides st))\<lparr>co_log_level := x\<rparr>, ov_log_level := True\<rparr>\<rparr>"

definition set_session_idle_timeout_sec :: "nat \<Rightarrow> cli_state \<Rightarrow> cli_state" where
  "set_session_idle_timeout_sec x st = st\<lparr>cs_overrides := (cs_overrides st)
     \<lparr>ov_values := (ov_values (cs_overrides st))\<lparr>co_session_idle_timeout_sec := x\<rparr>, ov_session_idle_timeout_sec := True\<rparr>\<rparr>"

definition set_max_session_buffer_bytes :: "nat \<Rightarrow> cli_state \<Rightarrow> cli_state" where
  "set_max_session_buffer_bytes x st = st\<lparr>cs_overrides := (cs_overrides st)
     \<lparr>ov_values := (ov_values (cs_overrides st))\<lparr>co_max_session_buffer_bytes := x\<rparr>, ov_max_session_buffer_bytes := True\<rparr>\<rparr>"

definition set_max_node_extra_bytes :: "nat \<Rightarrow> cli_state \<Rightarrow> cli_state" where
  "set_max_node_extra_bytes x st = st\<lparr>cs_overrides := (cs_overrides st)
     \<lparr>ov_values := (ov_values (cs_overrides st))\<lparr>co_max_node_extra_bytes := x\<rparr>, ov_max_node_extra_bytes := True\<rparr>\<rparr>"

definition set_max_connections :: "nat \<Rightarrow> cli_state \<Rightarrow> cli_state" where
  "set_max_connections x st = st\<lparr>cs_overrides := (cs_overrides st)
     \<lparr>ov_values := (ov_values (cs_overrides st))\<lparr>co_max_connections := x\<rparr>, ov_max_connections := True\<rparr>\<rparr>"

definition set_max_connections_per_ip :: "nat \<Rightarrow> cli_state \<Rightarrow> cli_state" where
  "set_max_connections_per_ip x st = st\<lparr>cs_overrides := (cs_overrides st)
     \<lparr>ov_values := (ov_values (cs_overrides st))\<lparr>co_max_connections_per_ip := x\<rparr>, ov_max_connections_per_ip := True\<rparr>\<rparr>"

definition set_max_new_connections_per_ip :: "nat \<Rightarrow> cli_state \<Rightarrow> cli_state" where
  "set_max_new_connections_per_ip x st = st\<lparr>cs_overrides := (cs_overrides st)
     \<lparr>ov_values := (ov_values (cs_overrides st))\<lparr>co_max_new_connections_per_ip := x\<rparr>, ov_max_new_connections_per_ip := True\<rparr>\<rparr>"

definition set_connection_rate_window_sec :: "nat \<Rightarrow> cli_state \<Rightarrow> cli_state" where
  "set_connection_rate_window_sec x st = st\<lparr>cs_overrides := (cs_overrides st)
     \<lparr>ov_values := (ov_values (cs_overrides st))\<lparr>co_connection_rate_window_sec := x\<rparr>, ov_connection_rate_window_sec := True\<rparr>\<rparr>"

definition set_max_requests_per_connection :: "nat \<Rightarrow> cli_state \<Rightarrow> cli_state" where
  "set_max_requests_per_connection x st = st\<lparr>cs_overrides := (cs_overrides st)
     \<lparr>ov_values := (ov_values (cs_overrides st))\<lparr>co_max_requests_per_connection := x\<rparr>, ov_max_requests_per_connection := True\<rparr>\<rparr>"

definition set_monitor_enabled :: "bool \<Rightarrow> cli_state \<Rightarrow> cli_state" where
  "set_monitor_enabled x st = st\<lparr>cs_overrides := (cs_overrides st)
     \<lparr>ov_values := (ov_values (cs_overrides st))\<lparr>co_monitor_enabled := x\<rparr>, ov_monitor_enabled := True\<rparr>\<rparr>"

definition set_tester_enabled :: "bool \<Rightarrow> cli_state \<Rightarrow> cli_state" where
  "set_tester_enabled x st = st\<lparr>cs_overrides := (cs_overrides st)
     \<lparr>ov_values := (ov_values (cs_overrides st))\<lparr>co_tester_enabled := x\<rparr>, ov_tester_enabled := True\<rparr>\<rparr>"

lemmas setters = set_standalone_def set_cell_id_def set_access_key_def set_mqtt_port_def set_ws_port_def set_http_port_def set_threads_def set_log_file_def set_log_level_def set_session_idle_timeout_sec_def set_max_session_buffer_bytes_def set_max_node_extra_bytes_def set_max_connections_def set_max_connections_per_ip_def set_max_new_connections_per_ip_def set_connection_rate_window_sec_def set_max_requests_per_connection_def set_monitor_enabled_def set_tester_enabled_def

text \<open>The branches for flags without a value, and for flags with one.\<close>

definition flag_option :: "string \<Rightarrow> cli_state \<Rightarrow> cli_state option" where
  "flag_option arg st =
     (if arg = ''-s'' \<or> arg = ''--standalone'' then Some (set_standalone True st)
      else if arg = ''--monitor'' then Some (set_monitor_enabled True st)
      else if arg = ''--tester'' then Some (set_tester_enabled True st)
      else None)"

definition value_option :: "string \<Rightarrow> string \<Rightarrow> cli_state \<Rightarrow> cli_state res option" where
  "value_option arg v st =
     (if arg = ''-c'' \<or> arg = ''--cell-id'' then Some (Inr (set_cell_id v st))
      else if arg = ''-k'' \<or> arg = ''--access-key'' then Some (Inr (set_access_key v st))
      else if arg = ''-p'' \<or> arg = ''--port'' then Some (bind_res (stoul v) (\<lambda>n. Inr (set_mqtt_port (word_of_nat n) st)))
      else if arg = ''-w'' \<or> arg = ''--ws-port'' then Some (bind_res (stoul v) (\<lambda>n. Inr (set_ws_port (word_of_nat n) st)))
      else if arg = ''-h'' \<or> arg = ''--http-port'' then Some (bind_res (stoul v) (\<lambda>n. Inr (set_http_port (word_of_nat n) st)))
      else if arg = ''-t'' \<or> arg = ''--threads'' then Some (bind_res (stoul v) (\<lambda>n. Inr (set_threads n st)))
      else if arg = ''-l'' \<or> arg = ''--log-file'' then Some (Inr (set_log_file v st))
      else if arg = ''-v'' \<or> arg = ''--log-level'' then Some (Inr (set_log_level v st))
      else if arg = ''--idle-timeout'' then Some (bind_res (stoul v) (\<lambda>n. Inr (set_session_idle_timeout_sec n st)))
      else if arg = ''--max-buffer-bytes'' then Some (bind_res (stoul v) (\<lambda>n. Inr (set_max_session_buffer_bytes n st)))
      else if arg = ''--max-node-extra-bytes'' then Some (bind_res (stoul v) (\<lambda>n. Inr (set_max_node_extra_bytes n st)))
      else if arg = ''--max-connections'' then Some (bind_res (stoul v) (\<lambda>n. Inr (set_max_connections n st)))
      else if arg = ''--max-connections-per-ip'' then Some (bind_res (stoul v) (\<lambda>n. Inr (set_max_connections_per_ip n st)))
      else if arg = ''--max-new-connections-per-ip'' then Some (bind_res (stoul v) (\<lambda>n. Inr (set_max_new_connections_per_ip n st)))
      else if arg = ''--connection-rate-window-sec'' then Some (bind_res (stoul v) (\<lambda>n. Inr (set_connection_rate_window_sec n st)))
      else if arg = ''--max-requests-per-connection'' then Some (bind_res (stoul v) (\<lambda>n. Inr (set_max_requests_per_connection n st)))
      else if arg = ''-f'' \<or> arg = ''--config'' then Some (Inr (st\<lparr>cs_config := Some v\<rparr>))
      else None)"

text \<open>
  The pass over \<open>argv\<close>: a flag that takes a value but is the last argument matches no branch, and an
  unknown argument is skipped.
\<close>

fun parse_args :: "string list \<Rightarrow> cli_state \<Rightarrow> cli_state res" where
  "parse_args [] st = Inr st"
| "parse_args (arg # rest) st =
     (case flag_option arg st of
        Some st \<Rightarrow> parse_args rest st
      | None \<Rightarrow>
          (case rest of
             [] \<Rightarrow> Inr st
           | v # rest' \<Rightarrow>
               (case value_option arg v st of
                  Some (Inl e) \<Rightarrow> Inl e
                | Some (Inr st) \<Rightarrow> parse_args rest' st
                | None \<Rightarrow> parse_args rest st)))"

definition cli_parse :: "(string \<Rightarrow> json option) \<Rightarrow> string list \<Rightarrow> cli_options res" where
  "cli_parse files argv =
     bind_res (parse_args argv cli_state_init) (\<lambda>st.
       let opts = (case cs_config st of
                     Some path \<Rightarrow> snd (load_from_file files path cli_default) | None \<Rightarrow> cli_default)
       in Inr (apply_overrides (cs_overrides st) opts))"

section \<open>The environment and what \<open>main\<close> derives\<close>

definition apply_environment :: "(string \<Rightarrow> string option) \<Rightarrow> cli_options \<Rightarrow> cli_options res" where
  "apply_environment getenv opts =
     (let opts = (case getenv ''CELL_ID'' of Some v \<Rightarrow> opts\<lparr>co_cell_id := v\<rparr> | None \<Rightarrow> opts);
          opts = (case getenv ''ACCESS_KEY'' of Some v \<Rightarrow> opts\<lparr>co_access_key := v\<rparr> | None \<Rightarrow> opts)
      in if co_threads opts = 0
         then case getenv ''WORKER_THREADS'' of
                Some v \<Rightarrow> bind_res (stoul v) (\<lambda>n. Inr (opts\<lparr>co_threads := n\<rparr>))
              | None \<Rightarrow>
                  (case getenv ''THREADS'' of
                     Some v \<Rightarrow> bind_res (stoul v) (\<lambda>n. Inr (opts\<lparr>co_threads := n\<rparr>))
                   | None \<Rightarrow> Inr opts)
         else Inr opts)"

definition worker_threads :: "nat \<Rightarrow> cli_options \<Rightarrow> nat" where
  "worker_threads hardware opts = (if co_threads opts = 0 then max 2 hardware else co_threads opts)"

definition listener_ports :: "cli_options \<Rightarrow> (16 word) list" where
  "listener_ports opts =
     [co_mqtt_port opts] @
     (if co_ws_port opts > 0 \<and> co_ws_port opts \<noteq> co_mqtt_port opts then [co_ws_port opts] else []) @
     [co_http_port opts]"

section \<open>A command line is what it spells\<close>

text \<open>A setting as an operator means it, how it is written, and what it does to the options.\<close>

datatype setting =
    With_standalone
  | With_cell_id string
  | With_access_key string
  | With_mqtt_port nat
  | With_ws_port nat
  | With_http_port nat
  | With_threads nat
  | With_log_file string
  | With_log_level string
  | With_idle_timeout nat
  | With_buffer_bytes nat
  | With_extra_bytes nat
  | With_connections nat
  | With_per_ip nat
  | With_new_per_ip nat
  | With_rate_window nat
  | With_requests nat
  | With_monitor
  | With_tester
  | With_config string

primrec spelled :: "setting \<Rightarrow> string list" where
  "spelled With_standalone = [''--standalone'']"
| "spelled (With_cell_id x) = [''--cell-id'', x]"
| "spelled (With_access_key x) = [''--access-key'', x]"
| "spelled (With_mqtt_port x) = [''--port'', nat_to_string x]"
| "spelled (With_ws_port x) = [''--ws-port'', nat_to_string x]"
| "spelled (With_http_port x) = [''--http-port'', nat_to_string x]"
| "spelled (With_threads x) = [''--threads'', nat_to_string x]"
| "spelled (With_log_file x) = [''--log-file'', x]"
| "spelled (With_log_level x) = [''--log-level'', x]"
| "spelled (With_idle_timeout x) = [''--idle-timeout'', nat_to_string x]"
| "spelled (With_buffer_bytes x) = [''--max-buffer-bytes'', nat_to_string x]"
| "spelled (With_extra_bytes x) = [''--max-node-extra-bytes'', nat_to_string x]"
| "spelled (With_connections x) = [''--max-connections'', nat_to_string x]"
| "spelled (With_per_ip x) = [''--max-connections-per-ip'', nat_to_string x]"
| "spelled (With_new_per_ip x) = [''--max-new-connections-per-ip'', nat_to_string x]"
| "spelled (With_rate_window x) = [''--connection-rate-window-sec'', nat_to_string x]"
| "spelled (With_requests x) = [''--max-requests-per-connection'', nat_to_string x]"
| "spelled With_monitor = [''--monitor'']"
| "spelled With_tester = [''--tester'']"
| "spelled (With_config x) = [''--config'', x]"

primrec meant :: "setting \<Rightarrow> cli_options \<Rightarrow> cli_options" where
  "meant With_standalone opts = opts\<lparr>co_standalone := True\<rparr>"
| "meant (With_cell_id x) opts = opts\<lparr>co_cell_id := x\<rparr>"
| "meant (With_access_key x) opts = opts\<lparr>co_access_key := x\<rparr>"
| "meant (With_mqtt_port x) opts = opts\<lparr>co_mqtt_port := word_of_nat x\<rparr>"
| "meant (With_ws_port x) opts = opts\<lparr>co_ws_port := word_of_nat x\<rparr>"
| "meant (With_http_port x) opts = opts\<lparr>co_http_port := word_of_nat x\<rparr>"
| "meant (With_threads x) opts = opts\<lparr>co_threads := x\<rparr>"
| "meant (With_log_file x) opts = opts\<lparr>co_log_file := x\<rparr>"
| "meant (With_log_level x) opts = opts\<lparr>co_log_level := x\<rparr>"
| "meant (With_idle_timeout x) opts = opts\<lparr>co_session_idle_timeout_sec := x\<rparr>"
| "meant (With_buffer_bytes x) opts = opts\<lparr>co_max_session_buffer_bytes := x\<rparr>"
| "meant (With_extra_bytes x) opts = opts\<lparr>co_max_node_extra_bytes := x\<rparr>"
| "meant (With_connections x) opts = opts\<lparr>co_max_connections := x\<rparr>"
| "meant (With_per_ip x) opts = opts\<lparr>co_max_connections_per_ip := x\<rparr>"
| "meant (With_new_per_ip x) opts = opts\<lparr>co_max_new_connections_per_ip := x\<rparr>"
| "meant (With_rate_window x) opts = opts\<lparr>co_connection_rate_window_sec := x\<rparr>"
| "meant (With_requests x) opts = opts\<lparr>co_max_requests_per_connection := x\<rparr>"
| "meant With_monitor opts = opts\<lparr>co_monitor_enabled := True\<rparr>"
| "meant With_tester opts = opts\<lparr>co_tester_enabled := True\<rparr>"
| "meant (With_config x) opts = opts"

primrec in_range :: "setting \<Rightarrow> bool" where
  "in_range With_standalone = True"
| "in_range (With_cell_id x) = True"
| "in_range (With_access_key x) = True"
| "in_range (With_mqtt_port x) = (x < 2 ^ 64)"
| "in_range (With_ws_port x) = (x < 2 ^ 64)"
| "in_range (With_http_port x) = (x < 2 ^ 64)"
| "in_range (With_threads x) = (x < 2 ^ 64)"
| "in_range (With_log_file x) = True"
| "in_range (With_log_level x) = True"
| "in_range (With_idle_timeout x) = (x < 2 ^ 64)"
| "in_range (With_buffer_bytes x) = (x < 2 ^ 64)"
| "in_range (With_extra_bytes x) = (x < 2 ^ 64)"
| "in_range (With_connections x) = (x < 2 ^ 64)"
| "in_range (With_per_ip x) = (x < 2 ^ 64)"
| "in_range (With_new_per_ip x) = (x < 2 ^ 64)"
| "in_range (With_rate_window x) = (x < 2 ^ 64)"
| "in_range (With_requests x) = (x < 2 ^ 64)"
| "in_range With_monitor = True"
| "in_range With_tester = True"
| "in_range (With_config x) = True"

definition config_of :: "setting list \<Rightarrow> string option" where
  "config_of ss = fold (\<lambda>s c. case s of With_config p \<Rightarrow> Some p | _ \<Rightarrow> c) ss None"

text \<open>The state a setting leaves, and what it means seen through \<open>apply_overrides\<close>.\<close>

primrec stored :: "setting \<Rightarrow> cli_state \<Rightarrow> cli_state" where
  "stored With_standalone st = set_standalone True st"
| "stored (With_cell_id x) st = set_cell_id x st"
| "stored (With_access_key x) st = set_access_key x st"
| "stored (With_mqtt_port x) st = set_mqtt_port (word_of_nat x) st"
| "stored (With_ws_port x) st = set_ws_port (word_of_nat x) st"
| "stored (With_http_port x) st = set_http_port (word_of_nat x) st"
| "stored (With_threads x) st = set_threads x st"
| "stored (With_log_file x) st = set_log_file x st"
| "stored (With_log_level x) st = set_log_level x st"
| "stored (With_idle_timeout x) st = set_session_idle_timeout_sec x st"
| "stored (With_buffer_bytes x) st = set_max_session_buffer_bytes x st"
| "stored (With_extra_bytes x) st = set_max_node_extra_bytes x st"
| "stored (With_connections x) st = set_max_connections x st"
| "stored (With_per_ip x) st = set_max_connections_per_ip x st"
| "stored (With_new_per_ip x) st = set_max_new_connections_per_ip x st"
| "stored (With_rate_window x) st = set_connection_rate_window_sec x st"
| "stored (With_requests x) st = set_max_requests_per_connection x st"
| "stored With_monitor st = set_monitor_enabled True st"
| "stored With_tester st = set_tester_enabled True st"
| "stored (With_config p) st = st\<lparr>cs_config := Some p\<rparr>"

definition taken :: "setting \<Rightarrow> cli_state \<Rightarrow> cli_state \<Rightarrow> bool" where
  "taken s st st' =
     ((\<forall>base. apply_overrides (cs_overrides st') base = meant s (apply_overrides (cs_overrides st) base)) \<and>
      cs_config st' = (case s of With_config p \<Rightarrow> Some p | _ \<Rightarrow> cs_config st))"

lemma parse_stored: "in_range s \<Longrightarrow> parse_args (spelled s @ rest) st = parse_args rest (stored s st)"
  by (cases s) (simp_all add: flag_option_def value_option_def stoul_nat_to_string)

lemma stored_taken: "taken s st (stored s st)"
  by (cases s) (simp_all add: setters taken_def apply_overrides_def)

lemma parse_one:
  assumes "in_range s"
  obtains st' where "\<And>rest. parse_args (spelled s @ rest) st = parse_args rest st'" "taken s st st'"
  using parse_stored [OF assms] stored_taken by blast

lemma parse_many:
  assumes "\<forall>s \<in> set ss. in_range s"
  shows "\<exists>st'. parse_args (concat (map spelled ss)) st = Inr st' \<and>
    (\<forall>base. apply_overrides (cs_overrides st') base = fold meant ss (apply_overrides (cs_overrides st) base)) \<and>
    cs_config st' = fold (\<lambda>s c. case s of With_config p \<Rightarrow> Some p | _ \<Rightarrow> c) ss (cs_config st)"
  using assms
proof (induction ss arbitrary: st)
  case (Cons s ss)
  obtain st1 where "\<And>rest. parse_args (spelled s @ rest) st = parse_args rest st1" "taken s st st1"
    using parse_one [of s st] Cons.prems by auto
  with Cons.IH [of st1] Cons.prems show ?case by (auto simp: taken_def)
qed simp

text \<open>
  C31: The command line means what it spells: for any list of settings, in any order and with
  repetitions, parsing their spelling applies them in order on top of the configuration file of the
  last \<open>--config\<close> (or of the defaults), so that a flag beats the file wherever \<open>--config\<close> stands and a
  later flag beats an earlier one. Ports are taken modulo \<open>2 ^ 16\<close>.
\<close>

theorem cli_parse_correct:
  assumes "\<forall>s \<in> set ss. in_range s"
  shows "cli_parse files (concat (map spelled ss)) = Inr (fold meant ss
    (case config_of ss of Some path \<Rightarrow> snd (load_from_file files path cli_default) | None \<Rightarrow> cli_default))"
proof -
  have "apply_overrides overrides_none base = base" for base
    by (simp add: apply_overrides_def overrides_none_def)
  then show ?thesis
    using parse_many [OF assms, of cli_state_init]
    by (auto simp: cli_parse_def config_of_def cli_state_init_def Let_def)
qed

theorem cli_parse_correct_witness:
  "cli_parse (\<lambda>p. Some (JObj [(''cell_id'', JStr ''file''), (''threads'', JUInt 4)]))
      [''--cell-id'', ''cli'', ''--config'', ''apr.json'', ''--port'', nat_to_string 1884] =
    Inr (cli_default\<lparr>co_cell_id := ''cli'', co_mqtt_port := 1884, co_threads := 4\<rparr>)"
  using cli_parse_correct [of "[With_cell_id ''cli'', With_config ''apr.json'', With_mqtt_port 1884]"
      "\<lambda>p. Some (JObj [(''cell_id'', JStr ''file''), (''threads'', JUInt 4)])"]
  by (simp add: config_of_def load_from_file_def load_options_def file_bool_def file_string_def file_u16_def
      file_size_def jlookup_def cli_default_def)

section \<open>Errors and precedence\<close>

definition number_flags :: "string list" where
  "number_flags = [''-p'', ''--port'', ''-w'', ''--ws-port'', ''-h'', ''--http-port'', ''-t'', ''--threads'',
     ''--idle-timeout'', ''--max-buffer-bytes'', ''--max-node-extra-bytes'', ''--max-connections'',
     ''--max-connections-per-ip'', ''--max-new-connections-per-ip'', ''--connection-rate-window-sec'',
     ''--max-requests-per-connection'']"

lemma number_flag_error:
  assumes "stoul v = Inl e"
  shows "\<forall>opt \<in> set number_flags. flag_option opt st = None \<and> value_option opt v st = Some (Inl e)"
  unfolding number_flags_def list.set ball_simps
  by (intro conjI TrueI; simp add: flag_option_def value_option_def assms)

text \<open>
  A flag that needs a number and is given something else ends the program: \<open>std::stoul\<close> throws,
  nothing in \<open>parse\<close> catches it, and \<open>parse\<close> is called outside the \<open>try\<close> of \<open>main\<close>, whatever the
  settings before it and the arguments after it. A port that is a number but does not fit is not
  refused: it is reduced modulo \<open>2 ^ 16\<close>.
\<close>

theorem cli_number_errors:
  assumes "\<forall>s \<in> set ss. in_range s" "opt \<in> set number_flags"
  shows "(\<forall>v e rest. stoul v = Inl e \<longrightarrow> cli_parse files (concat (map spelled ss) @ opt # v # rest) = Inl e) \<and>
    map_sum id co_mqtt_port (cli_parse files [''--port'', nat_to_string (65536 + 22)]) = Inr 22"
proof -
  have cont: "\<exists>st'. \<forall>rest. parse_args (concat (map spelled ss) @ rest) st = parse_args rest st'" for st
    using assms(1)
  proof (induction ss arbitrary: st)
    case (Cons s ss)
    obtain st1 where "\<And>rest. parse_args (spelled s @ rest) st = parse_args rest st1" "taken s st st1"
      using parse_one [of s st] Cons.prems by auto
    with Cons.IH [of st1] Cons.prems show ?case by auto
  qed auto
  have "parse_args (opt # v # rest) st = Inl e" if "stoul v = Inl e" for v e rest st
    using number_flag_error [OF that] assms(2) by simp
  with cont [of cli_state_init]
  have "stoul v = Inl e \<Longrightarrow> cli_parse files (concat (map spelled ss) @ opt # v # rest) = Inl e" for v e rest
    by (auto simp: cli_parse_def)
  moreover have "map_sum id co_mqtt_port (cli_parse files [''--port'', nat_to_string (65536 + 22)]) = Inr 22"
    by (simp add: cli_parse_def cli_state_init_def flag_option_def value_option_def setters
        stoul_nat_to_string apply_overrides_def overrides_none_def Let_def)
  ultimately show ?thesis by blast
qed

theorem cli_number_errors_witness:
  "cli_parse (\<lambda>p. None) [''--standalone'', ''--port'', ''http''] = Inl Invalid_argument"
proof -
  have "stoul ''http'' = Inl Invalid_argument" by code_simp
  then show ?thesis
    using cli_number_errors [of "[With_standalone]" "''--port''" "\<lambda>p. None"]
    by (simp add: number_flags_def)
qed

text \<open>
  The environment is consulted last and wins over the command line, although the comment in \<open>main\<close>
  says it is used for what the command line leaves unset; only the thread count behaves that way.
\<close>

lemma environment_beats_cli:
  assumes "\<forall>s \<in> set ss. in_range s" "getenv ''ACCESS_KEY'' = Some k" "getenv ''WORKER_THREADS'' = None"
    "getenv ''THREADS'' = None"
  shows "\<exists>opts. bind_res (cli_parse files (concat (map spelled (ss @ [With_access_key x])))) (apply_environment getenv)
    = Inr opts \<and> co_access_key opts = k"
proof -
  obtain o' where "cli_parse files (concat (map spelled (ss @ [With_access_key x]))) = Inr o'"
    using parse_many [of "ss @ [With_access_key x]" cli_state_init] assms(1) by (auto simp: cli_parse_def Let_def)
  moreover have "\<exists>opts. apply_environment getenv o' = Inr opts \<and> co_access_key opts = k"
    using assms(2-4) by (cases "getenv ''CELL_ID''") (simp_all add: apply_environment_def Let_def)
  ultimately show ?thesis by simp
qed

end
