(* ===== verification/Platform.thy ===== *)
theory Platform
  imports Prelude
begin

text \<open>
  The process side of the daemon (\<open>src/platforms/linux/posix_platform.cpp\<close>, and its use in
  \<open>src/main.cpp\<close>): the single-instance lock, becoming a daemon, and the start of the program up to
  the point where it serves. The system calls are modelled as POSIX documents them, as far as the code
  uses them: \<open>open\<close> takes the lowest free descriptor; a record lock belongs to a process and a file,
  is not inherited by \<open>fork\<close>, and is lost when the process closes any descriptor of the file or ends;
  a forked process has one thread. Several processes run interleaved, system call by system call.
\<close>

section \<open>The operating system\<close>

text \<open>Where a process is in \<open>acquire_single_instance_lock\<close> and \<open>release_single_instance_lock\<close>.\<close>

datatype lock_phase = Idle | Opened | Locked | Holding | Refused | Closed

record os_proc =
  op_fds :: "nat option list"
  op_worker :: bool
  op_log_fd :: "nat option"
  op_pid_fd :: "nat option"
  op_pid_path :: string
  op_phase :: lock_phase

record os =
  os_procs :: "nat \<Rightarrow> os_proc option"
  os_links :: "string \<Rightarrow> nat option"
  os_data :: "nat \<Rightarrow> string"
  os_locks :: "nat \<Rightarrow> nat option"
  os_next_file :: nat
  os_next_pid :: nat

text \<open>A started program: three standard descriptors on one file, one thread.\<close>

definition fresh_proc :: os_proc where
  "fresh_proc = \<lparr>op_fds = [Some 0, Some 0, Some 0], op_worker = False, op_log_fd = None, op_pid_fd = None,
     op_pid_path = [], op_phase = Idle\<rparr>"

abbreviation proc_at :: "os \<Rightarrow> nat \<Rightarrow> os_proc" where
  "proc_at os p \<equiv> the (os_procs os p)"

definition set_proc :: "nat \<Rightarrow> os_proc \<Rightarrow> os \<Rightarrow> os" where
  "set_proc p P os = os\<lparr>os_procs := (os_procs os)(p \<mapsto> P)\<rparr>"

definition fd_alloc :: "nat \<Rightarrow> nat option list \<Rightarrow> nat \<times> nat option list" where
  "fd_alloc i fds =
     (let free = length (takeWhile (\<lambda>x. x \<noteq> None) fds)
      in (free, if free < length fds then fds[free := Some i] else fds @ [Some i]))"

definition fd_file :: "os_proc \<Rightarrow> nat \<Rightarrow> nat option" where
  "fd_file P fd = (if fd < length (op_fds P) then op_fds P ! fd else None)"

section \<open>System calls\<close>

text \<open>\<open>may\<close>: what the process may open or create. A file that does not exist is created on request.\<close>

definition sys_open :: "(string \<Rightarrow> bool) \<Rightarrow> bool \<Rightarrow> string \<Rightarrow> nat \<Rightarrow> os \<Rightarrow> nat option \<times> os" where
  "sys_open may creat path p os =
     (if \<not> may path then (None, os)
      else case os_links os path of
        Some i \<Rightarrow>
          let (fd, fds) = fd_alloc i (op_fds (proc_at os p))
          in (Some fd, set_proc p ((proc_at os p)\<lparr>op_fds := fds\<rparr>) os)
      | None \<Rightarrow>
          if creat then
            let i = os_next_file os; (fd, fds) = fd_alloc i (op_fds (proc_at os p))
            in (Some fd, set_proc p ((proc_at os p)\<lparr>op_fds := fds\<rparr>)
                  (os\<lparr>os_links := (os_links os)(path \<mapsto> i), os_data := (os_data os)(i := []), os_next_file := i + 1\<rparr>))
          else (None, os))"

definition sys_close :: "nat \<Rightarrow> nat \<Rightarrow> os \<Rightarrow> os" where
  "sys_close fd p os =
     (case fd_file (proc_at os p) fd of
        None \<Rightarrow> os
      | Some i \<Rightarrow> (set_proc p ((proc_at os p)\<lparr>op_fds := (op_fds (proc_at os p))[fd := None]\<rparr>) os)
          \<lparr>os_locks := (if os_locks os i = Some p then (os_locks os)(i := None) else os_locks os)\<rparr>)"

definition sys_setlk :: "nat \<Rightarrow> nat \<Rightarrow> os \<Rightarrow> bool \<times> os" where
  "sys_setlk fd p os =
     (case fd_file (proc_at os p) fd of
        None \<Rightarrow> (False, os)
      | Some i \<Rightarrow> if os_locks os i = None \<or> os_locks os i = Some p
                 then (True, os\<lparr>os_locks := (os_locks os)(i \<mapsto> p)\<rparr>) else (False, os))"

definition sys_dup2 :: "nat \<Rightarrow> nat \<Rightarrow> nat \<Rightarrow> os \<Rightarrow> os" where
  "sys_dup2 old new p os =
     (if old = new \<or> fd_file (proc_at os p) old = None then os
      else let os = sys_close new p os; fds = op_fds (proc_at os p)
           in set_proc p ((proc_at os p)\<lparr>op_fds :=
                (fds @ replicate (Suc new - length fds) None)[new := fd_file (proc_at os p) old]\<rparr>) os)"

definition sys_exit :: "nat \<Rightarrow> os \<Rightarrow> os" where
  "sys_exit p os = os\<lparr>os_procs := (os_procs os)(p := None),
     os_locks := (\<lambda>i. if os_locks os i = Some p then None else os_locks os i)\<rparr>"

definition sys_fork :: "nat \<Rightarrow> os \<Rightarrow> nat \<times> os" where
  "sys_fork p os = (os_next_pid os,
     set_proc (os_next_pid os) ((proc_at os p)\<lparr>op_worker := False\<rparr>) (os\<lparr>os_next_pid := os_next_pid os + 1\<rparr>))"

section \<open>The lock\<close>

definition pid_paths :: "string \<Rightarrow> string \<times> string" where
  "pid_paths app_name = (''/var/run/'' @ app_name @ ''.pid'', ''/tmp/'' @ app_name @ ''.pid'')"

definition acquire_open :: "(string \<Rightarrow> bool) \<Rightarrow> string \<Rightarrow> nat \<Rightarrow> os \<Rightarrow> os" where
  "acquire_open may app_name p os =
     (case sys_open may True (fst (pid_paths app_name)) p os of
        (Some fd, os) \<Rightarrow> set_proc p ((proc_at os p)\<lparr>op_pid_fd := Some fd, op_pid_path := fst (pid_paths app_name),
                            op_phase := Opened\<rparr>) os
      | (None, os) \<Rightarrow>
          (case sys_open may True (snd (pid_paths app_name)) p os of
             (Some fd, os) \<Rightarrow> set_proc p ((proc_at os p)\<lparr>op_pid_fd := Some fd, op_pid_path := snd (pid_paths app_name),
                                 op_phase := Opened\<rparr>) os
           | (None, os) \<Rightarrow> set_proc p ((proc_at os p)\<lparr>op_pid_fd := None, op_pid_path := snd (pid_paths app_name),
                             op_phase := Refused\<rparr>) os))"

definition acquire_lock :: "nat \<Rightarrow> os \<Rightarrow> os" where
  "acquire_lock p os =
     (case op_pid_fd (proc_at os p) of
        None \<Rightarrow> os
      | Some fd \<Rightarrow>
          (case sys_setlk fd p os of
             (True, os) \<Rightarrow> set_proc p ((proc_at os p)\<lparr>op_phase := Locked\<rparr>) os
           | (False, os) \<Rightarrow>
               let os = sys_close fd p os
               in set_proc p ((proc_at os p)\<lparr>op_pid_fd := None, op_phase := Refused\<rparr>) os))"

definition pid_text :: "nat \<Rightarrow> string" where
  "pid_text p = nat_to_string p @ [CHR 0x0A]"

definition acquire_note :: "nat \<Rightarrow> os \<Rightarrow> os" where
  "acquire_note p os =
     (case op_pid_fd (proc_at os p) of
        None \<Rightarrow> os
      | Some fd \<Rightarrow>
          let os = (case fd_file (proc_at os p) fd of
                      None \<Rightarrow> os | Some i \<Rightarrow> os\<lparr>os_data := (os_data os)(i := pid_text p)\<rparr>)
          in set_proc p ((proc_at os p)\<lparr>op_phase := Holding\<rparr>) os)"

definition acquire_single_instance_lock :: "(string \<Rightarrow> bool) \<Rightarrow> string \<Rightarrow> nat \<Rightarrow> os \<Rightarrow> bool \<times> os" where
  "acquire_single_instance_lock may app_name p os =
     (let os = acquire_open may app_name p os
      in if op_phase (proc_at os p) \<noteq> Opened then (False, os)
         else let os = acquire_lock p os
              in if op_phase (proc_at os p) \<noteq> Locked then (False, os) else (True, acquire_note p os))"

definition release_close :: "nat \<Rightarrow> os \<Rightarrow> os" where
  "release_close p os =
     (case op_pid_fd (proc_at os p) of
        None \<Rightarrow> os
      | Some fd \<Rightarrow> let os = sys_close fd p os
                  in set_proc p ((proc_at os p)\<lparr>op_pid_fd := None, op_phase := Closed\<rparr>) os)"

definition release_unlink :: "bool \<Rightarrow> nat \<Rightarrow> os \<Rightarrow> os" where
  "release_unlink can_unlink p os =
     set_proc p ((proc_at os p)\<lparr>op_phase := Idle\<rparr>)
       (if can_unlink then os\<lparr>os_links := (os_links os)(op_pid_path (proc_at os p) := None)\<rparr> else os)"

definition release_single_instance_lock :: "bool \<Rightarrow> nat \<Rightarrow> os \<Rightarrow> os" where
  "release_single_instance_lock can_unlink p os =
     (if op_pid_fd (proc_at os p) = None then os else release_unlink can_unlink p (release_close p os))"

section \<open>Becoming a daemon\<close>

record daemon_calls =
  dc_fork1 :: bool
  dc_setsid :: bool
  dc_fork2 :: bool
  dc_open_max :: nat

definition close_all :: "nat \<Rightarrow> nat \<Rightarrow> os \<Rightarrow> os" where
  "close_all open_max p os = fold (\<lambda>x. sys_close x p) (rev [0..<Suc open_max]) os"

definition redirect_stdio :: "(string \<Rightarrow> bool) \<Rightarrow> nat \<Rightarrow> os \<Rightarrow> os" where
  "redirect_stdio may p os =
     (case sys_open may False ''/dev/null'' p os of
        (None, os) \<Rightarrow> os
      | (Some fd, os) \<Rightarrow>
          let os = sys_dup2 fd 2 p (sys_dup2 fd 1 p (sys_dup2 fd 0 p os))
          in if fd > 2 then sys_close fd p os else os)"

text \<open>The result also names the process that goes on.\<close>

definition initialize_daemon :: "daemon_calls \<Rightarrow> (string \<Rightarrow> bool) \<Rightarrow> nat \<Rightarrow> os \<Rightarrow> bool \<times> nat \<times> os" where
  "initialize_daemon dc may p os =
     (if \<not> dc_fork1 dc then (False, p, os)
      else let (p1, os) = sys_fork p os; os = sys_exit p os
           in if \<not> dc_setsid dc \<or> \<not> dc_fork2 dc then (False, p1, os)
              else let (p2, os) = sys_fork p1 os; os = sys_exit p1 os
                   in (True, p2, redirect_stdio may p2 (close_all (dc_open_max dc) p2 os)))"

text \<open>On BSD the library's \<open>daemon\<close> does it: one fork, and only the standard descriptors are replaced.\<close>

definition bsd_initialize_daemon :: "bool \<Rightarrow> (string \<Rightarrow> bool) \<Rightarrow> nat \<Rightarrow> os \<Rightarrow> bool \<times> nat \<times> os" where
  "bsd_initialize_daemon daemon_ok may p os =
     (if \<not> daemon_ok then (False, p, os)
      else let (p1, os) = sys_fork p os in (True, p1, redirect_stdio may p1 (sys_exit p os)))"

section \<open>Signals\<close>

record 's signals =
  sg_shutdown_cb :: "('s \<Rightarrow> 's) option"
  sg_handled :: "nat list"

definition setup_signal_handlers :: "('s \<Rightarrow> 's) \<Rightarrow> 's signals \<Rightarrow> 's signals" where
  "setup_signal_handlers shutdown_cb sg = sg\<lparr>sg_shutdown_cb := Some shutdown_cb, sg_handled := [2, 15]\<rparr>"

definition signal_handler :: "nat \<Rightarrow> 's signals \<Rightarrow> 's \<Rightarrow> 's" where
  "signal_handler sig sg s =
     (if sig = 2 \<or> sig = 15 then case sg_shutdown_cb sg of Some cb \<Rightarrow> cb s | None \<Rightarrow> s else s)"

text \<open>The rest of the BSD platform is, statement by statement, the POSIX one.\<close>

definition bsd_acquire_single_instance_lock :: "(string \<Rightarrow> bool) \<Rightarrow> string \<Rightarrow> nat \<Rightarrow> os \<Rightarrow> bool \<times> os" where
  "bsd_acquire_single_instance_lock = acquire_single_instance_lock"

definition bsd_release_single_instance_lock :: "bool \<Rightarrow> nat \<Rightarrow> os \<Rightarrow> os" where
  "bsd_release_single_instance_lock = release_single_instance_lock"

definition bsd_setup_signal_handlers :: "('s \<Rightarrow> 's) \<Rightarrow> 's signals \<Rightarrow> 's signals" where
  "bsd_setup_signal_handlers = setup_signal_handlers"

definition bsd_signal_handler :: "nat \<Rightarrow> 's signals \<Rightarrow> 's \<Rightarrow> 's" where
  "bsd_signal_handler = signal_handler"

section \<open>Windows\<close>

text \<open>
  The lock is a named mutex: an object exists while some process has a handle of it. The state is the
  processes that have one, for each name, and each instance's \<open>mutex_handle_\<close>. An instance that finds
  the object drops its handle again; opening and dropping it are one step.
\<close>

record win_os =
  wo_objects :: "string \<Rightarrow> nat list"
  wo_handle :: "nat \<Rightarrow> string option"

definition win_acquire :: "bool \<Rightarrow> string \<Rightarrow> nat \<Rightarrow> win_os \<Rightarrow> bool \<times> win_os" where
  "win_acquire created app_name p os =
     (let name = ''Global'' @ [CHR 0x5C] @ app_name
      in if \<not> created \<or> wo_objects os name \<noteq> [] then (False, os\<lparr>wo_handle := (wo_handle os)(p := None)\<rparr>)
         else (True, os\<lparr>wo_objects := (wo_objects os)(name := [p]), wo_handle := (wo_handle os)(p \<mapsto> name)\<rparr>))"

definition win_release :: "nat \<Rightarrow> win_os \<Rightarrow> win_os" where
  "win_release p os =
     (case wo_handle os p of
        None \<Rightarrow> os
      | Some name \<Rightarrow> os\<lparr>wo_objects := (wo_objects os)(name := remove1 p (wo_objects os name)),
                       wo_handle := (wo_handle os)(p := None)\<rparr>)"

text \<open>Becoming a service only logs. The console's control events are Ctrl-C (0), Ctrl-Break (1), closing
  (2), logging off (5) and shutting down (6); the handler says whether it took the event.\<close>

definition win_initialize_daemon :: "string \<Rightarrow> bool" where
  "win_initialize_daemon service_name = True"

definition console_ctrl_handler :: "nat \<Rightarrow> 's signals \<Rightarrow> 's \<Rightarrow> bool \<times> 's" where
  "console_ctrl_handler ctrl_type sg s =
     (if ctrl_type \<in> {0, 1, 2, 5, 6}
      then (True, case sg_shutdown_cb sg of Some cb \<Rightarrow> cb s | None \<Rightarrow> s)
      else (False, s))"

definition win_setup_signal_handlers :: "('s \<Rightarrow> 's) \<Rightarrow> 's signals \<Rightarrow> 's signals" where
  "win_setup_signal_handlers shutdown_cb sg = sg\<lparr>sg_shutdown_cb := Some shutdown_cb, sg_handled := [0, 1, 2, 5, 6]\<rparr>"

section \<open>The start of the program\<close>

definition logger_start :: "(string \<Rightarrow> bool) \<Rightarrow> bool \<Rightarrow> string \<Rightarrow> nat \<Rightarrow> os \<Rightarrow> os" where
  "logger_start may is_standalone log_path p os =
     (let (fd, os) = (if is_standalone then (None, os) else sys_open may True log_path p os)
      in set_proc p ((proc_at os p)\<lparr>op_log_fd := fd, op_worker := True\<rparr>) os)"

text \<open>The process that goes on to serve, or none if the program ends; \<open>main\<close> ignores whether becoming
  a daemon worked.\<close>

definition main_start :: "daemon_calls \<Rightarrow> (string \<Rightarrow> bool) \<Rightarrow> bool \<Rightarrow> string \<Rightarrow> nat \<Rightarrow> os \<Rightarrow> nat option \<times> os" where
  "main_start dc may is_standalone log_path p os =
     (let os = logger_start may is_standalone log_path p os
      in if is_standalone then (Some p, os)
         else case acquire_single_instance_lock may ''lightapr'' p os of
                (False, os) \<Rightarrow> (None, sys_exit p os)
              | (True, os) \<Rightarrow> (case initialize_daemon dc may p os of (_, q, os) \<Rightarrow> (Some q, os)))"

section \<open>Interleaved instances\<close>

datatype os_event =
    Started
  | Opens nat
  | Locks nat
  | Notes nat
  | Closes nat
  | Unlinks nat bool
  | Ends nat

inductive os_step :: "(nat \<Rightarrow> string \<Rightarrow> bool) \<Rightarrow> string \<Rightarrow> os_event \<Rightarrow> os \<Rightarrow> os \<Rightarrow> bool" for may app_name where
  start: "os_step may app_name Started os
    (set_proc (os_next_pid os) fresh_proc (os\<lparr>os_next_pid := Suc (os_next_pid os)\<rparr>))"
| open_file: "os_procs os p = Some P \<Longrightarrow> op_phase P = Idle \<Longrightarrow>
    os_step may app_name (Opens p) os (acquire_open (may p) app_name p os)"
| lock_file: "os_procs os p = Some P \<Longrightarrow> op_phase P = Opened \<Longrightarrow> os_step may app_name (Locks p) os (acquire_lock p os)"
| note_pid: "os_procs os p = Some P \<Longrightarrow> op_phase P = Locked \<Longrightarrow> os_step may app_name (Notes p) os (acquire_note p os)"
| close_file: "os_procs os p = Some P \<Longrightarrow> op_phase P = Holding \<Longrightarrow> os_step may app_name (Closes p) os (release_close p os)"
| unlink_file: "os_procs os p = Some P \<Longrightarrow> op_phase P = Closed \<Longrightarrow>
    os_step may app_name (Unlinks p can) os (release_unlink can p os)"
| process_end: "os_procs os p = Some P \<Longrightarrow> os_step may app_name (Ends p) os (sys_exit p os)"

inductive os_runs :: "(nat \<Rightarrow> string \<Rightarrow> bool) \<Rightarrow> string \<Rightarrow> os_event list \<Rightarrow> os \<Rightarrow> os \<Rightarrow> bool" for may app_name where
  nil: "os_runs may app_name [] os os"
| snoc: "os_runs may app_name es os0 os \<Longrightarrow> os_step may app_name e os os' \<Longrightarrow> os_runs may app_name (es @ [e]) os0 os'"

inductive_cases os_run_snocE: "os_runs may app_name (es @ [e]) os0 os'"

end
