(* ===== verification/Daemon.thy ===== *)
theory Daemon
  imports SessionInv HttpInv CliOptions Platform
begin

text \<open>
  The daemon as \<open>main\<close> composes it (\<open>src/main.cpp\<close>): the options configure one registry, one connection
  guard, the MQTT listeners and the HTTP listener; the worker threads run the completion handlers of
  all of them, and the sweep timer. A handler is one step. An exception that leaves a handler leaves
  \<open>io_context::run\<close>: a worker thread logs it and ends, and on the main thread the process ends, because
  the unwinding destroys \<open>std::thread\<close>s that are still joinable. (The out-of-bounds accesses the model
  marks as a fault are treated the same way.)
\<close>

section \<open>Configuration\<close>

text \<open>What does not come from the options: the libraries, the embedded pages, the processor count.\<close>

record daemon_lib =
  dl_json :: json_lib
  dl_node_size :: nat
  dl_iter_nodes :: "(string \<times> node_info) list \<Rightarrow> (string \<times> node_info) list"
  dl_iter_headers :: "(string \<times> string) list \<Rightarrow> (string \<times> string) list"
  dl_monitor_html :: string
  dl_tester_html :: string
  dl_hardware :: nat

text \<open>What an event brings from outside: the clocks, the memory in use, and which thread runs it.\<close>

record tick =
  tk_now :: int
  tk_id_time :: int
  tk_steady :: int
  tk_uptime :: nat
  tk_rss :: "64 word"
  tk_main :: bool

text \<open>The rate window is a number of seconds; the steady clock counts nanoseconds.\<close>

definition conn_limits :: "cli_options \<Rightarrow> connection_limits" where
  "conn_limits opts = \<lparr>max_total_connections = co_max_connections opts,
     max_connections_per_ip = co_max_connections_per_ip opts,
     max_new_connections_per_ip = co_max_new_connections_per_ip opts,
     rate_window = 1000000000 * int (co_connection_rate_window_sec opts)\<rparr>"

definition mqtt_env_of :: "daemon_lib \<Rightarrow> cli_options \<Rightarrow> tick \<Rightarrow> mqtt_env" where
  "mqtt_env_of lib opts t = \<lparr>me_lib = dl_json lib, me_access_key = co_access_key opts,
     me_node_size = dl_node_size lib, me_max_buffer = co_max_session_buffer_bytes opts,
     me_now = tk_now t, me_id_time = tk_id_time t\<rparr>"

definition http_env_of :: "daemon_lib \<Rightarrow> cli_options \<Rightarrow> tick \<Rightarrow> http_env" where
  "http_env_of lib opts t = \<lparr>he_lib = dl_json lib, he_iter_nodes = dl_iter_nodes lib,
     he_iter_headers = dl_iter_headers lib, he_monitor = co_monitor_enabled opts,
     he_tester = co_tester_enabled opts, he_monitor_html = dl_monitor_html lib,
     he_tester_html = dl_tester_html lib, he_cell_id = co_cell_id opts, he_uptime = tk_uptime t,
     he_now = tk_now t, he_rss = tk_rss t, he_max_buffer = co_max_session_buffer_bytes opts,
     he_max_requests = co_max_requests_per_connection opts\<rparr>"

section \<open>State\<close>

record http_link =
  hl_pending :: http_outcome
  hl_session :: http_session
  hl_responses :: nat

text \<open>
  The sweep timer is armed, or its handler is removing the nodes it collected (other handlers run in
  between), or an exception left the handler before it armed the timer again.
\<close>

datatype sweep_state = Armed | Removing "string list" | Disarmed

record daemon =
  dm_world :: mqtt_world
  dm_http :: "http_link list"
  dm_sweep :: sweep_state
  dm_workers :: nat
  dm_running :: bool

text \<open>The MQTT servers, by number: the main one, and the WebSocket one if it has a port of its own.\<close>

definition mqtt_servers :: "cli_options \<Rightarrow> nat list" where
  "mqtt_servers opts =
     (if co_ws_port opts > 0 \<and> co_ws_port opts \<noteq> co_mqtt_port opts then [0, 1] else [0])"

definition daemon_init :: "daemon_lib \<Rightarrow> cli_options \<Rightarrow> daemon" where
  "daemon_init lib opts =
     (let w = \<lparr>mw_sessions = [], mw_registry = registry_init (co_max_node_extra_bytes opts), mw_guard = guard_init\<rparr>
      in \<lparr>dm_world = fold (\<lambda>server w. snd (mqtt_server_new server w)) (mqtt_servers opts) w,
          dm_http = [], dm_sweep = Armed, dm_workers = worker_threads (dl_hardware lib) opts - 1,
          dm_running = True\<rparr>)"

section \<open>Steps\<close>

definition escape :: "tick \<Rightarrow> fault option \<Rightarrow> daemon \<Rightarrow> daemon" where
  "escape t exn d =
     (case exn of
        None \<Rightarrow> d
      | Some e \<Rightarrow> if tk_main t \<or> dm_workers d = 0 then d\<lparr>dm_running := False\<rparr>
                 else d\<lparr>dm_workers := dm_workers d - 1\<rparr>)"

definition run_mqtt :: "tick \<Rightarrow> mqtt_world outcome \<Rightarrow> daemon \<Rightarrow> daemon" where
  "run_mqtt t r d = escape t (fst r) (d\<lparr>dm_world := snd r\<rparr>)"

definition http_conn_at :: "nat \<Rightarrow> daemon \<Rightarrow> nat http_conn" where
  "http_conn_at j d =
     (let l = dm_http d ! j
      in \<lparr>hc_pending = hl_pending l,
          hc_state = \<lparr>ht_session = hl_session l, ht_registry = mw_registry (dm_world d), ht_guard = mw_guard (dm_world d)\<rparr>,
          hc_responses = hl_responses l\<rparr>)"

definition put_http_conn :: "nat \<Rightarrow> nat http_conn \<Rightarrow> daemon \<Rightarrow> daemon" where
  "put_http_conn j c d = d
    \<lparr>dm_http := (dm_http d)[j := \<lparr>hl_pending = hc_pending c, hl_session = ht_session (hc_state c),
        hl_responses = hc_responses c\<rparr>],
     dm_world := (dm_world d)\<lparr>mw_registry := ht_registry (hc_state c), mw_guard := ht_guard (hc_state c)\<rparr>\<rparr>"

fun thrown :: "http_outcome \<Rightarrow> fault option" where
  "thrown (Thrown e) = Some e"
| "thrown _ = None"

text \<open>An HTTP session whose handler has ended or thrown is destroyed: nothing happens to it any more.\<close>

definition run_http :: "tick \<Rightarrow> http_env \<Rightarrow> nat \<Rightarrow> nat http_event \<Rightarrow> daemon \<Rightarrow> daemon" where
  "run_http t env j e d =
     (if hl_pending (dm_http d ! j) = Session_closed \<or> thrown (hl_pending (dm_http d ! j)) \<noteq> None then d
      else let c = http_event_step env e (http_conn_at j d)
           in escape t (thrown (hc_pending c)) (put_http_conn j c d))"

definition run_sweep :: "daemon_lib \<Rightarrow> mqtt_env \<Rightarrow> tick \<Rightarrow> daemon \<Rightarrow> daemon" where
  "run_sweep lib env t d =
     (case dm_sweep d of
        Armed \<Rightarrow> d\<lparr>dm_sweep := Removing (sweep_collect (tk_now t) (dl_iter_nodes lib) (mw_registry (dm_world d)))\<rparr>
      | Removing [] \<Rightarrow> d\<lparr>dm_sweep := Armed\<rparr>
      | Removing (nid # nids) \<Rightarrow>
          (case remove_node_permanently (dl_json lib) (dl_node_size lib) nid (mw_registry (dm_world d)) of
             (res, ev, reg) \<Rightarrow>
               let w = (dm_world d)\<lparr>mw_registry := reg\<rparr>;
                   (exn, w) = (case res of Inl e \<Rightarrow> (Some e, w) | Inr b \<Rightarrow> deliver env ev w);
                   d = d\<lparr>dm_world := w, dm_sweep := (if exn = None then Removing nids else Disarmed)\<rparr>
               in escape t exn d)
      | Disarmed \<Rightarrow> d)"

text \<open>The callback \<open>main\<close> installs stops the event loop; it runs inside the signal handler.\<close>

definition main_shutdown :: "daemon \<Rightarrow> daemon" where
  "main_shutdown d = d\<lparr>dm_running := False\<rparr>"

definition main_signals :: "daemon signals" where
  "main_signals = setup_signal_handlers main_shutdown \<lparr>sg_shutdown_cb = None, sg_handled = []\<rparr>"

lemma main_signal: "signal_handler sig main_signals d = (if sig = 2 \<or> sig = 15 then d\<lparr>dm_running := False\<rparr> else d)"
  by (simp add: signal_handler_def main_signals_def setup_signal_handlers_def main_shutdown_def)

text \<open>
  The address of a new connection is read twice, once for the guard and once for the session. A read
  completes only where one is pending, a write only if it was issued; the idle timer may fire late.
\<close>

datatype daemon_event =
    Mqtt_connects nat string string
  | Mqtt_read nat bool bytes
  | Mqtt_wrote nat bool mqtt_write
  | Mqtt_idle nat
  | Http_connects string string
  | Http_happens nat "nat http_event"
  | Sweep_runs
  | Signal_arrives nat

fun daemon_event_step :: "daemon_lib \<Rightarrow> cli_options \<Rightarrow> tick \<Rightarrow> daemon_event \<Rightarrow> daemon \<Rightarrow> daemon" where
  "daemon_event_step lib opts t (Mqtt_connects server peer session_peer) d =
     (if server \<in> set (mqtt_servers opts)
      then d\<lparr>dm_world := mqtt_accept (conn_limits opts) (tk_steady t) server peer session_peer (dm_world d)\<rparr> else d)"
| "daemon_event_step lib opts t (Mqtt_read i ec data) d =
     (if i < length (mw_sessions (dm_world d)) \<and> ms_reading (sess (dm_world d) i)
      then run_mqtt t (read_done (mqtt_env_of lib opts t) i ec data (dm_world d)) d else d)"
| "daemon_event_step lib opts t (Mqtt_wrote i ec x) d =
     (if i < length (mw_sessions (dm_world d)) \<and> x \<in> set (ms_writes (sess (dm_world d) i))
      then run_mqtt t (write_done (mqtt_env_of lib opts t) i ec x (dm_world d)) d else d)"
| "daemon_event_step lib opts t (Mqtt_idle i) d =
     (if i < length (mw_sessions (dm_world d))
      then run_mqtt t (idle_expired (mqtt_env_of lib opts t) i (dm_world d)) d else d)"
| "daemon_event_step lib opts t (Http_connects peer session_peer) d =
     (case http_accept (conn_limits opts) (tk_steady t) peer session_peer (mw_guard (dm_world d)) of
        (None, g) \<Rightarrow> d\<lparr>dm_world := (dm_world d)\<lparr>mw_guard := g\<rparr>\<rparr>
      | (Some s, g) \<Rightarrow> d\<lparr>dm_world := (dm_world d)\<lparr>mw_guard := g\<rparr>,
            dm_http := dm_http d @ [\<lparr>hl_pending = Read_more, hl_session = s, hl_responses = 0\<rparr>]\<rparr>)"
| "daemon_event_step lib opts t (Http_happens j e) d =
     (if j < length (dm_http d) \<and> (case e of Others_ran _ _ \<Rightarrow> False | _ \<Rightarrow> True)
      then run_http t (http_env_of lib opts t) j e d else d)"
| "daemon_event_step lib opts t Sweep_runs d = run_sweep lib (mqtt_env_of lib opts t) t d"
| "daemon_event_step lib opts t (Signal_arrives sig) d =
     (if sig \<in> set (sg_handled main_signals) then signal_handler sig main_signals d else d)"

definition daemon_step :: "daemon_lib \<Rightarrow> cli_options \<Rightarrow> tick \<times> daemon_event \<Rightarrow> daemon \<Rightarrow> daemon" where
  "daemon_step lib opts te d =
     (if dm_running d then daemon_event_step lib opts (fst te) (snd te) d else d)"

text \<open>
  Shutdown: the event loop stops, the servers are destroyed in the reverse order of their creation,
  each unsubscribing its observer (the tokens are 1, 2 in the order of creation) and dropping its
  sessions. Exceptions cannot leave a destructor; the first one ends the process.
\<close>

definition daemon_stop :: "mqtt_env \<Rightarrow> cli_options \<Rightarrow> mqtt_world \<Rightarrow> mqtt_world outcome" where
  "daemon_stop env opts w =
     fold (\<lambda>server r. and_then r (mqtt_server_delete env server (server + 1))) (rev (mqtt_servers opts)) (None, w)"

text \<open>
  What \<open>main\<close> returns once the listeners are up, or could not be set up, and its own \<open>run\<close> has returned
  or thrown: the \<open>catch\<close> returns 1, but if worker threads exist, unwinding destroys joinable threads
  first, which ends the process.
\<close>

datatype main_exit = Exits nat | Aborts

definition main_result :: "daemon_lib \<Rightarrow> cli_options \<Rightarrow> bool \<Rightarrow> fault option \<Rightarrow> main_exit" where
  "main_result lib opts listening exn =
     (if \<not> listening then Exits 1
      else case exn of
             None \<Rightarrow> Exits 0
           | Some e \<Rightarrow> if worker_threads (dl_hardware lib) opts - 1 > 0 then Aborts else Exits 1)"

end
