(* ===== verification/DaemonProps.thy ===== *)
theory DaemonProps
  imports Daemon
begin

text \<open>
  Properties of the whole daemon: what holds in every state it can reach, whatever clients, the
  network and the clocks do, and what an announcement that cannot be printed does to it.
\<close>

section \<open>The invariant\<close>

abbreviation open_links :: "http_link list \<Rightarrow> string multiset" where
  "open_links ls \<equiv> open_of (\<lambda>l. hs_peer (hl_session l)) (\<lambda>l. hs_closed (hl_session l)) ls"

definition link_ok :: "nat \<Rightarrow> http_link \<Rightarrow> bool" where
  "link_ok cap l =
     (let n = hs_requests (hl_session l)
      in hl_responses l = n \<and> n \<le> cap \<and> (hl_pending l = Read_more \<longrightarrow> n < cap) \<and>
         (\<forall>out. hl_pending l = Writing out True \<longrightarrow> n < cap))"

definition daemon_ok :: "daemon_lib \<Rightarrow> cli_options \<Rightarrow> daemon \<Rightarrow> bool" where
  "daemon_ok lib opts d =
     (world_ok (dl_json lib) (conn_limits opts) (open_links (dm_http d)) (dm_world d) \<and>
      (0 < co_max_requests_per_connection opts \<longrightarrow>
         (\<forall>l \<in> set (dm_http d). link_ok (co_max_requests_per_connection opts) l)))"

definition readings_agree :: "tick \<times> daemon_event \<Rightarrow> bool" where
  "readings_agree te = (case snd te of
     Mqtt_connects server peer session_peer \<Rightarrow> session_peer = peer
   | Http_connects peer session_peer \<Rightarrow> session_peer = peer
   | _ \<Rightarrow> True)"

lemma escape_ok [simp]: "daemon_ok lib opts (escape t exn d) = daemon_ok lib opts d"
  by (simp add: escape_def daemon_ok_def split: option.split)

lemma env_lib [simp]: "me_lib (mqtt_env_of lib opts t) = dl_json lib"
  by (simp add: mqtt_env_of_def)

lemma run_mqtt_ok:
  assumes "daemon_ok lib opts d" "stays (dl_json lib) (conn_limits opts) (open_links (dm_http d)) (dm_world d) (snd r)"
  shows "daemon_ok lib opts (run_mqtt t r d)"
  using assms by (simp add: run_mqtt_def) (simp add: daemon_ok_def stays_def)

lemma http_connects_ok:
  assumes "daemon_ok lib opts d"
  shows "daemon_ok lib opts (daemon_event_step lib opts t (Http_connects peer peer) d)"
proof -
  let ?w = "dm_world d" and ?l = "\<lparr>hl_pending = Read_more, hl_session = http_session_new peer, hl_responses = 0\<rparr>"
  obtain b g where a: "try_acquire (conn_limits opts) (tk_steady t) peer (mw_guard ?w) = (b, g)" by fastforce
  note step = cg.acquire_step [OF _ _ a, of "open_peers (mw_sessions ?w) + open_links (dm_http d)"]
  have "open_links (dm_http d @ [?l]) = add_mset peer (open_links (dm_http d))"
    "0 < cap \<Longrightarrow> link_ok cap ?l" for cap
    by (simp_all add: open_of_def http_session_new_def link_ok_def Let_def)
  then show ?thesis
    using assms step a by (cases b) (simp_all add: daemon_ok_def world_ok_def http_accept_def)
qed

text \<open>An event of an HTTP connection, in terms of the connection's own invariants.\<close>

lemma cap_link: "cap_inv env (http_conn_at j d) = link_ok (he_max_requests env) (dm_http d ! j)"
  by (simp add: cap_inv_def link_ok_def http_conn_at_def Let_def)

lemma put_conn_link:
  "link_ok (he_max_requests env) \<lparr>hl_pending = hc_pending c, hl_session = ht_session (hc_state c), hl_responses = hc_responses c\<rparr> =
     cap_inv env c"
  by (simp add: cap_inv_def link_ok_def Let_def)

lemma http_world_ok:
  assumes "daemon_ok lib opts d" "j < length (dm_http d)"
    and "shares (hc_state (http_conn_at j d)) (hc_state c)"
  shows "world_ok (dl_json lib) (conn_limits opts) (open_links (dm_http (put_http_conn j c d)))
    (dm_world (put_http_conn j c d))"
proof -
  let ?w = "dm_world d" and ?l = "dm_http d ! j" and ?ls = "dm_http d"
  let ?l' = "\<lparr>hl_pending = hc_pending c, hl_session = ht_session (hc_state c), hl_responses = hc_responses c\<rparr>"
  let ?g' = "ht_guard (hc_state c)" and ?M = "open_peers (mw_sessions ?w)"
  have w: "world_ok (dl_json lib) (conn_limits opts) (open_links ?ls) ?w" using assms(1) by (simp add: daemon_ok_def)
  have reg: "reg_ok (dl_json lib) (ht_registry (hc_state c))"
    "r_id_counter (ht_registry (hc_state c)) = r_id_counter (mw_registry ?w)"
    using w shares_reg_ok [OF assms(3)] assms(3) by (simp_all add: world_ok_def http_conn_at_def Let_def shares_def)
  have guard: "counts ?g' (?M + open_links (?ls[j := ?l'])) \<and>
      within_limits (conn_limits opts) (?M + open_links (?ls[j := ?l']))"
  proof (cases "hs_closed (ht_session (hc_state c)) = hs_closed (hl_session ?l)")
    case True
    then have "open_links (?ls[j := ?l']) = open_links ?ls"
      using assms(3) by (intro open_of_update) (simp_all add: shares_def http_conn_at_def Let_def)
    then show ?thesis using True assms(3) w by (simp add: shares_def http_conn_at_def Let_def world_ok_def)
  next
    case False
    then have c: "\<not> hs_closed (hl_session ?l)" "hs_closed (ht_session (hc_state c))"
      "?g' = release (hs_peer (hl_session ?l)) (mw_guard ?w)"
      using assms(3) by (auto simp: shares_def http_conn_at_def Let_def split: if_splits)
    note o = open_of_close [where closed = "\<lambda>l. hs_closed (hl_session l)" and peer = "\<lambda>l. hs_peer (hl_session l)"
        and x = ?l', OF assms(2) c(1)]
    show ?thesis
      using o c w cg.rel_step [of "mw_guard ?w" "?M + open_links ?ls" "conn_limits opts" "hs_peer (hl_session ?l)"]
      by (simp add: world_ok_def)
  qed
  show ?thesis using w reg guard by (simp add: put_http_conn_def world_ok_def)
qed

lemma run_http_ok:
  assumes "daemon_ok lib opts d" "j < length (dm_http d)" "\<forall>reg g. e \<noteq> Others_ran reg g"
  shows "daemon_ok lib opts (run_http t (http_env_of lib opts t) j e d)"
proof -
  let ?env = "http_env_of lib opts t" and ?c = "http_conn_at j d"
  let ?c' = "http_event_step ?env e ?c"
  have cap: "he_max_requests ?env = co_max_requests_per_connection opts" by (simp add: http_env_of_def)
  have "link_ok (he_max_requests ?env) (dm_http (put_http_conn j ?c' d) ! j)"
    if "link_ok (he_max_requests ?env) (dm_http d ! j)"
    using cap.step_inv [of ?env ?c e] that assms(2) by (simp add: cap_link put_conn_link put_http_conn_def)
  then have "\<forall>l \<in> set (dm_http (put_http_conn j ?c' d)). link_ok (he_max_requests ?env) l"
    if "\<forall>l \<in> set (dm_http d). link_ok (he_max_requests ?env) l"
    using that assms(2) by (auto simp: put_http_conn_def all_set_conv_all_nth nth_list_update)
  then have "daemon_ok lib opts (put_http_conn j ?c' d)"
    using assms(1) http_world_ok [OF assms(1,2) shares_event [OF assms(3)]] by (simp add: daemon_ok_def cap)
  then show ?thesis using assms(1) by (simp add: run_http_def Let_def)
qed

lemma run_sweep_ok:
  assumes "daemon_ok lib opts d"
  shows "daemon_ok lib opts (run_sweep lib (mqtt_env_of lib opts t) t d)"
proof (cases "dm_sweep d")
  case (Removing nids)
  show ?thesis
  proof (cases nids)
    case (Cons nid rest)
    let ?w = "dm_world d"
    obtain res ev r where rm: "remove_node_permanently (dl_json lib) (dl_node_size lib) nid (mw_registry ?w) = (res, ev, r)"
      by (metis prod_cases3)
    have r: "reg_ok (dl_json lib) (mw_registry ?w) \<Longrightarrow> reg_ok (dl_json lib) r \<and> r_id_counter (mw_registry ?w) \<le> r_id_counter r"
      using remove_ok [OF _ rm] counter_kept(3) [OF rm] by simp
    let ?o = "case res of Inl e \<Rightarrow> (Some e, ?w\<lparr>mw_registry := r\<rparr>)
        | Inr b \<Rightarrow> deliver (mqtt_env_of lib opts t) ev (?w\<lparr>mw_registry := r\<rparr>)"
    have "stays (dl_json lib) (conn_limits opts) (open_links (dm_http d)) ?w (snd ?o)"
      using stays_registry [OF r] stays_notify [OF r] by (cases res) simp_all
    then show ?thesis using assms Removing Cons rm
      by (simp add: run_sweep_def Let_def split: prod.split) (auto simp: daemon_ok_def stays_def)
  qed (use assms Removing in \<open>simp add: run_sweep_def daemon_ok_def\<close>)
qed (use assms in \<open>simp_all add: run_sweep_def daemon_ok_def\<close>)

lemma daemon_step_ok:
  assumes "readings_agree te" "daemon_ok lib opts d"
  shows "daemon_ok lib opts (daemon_step lib opts te d)"
proof -
  obtain t e where te: "te = (t, e)" by (cases te)
  have "daemon_ok lib opts (daemon_event_step lib opts t e d)"
  proof (cases e)
    case (Mqtt_connects server peer session_peer)
    then show ?thesis using assms te accept_ok by (auto simp: daemon_ok_def readings_agree_def)
  next
    case (Http_connects peer session_peer)
    then show ?thesis using assms te http_connects_ok by (simp add: readings_agree_def del: daemon_event_step.simps)
  next
    case (Http_happens j he)
    then show ?thesis using assms(2) run_http_ok [OF assms(2), of j he t] by (cases he) auto
  next
    case (Mqtt_read i ec data)
    then show ?thesis using assms(2) run_mqtt_ok [OF assms(2)] completions_stay(1) [of i "dm_world d" "mqtt_env_of lib opts t"]
      by simp
  next
    case (Mqtt_wrote i ec x)
    then show ?thesis using assms(2) run_mqtt_ok [OF assms(2)] completions_stay(2) [of i "dm_world d" "mqtt_env_of lib opts t"]
      by simp
  next
    case (Mqtt_idle i)
    then show ?thesis using assms(2) run_mqtt_ok [OF assms(2)] completions_stay(3) [of i "dm_world d" "mqtt_env_of lib opts t"]
      by simp
  next
    case (Signal_arrives sig)
    then show ?thesis using assms(2) by (simp add: main_signal daemon_ok_def)
  qed (simp add: run_sweep_ok [OF assms(2)])
  then show ?thesis using te assms(2) by (simp add: daemon_step_def)
qed

interpretation dm: guarded_events "daemon_step lib opts" "daemon_ok lib opts" readings_agree for lib opts
  by unfold_locales (rule daemon_step_ok)

lemma servers_ok:
  "world_ok L lim M w \<Longrightarrow> world_ok L lim M (fold (\<lambda>server w. snd (mqtt_server_new server w)) servers w)"
  by (induction servers arbitrary: w) (auto simp: mqtt_server_new_def add_event_callback_def world_ok_def)

lemma daemon_init_ok: "daemon_ok lib opts (daemon_init lib opts)"
proof -
  have "world_ok (dl_json lib) (conn_limits opts) {#}
      \<lparr>mw_sessions = [], mw_registry = registry_init (co_max_node_extra_bytes opts), mw_guard = guard_init\<rparr>"
    using cg.init_rep cg.init_lim reg_ok_init by (simp add: world_ok_def open_of_def)
  then have "world_ok (dl_json lib) (conn_limits opts) {#} (dm_world (daemon_init lib opts))"
    by (simp add: daemon_init_def Let_def servers_ok)
  moreover have "dm_http (daemon_init lib opts) = []" by (simp add: daemon_init_def Let_def)
  moreover have "open_links [] = {#}" by (simp add: open_of_def)
  ultimately show ?thesis by (simp add: daemon_ok_def)
qed

lemma daemon_reachable_ok:
  "\<forall>te \<in> set es. readings_agree te \<Longrightarrow> daemon_ok lib opts (fold (daemon_step lib opts) es (daemon_init lib opts))"
  by (rule dm.allowed_run_inv [OF daemon_init_ok])


text \<open>Two clients and a sweep, on a small configuration.\<close>

definition toy_daemon_lib :: daemon_lib where
  "toy_daemon_lib = \<lparr>dl_json = meta_lib, dl_node_size = 200, dl_iter_nodes = (\<lambda>xs. xs), dl_iter_headers = (\<lambda>xs. xs),
     dl_monitor_html = [], dl_tester_html = [], dl_hardware = 4\<rparr>"

definition toy_tick :: tick where
  "toy_tick = \<lparr>tk_now = 1000, tk_id_time = 1000, tk_steady = 0, tk_uptime = 0, tk_rss = 4096, tk_main = False\<rparr>"


text \<open>
  Where the two readings differ (the connection was reset in between, and the second is empty), the
  release misses the address that was counted: the total is right again, the address keeps its slot.
\<close>

lemma reading_mismatch_leaks:
  assumes "counts g M" "try_acquire lim now p g = (True, g')" "q \<noteq> p" "q \<notin># M"
  shows "total_connections (release q g') = size M \<and> count_of (g_count (release q g')) p = count M p + 1"
proof -
  have g': "counts g' (add_mset p M)"
    using try_acquire_True [OF assms(2), of "add_mset p M"] counts_admit [OF assms(1), of p] by simp
  then have "g_total g' = size M + 1" "g_count g' q = None" "g_count g' p = Some (count M p + 1)"
    using assms(3,4) by (simp_all add: counts_def count_eq_zero_iff)
  then show ?thesis using assms(3) by (simp add: release_def total_connections_def count_of_def)
qed

section \<open>A node that cannot be printed\<close>

lemma deliver_fails:
  assumes "json_dump (me_lib env) (node_to_json n) = Inl e" "r_cbs (mw_registry w) \<noteq> []"
    and "map snd (r_cbs (mw_registry w)) = cbs"
  shows "deliver env (Some (cbs, n)) w = (Some e, w)"
  using assms deliver_unprintable by (auto simp: deliver_def)

lemma disarmed_step: "dm_sweep d = Disarmed \<Longrightarrow> dm_sweep (daemon_step lib opts te d) = Disarmed"
proof -
  assume d: "dm_sweep d = Disarmed"
  have esc: "dm_sweep (escape t x d') = dm_sweep d'" for t x d' by (simp add: escape_def split: option.split)
  obtain t e where "te = (t, e)" by (cases te)
  with d esc show ?thesis
    by (cases e) (simp_all add: daemon_step_def main_signal run_mqtt_def run_http_def put_http_conn_def run_sweep_def Let_def
        split: prod.split option.split)
qed

interpretation gone: event_driven "daemon_step lib opts" "\<lambda>d. dm_sweep d = Disarmed" for lib opts
  by unfold_locales (rule disarmed_step)

text \<open>
  C33: One node that cannot be printed (its role is not UTF-8) ends expiry for good: when the sweep
  removes it, the announcement's exception leaves the timer's handler before the timer is armed
  again. The nodes collected after it are not removed, no later event ever starts a sweep again, and
  the thread that ran it is lost: a worker thread ends, on the main thread the whole process does.
\<close>

theorem sweep_disarmed_forever:
  assumes "dm_running d" "dm_sweep d = Removing (nid # nids)" "reg_ok (dl_json lib) (mw_registry (dm_world d))"
    and "find_node (mw_registry (dm_world d)) nid = Some n" "r_cbs (mw_registry (dm_world d)) \<noteq> []"
    and "json_dump (dl_json lib) (node_to_json (n\<lparr>n_status := St_erased, n_expires_in := Some 0\<rparr>)) = Inl e"
  shows "let d' = daemon_step lib opts (t, Sweep_runs) d in
    (\<forall>k. k \<noteq> nid \<longrightarrow> find_node (mw_registry (dm_world d')) k = find_node (mw_registry (dm_world d)) k) \<and>
    (if tk_main t \<or> dm_workers d = 0 then \<not> dm_running d' else dm_workers d' = dm_workers d - 1) \<and>
    (\<forall>es. dm_sweep (fold (daemon_step lib opts) es d') = Disarmed)"
proof -
  let ?w = "dm_world d" and ?env = "mqtt_env_of lib opts t"
  let ?n = "n\<lparr>n_status := St_erased, n_expires_in := Some 0\<rparr>" and ?d' = "daemon_step lib opts (t, Sweep_runs) d"
  obtain r where rm: "remove_node_permanently (dl_json lib) (dl_node_size lib) nid (mw_registry ?w) =
      (Inr True, Some (snapshot_callbacks (mw_registry ?w), ?n), r)"
    and r: "r_nodes r = AList.delete nid (r_nodes (mw_registry ?w))" "r_cbs r = r_cbs (mw_registry ?w)"
    using remove_eq [OF assms(3), of "dl_node_size lib" nid] assms(4) by auto
  have "deliver ?env (Some (snapshot_callbacks (mw_registry ?w), ?n)) (?w\<lparr>mw_registry := r\<rparr>) = (Some e, ?w\<lparr>mw_registry := r\<rparr>)"
    by (rule deliver_fails) (use assms(5,6) r in \<open>simp_all add: snapshot_callbacks_def\<close>)
  then have d': "?d' = escape t (Some e) (d\<lparr>dm_world := ?w\<lparr>mw_registry := r\<rparr>, dm_sweep := Disarmed\<rparr>)"
    using assms(1,2) rm by (simp add: daemon_step_def run_sweep_def Let_def)
  then have s: "dm_sweep ?d' = Disarmed" by (simp add: escape_def)
  have "\<forall>k. k \<noteq> nid \<longrightarrow> find_node (mw_registry (dm_world ?d')) k = find_node (mw_registry ?w) k"
    unfolding d' using r by (simp add: escape_def find_node_def map_of_delete)
  moreover have "if tk_main t \<or> dm_workers d = 0 then \<not> dm_running ?d' else dm_workers ?d' = dm_workers d - 1"
    unfolding d' by (simp add: escape_def)
  ultimately show ?thesis using gone.run_inv [OF s] unfolding Let_def by blast
qed

definition mute_daemon :: daemon where
  "mute_daemon = (daemon_init toy_daemon_lib cli_default)\<lparr>
     dm_world := \<lparr>mw_sessions = [], mw_registry = snd (snd (register_or_update_node mute_lib 200 1000 1000 ''db'' [] None
        ''10.0.0.5'' [] JNull observed_registry)), mw_guard = guard_init\<rparr>,
     dm_sweep := Removing [''node-1000-1'']\<rparr>"

theorem sweep_disarmed_forever_witness:
  "dm_sweep (daemon_step (toy_daemon_lib\<lparr>dl_json := mute_lib\<rparr>) cli_default (toy_tick, Sweep_runs) mute_daemon) = Disarmed"
proof -
  let ?r0 = observed_registry
  obtain res ev r where reg: "register_or_update_node mute_lib 200 1000 1000 ''db'' [] None ''10.0.0.5'' [] JNull
      observed_registry = (res, ev, r)" by (metis prod_cases3)
  have ok0: "reg_ok mute_lib ?r0" by (simp add: observed_registry_def add_event_callback_def reg_ok_init)
  have w: "mw_registry (dm_world mute_daemon) = r" by (simp add: mute_daemon_def reg)
  have ok: "reg_ok mute_lib r" by (rule register_ok [OF ok0 _ reg]) simp
  have "int_to_string 1000 = ''1000''" "nat_to_string (Suc 0) = ''1''" by code_simp+
  then have f: "\<exists>n. find_node r ''node-1000-1'' = Some n" "r_cbs r \<noteq> []"
    using reg by (auto simp: register_or_update_node_def generate_node_id_def observed_registry_def
        add_event_callback_def registry_init_def find_node_def put_node_def node_id_string_def Let_def)
  then obtain n where n: "find_node r ''node-1000-1'' = Some n" by blast
  have d: "dm_running mute_daemon" "dm_sweep mute_daemon = Removing [''node-1000-1'']"
    by (simp_all add: mute_daemon_def daemon_init_def Let_def)
  have j: "json_dump (dl_json (toy_daemon_lib\<lparr>dl_json := mute_lib\<rparr>)) x = Inl Json_error" for x
    by (simp add: mute_lib_def)
  show ?thesis
    using sweep_disarmed_forever [OF d _ _ _ j, of n cli_default toy_tick] ok n f(2)
    unfolding w Let_def by (auto dest!: spec [of _ "[]"])
qed

section \<open>Shutdown\<close>

text \<open>From the signal on, no handler runs any more.\<close>

lemma stopped_run: "\<not> dm_running d \<Longrightarrow> fold (daemon_step lib opts) es d = d"
  by (induction es) (simp_all add: daemon_step_def)

lemma signal_ends_serving:
  assumes "sig = 2 \<or> sig = 15"
  shows "fold (daemon_step lib opts) es (daemon_step lib opts (t, Signal_arrives sig) d) = d\<lparr>dm_running := False\<rparr>"
proof -
  have "sig \<in> set (sg_handled main_signals)" using assms by (auto simp: main_signals_def setup_signal_handlers_def)
  then have "daemon_step lib opts (t, Signal_arrives sig) d = d\<lparr>dm_running := False\<rparr>"
    using assms by (simp add: daemon_step_def main_signal)
  then show ?thesis by (simp add: stopped_run)
qed

text \<open>
  Destroying the servers does not close the sessions that wait for bytes: their pending reads keep them
  alive, so they still hold their connection slots and their nodes are still OK. They are closed when
  the I/O context is destroyed, which in \<open>main\<close> is after the registry and the guard they refer to.
\<close>

definition waiting :: "nat \<Rightarrow> mqtt_world \<Rightarrow> bool" where
  "waiting i w = (i < length (mw_sessions w) \<and> ms_reading (sess w i) \<and> \<not> ms_closed (sess w i))"

lemma waiting_sends: "only_sends w w' \<Longrightarrow> waiting i w \<Longrightarrow> waiting i w'"
  using only_sendsD(1) [of w w'] only_sends_sess(2,11) [of w w' i] by (simp add: waiting_def)

lemma waiting_close:
  assumes "waiting i w" "j \<noteq> i"
  shows "waiting i (snd (close_session env j w))"
proof -
  let ?w = "(upd_sess j (\<lambda>s. s\<lparr>ms_closed := True\<rparr>) w)\<lparr>mw_guard := release (ms_peer (sess (upd_sess j (\<lambda>s. s\<lparr>ms_closed := True\<rparr>) w) j))
      (mw_guard (upd_sess j (\<lambda>s. s\<lparr>ms_closed := True\<rparr>) w))\<rparr>"
  have w: "waiting i (?w\<lparr>mw_registry := r\<rparr>)" for r
    using assms by (auto simp: waiting_def world_simps)
  have "waiting i (snd (deliver env ev (?w\<lparr>mw_registry := r\<rparr>)))" for ev r
    using waiting_sends [OF only_sends_deliver [of env ev "?w\<lparr>mw_registry := r\<rparr>"] w] by (metis prod.collapse)
  moreover have "waiting i ?w" using w [of "mw_registry ?w"] by simp
  ultimately show ?thesis
    using assms(1) by (auto simp: close_session_def on_before_close_def Let_def split: prod.split)
qed

lemma waiting_drop:
  assumes "waiting i w"
  shows "waiting i (snd (drop_session env server j w))"
proof -
  let ?w = "upd_sess j (\<lambda>s. s\<lparr>ms_listed := False\<rparr>) w"
  have "waiting i ?w" using assms by (auto simp: waiting_def world_simps)
  then show ?thesis
    using assms waiting_close [of i ?w j env] by (cases "j = i") (auto simp: drop_session_def Let_def waiting_def)
qed

lemma waiting_and_then: "waiting i (snd r) \<Longrightarrow> (\<And>w. waiting i w \<Longrightarrow> waiting i (snd (f w))) \<Longrightarrow> waiting i (snd (and_then r f))"
  by (cases r rule: caught.cases) auto

lemma waiting_fold:
  assumes "waiting i (snd r)" "\<And>x w. waiting i w \<Longrightarrow> waiting i (snd (f x w))"
  shows "waiting i (snd (fold (\<lambda>x r. and_then r (f x)) xs r))"
  using assms(1) by (induction xs arbitrary: r) (simp_all add: waiting_and_then assms(2))

lemma waiting_delete: "waiting i w \<Longrightarrow> waiting i (snd (mqtt_server_delete env server token w))"
  unfolding mqtt_server_delete_def mqtt_server_stop_def
  by (rule waiting_fold) (simp_all add: waiting_def waiting_drop [unfolded waiting_def])

lemma shutdown_leaves_sessions: "waiting i w \<Longrightarrow> waiting i (snd (daemon_stop env opts w))"
  unfolding daemon_stop_def by (rule waiting_fold) (simp_all add: waiting_delete)

end
