(* ===== verification/Logger.thy ===== *)
theory Logger
  imports MemoryTracker "HOL-Library.Sublist"
begin

text \<open>
  The asynchronous logger (\<open>include/apr/logger.hpp\<close>, \<open>src/core/logger.cpp\<close>): callers queue messages, one
  worker thread writes them to the console or to a file that it rotates. The steps interleave: a
  caller counts the message and then pushes it, the worker tests its condition (without the lock),
  takes the queue over, and writes one message after the other. The file system is part of the state;
  whether opening and renaming succeed is an outcome of the worker's step. Time stamps are arguments.
\<close>

section \<open>Levels\<close>

datatype log_level = Log_debug | Log_info | Log_warn | Log_error

primrec log_rank :: "log_level \<Rightarrow> nat" where
  "log_rank Log_debug = 0"
| "log_rank Log_info = 1"
| "log_rank Log_warn = 2"
| "log_rank Log_error = 3"

instantiation log_level :: linorder
begin

definition less_eq_log_level :: "log_level \<Rightarrow> log_level \<Rightarrow> bool" where
  "less_eq_log_level a b = (log_rank a \<le> log_rank b)"

definition less_log_level :: "log_level \<Rightarrow> log_level \<Rightarrow> bool" where
  "less_log_level a b = (log_rank a < log_rank b)"

instance
proof
  fix a b c :: log_level
  show "(a < b) = (a \<le> b \<and> \<not> b \<le> a)" "a \<le> a" "a \<le> b \<or> b \<le> a"
    by (auto simp: less_eq_log_level_def less_log_level_def)
  show "a \<le> b \<Longrightarrow> b \<le> c \<Longrightarrow> a \<le> c" by (simp add: less_eq_log_level_def)
  show "a \<le> b \<Longrightarrow> b \<le> a \<Longrightarrow> a = b"
    by (cases a; cases b) (simp_all add: less_eq_log_level_def)
qed

end

primrec log_level_to_string :: "log_level \<Rightarrow> string" where
  "log_level_to_string Log_debug = ''DEBUG''"
| "log_level_to_string Log_info = ''INFO''"
| "log_level_to_string Log_warn = ''WARN''"
| "log_level_to_string Log_error = ''ERROR''"

definition log_level_from_string :: "string \<Rightarrow> log_level" where
  "log_level_from_string str =
     (if str = ''debug'' then Log_debug
      else if str = ''warn'' then Log_warn
      else if str = ''error'' then Log_error
      else Log_info)"

section \<open>State\<close>

record log_message =
  lm_level :: log_level
  lm_message :: string
  lm_timestamp :: string

text \<open>Where the worker is: before the test of its loop, before the wait, or with a queue to write.\<close>

datatype log_worker = Testing | Waiting | Draining "log_message list" | Finished

record logger =
  lg_min :: log_level
  lg_standalone :: bool
  lg_path :: string
  lg_max_size :: nat
  lg_open :: bool
  lg_files :: "string \<rightharpoonup> string"
  lg_out :: "string list"
  lg_err :: "string list"
  lg_calls :: "log_message list"
  lg_queue :: "log_message list"
  lg_worker :: log_worker
  lg_running :: bool
  lg_mem :: memory_tracker

definition estimate_log_message_bytes :: "nat \<Rightarrow> log_message \<Rightarrow> int" where
  "estimate_log_message_bytes msg_size m = int (msg_size + length (lm_message m) + length (lm_timestamp m))"

section \<open>Writing\<close>

text \<open>\<open>std::filesystem::path::replace_extension\<close>: the extension starts at the last dot of the file name,
  unless that is its first character or the name is \<open>..\<close>.\<close>

definition replace_extension :: "string \<Rightarrow> string \<Rightarrow> string" where
  "replace_extension path ext =
     (let name = rev (takeWhile (\<lambda>c. c \<noteq> CHR ''/'') (rev path));
          dir = take (length path - length name) path;
          after = takeWhile (\<lambda>c. c \<noteq> CHR ''.'') (rev name);
          stem_len = length name - length after - 1
      in if length after = length name \<or> stem_len = 0 \<or> name = ''..'' then path @ ext
         else dir @ take stem_len name @ ext)"

definition rotate_log_files :: "bool \<Rightarrow> bool \<Rightarrow> logger \<Rightarrow> logger" where
  "rotate_log_files can_open can_rename l =
     (if lg_standalone l \<or> \<not> lg_open l then l
      else let backup_path = replace_extension (lg_path l) ''.old.log'';
               files = (case lg_files l (lg_path l) of
                          Some s \<Rightarrow> if can_rename then (lg_files l)(lg_path l := None, backup_path \<mapsto> s) else lg_files l
                        | None \<Rightarrow> lg_files l)
           in if can_open then l\<lparr>lg_files := files(lg_path l \<mapsto> []), lg_open := True\<rparr>
              else l\<lparr>lg_files := files, lg_open := False\<rparr>)"

definition formatted :: "log_message \<Rightarrow> string" where
  "formatted m = ''['' @ lm_timestamp m @ ''] ['' @ log_level_to_string (lm_level m) @ ''] '' @ lm_message m"

definition write_entry :: "bool \<Rightarrow> bool \<Rightarrow> log_message \<Rightarrow> logger \<Rightarrow> logger" where
  "write_entry can_open can_rename m l =
     (if lg_standalone l
      then if lm_level m = Log_error \<or> lm_level m = Log_warn then l\<lparr>lg_err := lg_err l @ [formatted m]\<rparr>
           else l\<lparr>lg_out := lg_out l @ [formatted m]\<rparr>
      else if lg_open l
      then case lg_files l (lg_path l) of
             None \<Rightarrow> l
           | Some s \<Rightarrow>
               let s' = s @ formatted m @ [CHR 0x0A];
                   l = l\<lparr>lg_files := (lg_files l)(lg_path l \<mapsto> s')\<rparr>
               in if length s' \<ge> lg_max_size l then rotate_log_files can_open can_rename l else l
      else l)"

section \<open>Steps\<close>

definition logger_new :: "log_level \<Rightarrow> bool \<Rightarrow> string \<Rightarrow> nat \<Rightarrow> bool \<Rightarrow> (string \<rightharpoonup> string) \<Rightarrow> logger" where
  "logger_new lvl is_standalone log_path max_file_size can_open files =
     (let opened = (\<not> is_standalone \<and> can_open)
      in \<lparr>lg_min = lvl, lg_standalone = is_standalone, lg_path = log_path, lg_max_size = max_file_size,
          lg_open = opened,
          lg_files = (if opened \<and> files log_path = None then files(log_path \<mapsto> []) else files),
          lg_out = [], lg_err = [], lg_calls = [], lg_queue = [], lg_worker = Testing, lg_running = True,
          lg_mem = tracker_init\<rparr>)"

text \<open>\<open>log\<close>, called by the macros if the level passes: count, then push under the lock.\<close>

definition log_begin :: "nat \<Rightarrow> log_message \<Rightarrow> logger \<Rightarrow> logger" where
  "log_begin msg_size m l =
     (if lg_min l \<le> lm_level m
      then l\<lparr>lg_mem := add_other_bytes (estimate_log_message_bytes msg_size m) (lg_mem l), lg_calls := lg_calls l @ [m]\<rparr>
      else l)"

definition log_push :: "nat \<Rightarrow> logger \<Rightarrow> logger" where
  "log_push k l =
     (if k < length (lg_calls l)
      then l\<lparr>lg_queue := lg_queue l @ [lg_calls l ! k], lg_calls := take k (lg_calls l) @ drop (Suc k) (lg_calls l)\<rparr>
      else l)"

text \<open>One step of \<open>worker_loop\<close>; the wait also ends after 100 ms with nothing queued.\<close>

definition worker_step :: "nat \<Rightarrow> bool \<times> bool \<Rightarrow> logger \<Rightarrow> logger" where
  "worker_step msg_size disk l =
     (case lg_worker l of
        Testing \<Rightarrow> l\<lparr>lg_worker := (if lg_running l \<or> lg_queue l \<noteq> [] then Waiting else Finished)\<rparr>
      | Waiting \<Rightarrow> l\<lparr>lg_worker := Draining (lg_queue l), lg_queue := []\<rparr>
      | Draining [] \<Rightarrow> l\<lparr>lg_worker := Testing\<rparr>
      | Draining (m # ms) \<Rightarrow>
          (write_entry (fst disk) (snd disk) m
            (l\<lparr>lg_mem := add_other_bytes (- estimate_log_message_bytes msg_size m) (lg_mem l)\<rparr>))\<lparr>lg_worker := Draining ms\<rparr>
      | Finished \<Rightarrow> l)"

datatype log_event = Log_begin log_message | Log_push nat | Worker_runs "bool \<times> bool" | Stop_logger

fun logger_step :: "nat \<Rightarrow> log_event \<Rightarrow> logger \<Rightarrow> logger" where
  "logger_step msg_size (Log_begin m) l = log_begin msg_size m l"
| "logger_step msg_size (Log_push k) l = log_push k l"
| "logger_step msg_size (Worker_runs disk) l = worker_step msg_size disk l"
| "logger_step msg_size Stop_logger l = l\<lparr>lg_running := False\<rparr>"

section \<open>The process-wide logger\<close>

text \<open>
  \<open>logger_registry\<close>: the logger in use and the least level. A \<open>LOG_*\<close> macro first tests the level, then
  asks for the logger; \<open>lg_min\<close> is the level as the macros read it.
\<close>

record logger_registry =
  lr_logger :: "logger option"
  lr_min_level :: log_level

definition logger_registry_init :: logger_registry where
  "logger_registry_init = \<lparr>lr_logger = None, lr_min_level = Log_info\<rparr>"

definition set_logger :: "logger \<Rightarrow> logger_registry \<Rightarrow> logger_registry" where
  "set_logger l r = r\<lparr>lr_logger := Some l\<rparr>"

definition logger_get :: "logger_registry \<Rightarrow> logger option" where
  "logger_get r = lr_logger r"

definition set_min_level :: "log_level \<Rightarrow> logger_registry \<Rightarrow> logger_registry" where
  "set_min_level lvl r = r\<lparr>lr_min_level := lvl\<rparr>"

definition get_min_level :: "logger_registry \<Rightarrow> log_level" where
  "get_min_level r = lr_min_level r"

definition log_macro :: "nat \<Rightarrow> log_message \<Rightarrow> logger_registry \<Rightarrow> logger_registry" where
  "log_macro msg_size m r =
     (if get_min_level r \<le> lm_level m
      then case logger_get r of
             Some l \<Rightarrow> set_logger (log_begin msg_size m (l\<lparr>lg_min := get_min_level r\<rparr>)) r
           | None \<Rightarrow> r
      else r)"

end
