(* ===== verification/LoggerProps.thy ===== *)
theory LoggerProps
  imports Logger
begin

text \<open>
  Properties of the logger: the stopped worker ends and by then every message was written once, in
  order, and the gauge is back where it was; the log file and its backup hold the most recent text,
  and the file stays below its limit.
\<close>

section \<open>What has been done with the messages\<close>

definition in_hand :: "logger \<Rightarrow> log_message list" where
  "in_hand l = (case lg_worker l of Draining ms \<Rightarrow> ms | _ \<Rightarrow> [])"

definition is_error :: "log_message \<Rightarrow> bool" where
  "is_error m = (lm_level m = Log_error \<or> lm_level m = Log_warn)"

definition log_text :: "log_message list \<Rightarrow> string" where
  "log_text ms = concat (map (\<lambda>m. formatted m @ [CHR 0x0A]) ms)"

fun pushed :: "log_event \<Rightarrow> logger \<Rightarrow> log_message list" where
  "pushed (Log_push k) l = (if k < length (lg_calls l) then [lg_calls l ! k] else [])"
| "pushed _ l = []"

fun pushes :: "nat \<Rightarrow> log_event list \<Rightarrow> logger \<Rightarrow> log_message list" where
  "pushes sz [] l = []"
| "pushes sz (e # es) l = pushed e l @ pushes sz es (logger_step sz e l)"

text \<open>The gauge: what is between a caller and the file.\<close>

definition gauge_of :: "nat \<Rightarrow> log_message list \<Rightarrow> 64 word" where
  "gauge_of sz ms = (\<Sum>m\<leftarrow>ms. word_of_int (estimate_log_message_bytes sz m))"

definition gauge_ok :: "nat \<Rightarrow> logger \<Rightarrow> bool" where
  "gauge_ok sz l = (other_bytes (lg_mem l) = gauge_of sz (lg_calls l) + gauge_of sz (in_hand l) + gauge_of sz (lg_queue l))"

definition console_ok :: "log_message list \<Rightarrow> logger \<Rightarrow> bool" where
  "console_ok w l = (lg_err l = map formatted (filter is_error w) \<and>
     lg_out l = map formatted (filter (\<lambda>m. \<not> is_error m) w))"

definition backup_of :: "logger \<Rightarrow> string" where
  "backup_of l = replace_extension (lg_path l) ''.old.log''"

definition file_ok :: "string \<Rightarrow> log_message list \<Rightarrow> logger \<Rightarrow> bool" where
  "file_ok s0 w l = (lg_open l \<and> (\<exists>pre bk cur. lg_files l (lg_path l) = Some cur \<and> s0 @ log_text w = pre @ bk @ cur \<and>
     (pre @ bk = [] \<or> lg_files l (backup_of l) = Some bk) \<and>
     (length s0 < lg_max_size l \<longrightarrow> length cur < lg_max_size l)))"

lemma gauge_of_simps [simp]:
  "gauge_of sz [] = 0" "gauge_of sz (m # ms) = word_of_int (estimate_log_message_bytes sz m) + gauge_of sz ms"
  "gauge_of sz (ms @ ns) = gauge_of sz ms + gauge_of sz ns"
  by (simp_all add: gauge_of_def)

lemma gauge_of_remove:
  "k < length ms \<Longrightarrow> gauge_of sz ms = word_of_int (estimate_log_message_bytes sz (ms ! k)) +
     gauge_of sz (take k ms @ drop (Suc k) ms)"
  using arg_cong [OF id_take_nth_drop [of k ms], of "gauge_of sz"] by (simp add: algebra_simps)

lemma log_text_simps [simp]: "log_text [] = []" "log_text (ms @ [m]) = log_text ms @ formatted m @ [CHR 0x0A]"
  by (simp_all add: log_text_def)

section \<open>Writing one message\<close>

lemma rotate_kept [simp]:
  "lg_calls (rotate_log_files co cr l) = lg_calls l" "lg_queue (rotate_log_files co cr l) = lg_queue l"
  "lg_worker (rotate_log_files co cr l) = lg_worker l" "lg_mem (rotate_log_files co cr l) = lg_mem l"
  "lg_standalone (rotate_log_files co cr l) = lg_standalone l" "lg_running (rotate_log_files co cr l) = lg_running l"
  "lg_path (rotate_log_files co cr l) = lg_path l" "lg_max_size (rotate_log_files co cr l) = lg_max_size l"
  by (simp_all add: rotate_log_files_def Let_def)

lemma write_kept [simp]:
  "lg_calls (write_entry co cr m l) = lg_calls l" "lg_queue (write_entry co cr m l) = lg_queue l"
  "lg_worker (write_entry co cr m l) = lg_worker l" "lg_mem (write_entry co cr m l) = lg_mem l"
  "lg_standalone (write_entry co cr m l) = lg_standalone l" "lg_running (write_entry co cr m l) = lg_running l"
  "lg_path (write_entry co cr m l) = lg_path l" "lg_max_size (write_entry co cr m l) = lg_max_size l"
  by (simp_all add: write_entry_def Let_def split: option.split)

lemma write_console:
  "lg_standalone l \<Longrightarrow> console_ok w l \<Longrightarrow> console_ok (w @ [m]) (write_entry co cr m l)"
  by (auto simp: write_entry_def console_ok_def is_error_def)

text \<open>The backup is another file.\<close>

lemma backup_differs: "replace_extension p ''.old.log'' \<noteq> p"
proof
  assume eq: "replace_extension p ''.old.log'' = p"
  define name where "name = rev (takeWhile (\<lambda>c. c \<noteq> CHR ''/'') (rev p))"
  define k where "k = length name - length (takeWhile (\<lambda>c. c \<noteq> CHR ''.'') (rev name)) - 1"
  let ?dir = "take (length p - length name) p"
  have "rev (dropWhile (\<lambda>c. c \<noteq> CHR ''/'') (rev p)) @ name = p"
    unfolding name_def rev_append [symmetric] by simp
  then have p: "?dir @ name = p" by (metis append_eq_conv_conj append_take_drop_id length_append diff_add_inverse2)
  have "p @ ''.old.log'' \<noteq> p" by simp
  with eq have "?dir @ take k name @ ''.old.log'' = p"
    unfolding k_def by (auto simp: replace_extension_def Let_def name_def [symmetric] split: if_splits)
  with p have n: "take k name @ ''.old.log'' = name" by (metis same_append_eq)
  then have "rev name = ''gol.dlo.'' @ rev (take k name)" by (metis rev_append rev.simps append.simps)
  then have "length (takeWhile (\<lambda>c. c \<noteq> CHR ''.'') (rev name)) = 3" by (elim ssubst) simp
  moreover have "length name = min (length name) k + 8" using arg_cong [OF n, of length] by simp
  ultimately show False by (simp add: k_def)
qed

lemma write_file:
  assumes "\<not> lg_standalone l" "file_ok s0 w l"
  shows "file_ok s0 (w @ [m]) (write_entry True True m l)"
proof -
  obtain pre bk cur where f: "lg_open l" "lg_files l (lg_path l) = Some cur" "s0 @ log_text w = pre @ bk @ cur"
    "pre @ bk = [] \<or> lg_files l (backup_of l) = Some bk"
    using assms(2) by (auto simp: file_ok_def)
  let ?s = "cur @ formatted m @ [CHR 0x0A]"
  have b: "backup_of l \<noteq> lg_path l" by (simp add: backup_of_def backup_differs)
  show ?thesis
  proof (cases "length ?s \<ge> lg_max_size l")
    case True
    let ?l = "write_entry True True m l"
    have l: "?l = l\<lparr>lg_files := (lg_files l)(lg_path l \<mapsto> ?s, lg_path l := None, backup_of l \<mapsto> ?s, lg_path l \<mapsto> [])\<rparr>"
      using True assms(1) f by (simp add: write_entry_def rotate_log_files_def Let_def backup_of_def)
    have "lg_files ?l (lg_path ?l) = Some []" "lg_files ?l (backup_of ?l) = Some ?s" "lg_open ?l"
      unfolding l using b f(1) by (simp_all add: backup_of_def)
    moreover have "s0 @ log_text (w @ [m]) = (pre @ bk) @ ?s @ []" using f(3) by simp
    ultimately show ?thesis unfolding file_ok_def
      by (intro conjI exI [of _ "pre @ bk"] exI [of _ ?s] exI [of _ "[]"]) auto
  next
    case False
    let ?l = "write_entry True True m l"
    have l: "?l = l\<lparr>lg_files := (lg_files l)(lg_path l \<mapsto> ?s)\<rparr>"
      using False assms(1) f by (simp add: write_entry_def Let_def)
    have "lg_files ?l (lg_path ?l) = Some ?s" "pre @ bk = [] \<or> lg_files ?l (backup_of ?l) = Some bk" "lg_open ?l"
      unfolding l using b f(1,4) by (auto simp: backup_of_def)
    moreover have "s0 @ log_text (w @ [m]) = pre @ bk @ ?s" using f(3) by simp
    moreover have "length ?s < lg_max_size ?l" using False l by simp
    ultimately show ?thesis unfolding file_ok_def by (intro conjI exI [of _ pre] exI [of _ bk] exI [of _ ?s]) auto
  qed
qed

section \<open>Runs\<close>

text \<open>Of the messages pushed, a prefix is written, then come the ones in hand, then the queue.\<close>

definition log_inv :: "nat \<Rightarrow> bool \<Rightarrow> string \<Rightarrow> log_message list \<Rightarrow> logger \<Rightarrow> bool" where
  "log_inv sz disk_ok s0 h l =
     (gauge_ok sz l \<and> (\<exists>w. h = w @ in_hand l @ lg_queue l \<and> (lg_standalone l \<longrightarrow> console_ok w l) \<and>
        (disk_ok \<and> \<not> lg_standalone l \<longrightarrow> file_ok s0 w l)))"

definition disk_event :: "bool \<Rightarrow> log_event \<Rightarrow> bool" where
  "disk_event disk_ok e = (disk_ok \<longrightarrow> (\<forall>d. e = Worker_runs d \<longrightarrow> d = (True, True)))"

lemma console_ok_kept [simp]:
  "console_ok w (l\<lparr>lg_calls := a\<rparr>) = console_ok w l" "console_ok w (l\<lparr>lg_queue := b\<rparr>) = console_ok w l"
  "console_ok w (l\<lparr>lg_worker := c\<rparr>) = console_ok w l" "console_ok w (l\<lparr>lg_mem := d\<rparr>) = console_ok w l"
  "console_ok w (l\<lparr>lg_running := e\<rparr>) = console_ok w l"
  by (simp_all add: console_ok_def)

lemma file_ok_kept [simp]:
  "file_ok s0 w (l\<lparr>lg_calls := a\<rparr>) = file_ok s0 w l" "file_ok s0 w (l\<lparr>lg_queue := b\<rparr>) = file_ok s0 w l"
  "file_ok s0 w (l\<lparr>lg_worker := c\<rparr>) = file_ok s0 w l" "file_ok s0 w (l\<lparr>lg_mem := d\<rparr>) = file_ok s0 w l"
  "file_ok s0 w (l\<lparr>lg_running := e\<rparr>) = file_ok s0 w l"
  by (simp_all add: file_ok_def backup_of_def)

lemma other_add [simp]: "other_bytes (add_other_bytes n t) = other_bytes t + word_of_int n"
  by (simp add: add_other_bytes_def)

lemma worker_inv:
  assumes "log_inv sz ok s0 h l" "ok \<longrightarrow> disk = (True, True)"
  shows "log_inv sz ok s0 h (worker_step sz disk l)"
proof (cases "lg_worker l")
  case (Draining ms)
  show ?thesis
  proof (cases ms)
    case (Cons m rest)
    let ?l = "l\<lparr>lg_mem := add_other_bytes (- estimate_log_message_bytes sz m) (lg_mem l)\<rparr>"
    obtain w where w: "h = w @ (m # rest) @ lg_queue l" "lg_standalone l \<longrightarrow> console_ok w l"
      "ok \<and> \<not> lg_standalone l \<longrightarrow> file_ok s0 w l" "gauge_ok sz l"
      using assms(1) Draining Cons by (auto simp: log_inv_def in_hand_def)
    have l': "worker_step sz disk l = (write_entry (fst disk) (snd disk) m ?l)\<lparr>lg_worker := Draining rest\<rparr>"
      using Draining Cons by (simp add: worker_step_def)
    have "gauge_ok sz (worker_step sz disk l)"
      using w(4) Draining Cons unfolding l' by (simp add: gauge_ok_def in_hand_def)
    moreover have "lg_standalone l \<longrightarrow> console_ok (w @ [m]) (worker_step sz disk l)"
      using w(2) write_console [of ?l w m] unfolding l' by simp
    moreover have "ok \<and> \<not> lg_standalone l \<longrightarrow> file_ok s0 (w @ [m]) (worker_step sz disk l)"
      using w(3) assms(2) write_file [of ?l s0 w m] unfolding l' by auto
    moreover have "h = (w @ [m]) @ in_hand (worker_step sz disk l) @ lg_queue (worker_step sz disk l)"
      using w(1) unfolding l' by (simp add: in_hand_def)
    moreover have "lg_standalone (worker_step sz disk l) = lg_standalone l" unfolding l' by simp
    ultimately show ?thesis unfolding log_inv_def by blast
  qed (use assms(1) Draining in \<open>simp add: worker_step_def log_inv_def gauge_ok_def in_hand_def\<close>)
qed (use assms(1) in \<open>auto simp: worker_step_def log_inv_def gauge_ok_def in_hand_def\<close>)

lemma step_inv:
  assumes "log_inv sz ok s0 h l" "disk_event ok e"
  shows "log_inv sz ok s0 (h @ pushed e l) (logger_step sz e l)"
proof (cases e)
  case (Worker_runs d)
  then show ?thesis using worker_inv [OF assms(1)] assms(2) by (simp add: disk_event_def)
next
  case (Log_push k)
  show ?thesis
  proof (cases "k < length (lg_calls l)")
    case True
    then show ?thesis using assms(1) Log_push gauge_of_remove [OF True, of sz]
      by (auto simp: log_push_def log_inv_def gauge_ok_def in_hand_def)
  qed (use assms(1) Log_push in \<open>simp add: log_push_def\<close>)
qed (use assms(1) in \<open>auto simp: log_begin_def log_inv_def gauge_ok_def in_hand_def\<close>)

lemma worker_run_inv:
  "log_inv sz ok s0 h l \<Longrightarrow> \<forall>e \<in> set es. disk_event ok e \<Longrightarrow>
     log_inv sz ok s0 (h @ pushes sz es l) (fold (logger_step sz) es l)"
proof (induction es arbitrary: h l)
  case (Cons e es)
  then show ?case using step_inv [OF Cons.prems(1), of e] by fastforce
qed simp

lemma workers_inv:
  "log_inv sz ok s0 h l \<Longrightarrow> \<forall>d \<in> set ds. ok \<longrightarrow> d = (True, True) \<Longrightarrow>
     log_inv sz ok s0 h (fold (worker_step sz) ds l)"
  by (induction ds arbitrary: l) (simp_all add: worker_inv)

section \<open>The end of the worker\<close>

text \<open>A loop whose every turn decreases a measure, in the states that matter, ends.\<close>

locale ending_loop =
  fixes turn :: "'i \<Rightarrow> 's \<Rightarrow> 's"
    and todo :: "'s \<Rightarrow> nat"
    and matters :: "'s \<Rightarrow> bool"
  assumes turn_matters: "matters s \<Longrightarrow> matters (turn i s)"
    and turn_less: "matters s \<Longrightarrow> todo (turn i s) \<le> todo s - 1"
begin

lemma ends: "matters s \<Longrightarrow> todo s \<le> length is \<Longrightarrow> matters (fold turn is s) \<and> todo (fold turn is s) = 0"
proof (induction "is" arbitrary: s)
  case (Cons i "is")
  then show ?case using turn_less [of s i] turn_matters [of s i] by simp
qed simp

end

definition worker_todo :: "logger \<Rightarrow> nat" where
  "worker_todo l =
     (let q = lg_queue l; testing = (if q = [] then 1 else length q + 5)
      in case lg_worker l of
           Testing \<Rightarrow> testing | Waiting \<Rightarrow> length q + 4 | Draining ms \<Rightarrow> length ms + testing + 1 | Finished \<Rightarrow> 0)"

definition stopped :: "logger \<Rightarrow> bool" where
  "stopped l = (\<not> lg_running l \<and> lg_calls l = [] \<and> (lg_worker l = Finished \<longrightarrow> lg_queue l = []))"

lemma stopped_step: "stopped l \<Longrightarrow> stopped (worker_step sz d l)"
  by (auto simp: stopped_def worker_step_def split: log_worker.split list.split)

lemma todo_less: "stopped l \<Longrightarrow> worker_todo (worker_step sz d l) \<le> worker_todo l - 1"
  by (auto simp: stopped_def worker_step_def worker_todo_def Let_def split: log_worker.split list.split)

interpretation worker: ending_loop "worker_step sz" worker_todo stopped for sz
  by unfold_locales (rule stopped_step, assumption, rule todo_less, assumption)

lemma worker_ends:
  assumes "stopped l" "length (in_hand l) + length (lg_queue l) + 6 \<le> length ds"
  shows "lg_worker (fold (worker_step sz) ds l) = Finished \<and> lg_queue (fold (worker_step sz) ds l) = []"
proof -
  have "worker_todo l \<le> length ds"
    using assms(2) by (auto simp: worker_todo_def in_hand_def Let_def split: log_worker.split)
  from worker.ends [OF assms(1) this, of sz] show ?thesis
    by (auto simp: stopped_def worker_todo_def Let_def split: log_worker.splits if_splits)
qed

lemma logger_new_inv:
  assumes "ok \<and> \<not> standalone \<longrightarrow> can_open" "s0 = (case files path of Some s \<Rightarrow> s | None \<Rightarrow> [])"
  shows "log_inv sz ok s0 [] (logger_new lvl standalone path max_size can_open files)"
proof -
  let ?l = "logger_new lvl standalone path max_size can_open files"
  have "file_ok s0 [] ?l" if "can_open" "\<not> standalone"
    unfolding file_ok_def using that assms(2)
    by (intro conjI exI [of _ "[]"] exI [of _ s0]) (auto simp: logger_new_def Let_def split: option.split)
  then show ?thesis using assms(1)
    by (auto simp: log_inv_def gauge_ok_def in_hand_def console_ok_def logger_new_def tracker_init_def Let_def)
qed

text \<open>What never changes in a run.\<close>

lemma worker_fixed:
  "lg_standalone (worker_step sz d l) = lg_standalone l \<and> lg_path (worker_step sz d l) = lg_path l \<and>
   lg_max_size (worker_step sz d l) = lg_max_size l \<and> lg_calls (worker_step sz d l) = lg_calls l"
  by (simp add: worker_step_def split: log_worker.split list.split)

lemma run_fixed:
  "lg_standalone (fold (logger_step sz) es l) = lg_standalone l \<and> lg_path (fold (logger_step sz) es l) = lg_path l \<and>
   lg_max_size (fold (logger_step sz) es l) = lg_max_size l"
proof (induction es arbitrary: l)
  case (Cons e es)
  then show ?case by (cases e) (simp_all add: worker_fixed log_begin_def log_push_def)
qed simp

lemma workers_fixed:
  "lg_standalone (fold (worker_step sz) ds l) = lg_standalone l \<and> lg_path (fold (worker_step sz) ds l) = lg_path l \<and>
   lg_max_size (fold (worker_step sz) ds l) = lg_max_size l \<and> lg_calls (fold (worker_step sz) ds l) = lg_calls l"
  by (induction ds arbitrary: l) (simp_all add: worker_fixed)


definition toy_message :: log_message where
  "toy_message = \<lparr>lm_level = Log_warn, lm_message = ''low'', lm_timestamp = ''12:00''\<rparr>"




text \<open>When the rename fails, rotating truncates the only copy of the log.\<close>

lemma rotate_truncates:
  assumes "\<not> lg_standalone l" "lg_open l"
  shows "lg_files (rotate_log_files True False l) = (lg_files l)(lg_path l \<mapsto> [])"
  using assms by (simp add: rotate_log_files_def Let_def split: option.split)

end
