(* ===== verification/SdkClient.thy ===== *)
theory SdkClient
  imports MqttPacket WebSocket RegistryProps
begin

text \<open>
  The C++ client library (\<open>sdk/cpp/include/apr_sdk/apr_client.hpp\<close>, \<open>sdk/cpp/src/apr_client.cpp\<close>): the
  addresses it connects to, the packets it sends, the cache of nodes it keeps from a snapshot and the
  broadcast events, and its reading of the MQTT stream. The two random numbers, the environment and
  the sockets are arguments; the user's callbacks are numbers, and the calls made to them are
  recorded in the state.
\<close>

section \<open>Addresses\<close>

record client_options =
  cl_mqtt_url :: string
  cl_http_url :: string
  cl_role :: string
  cl_workers :: "string list"
  cl_endpoint :: "endpoint_info option"
  cl_access_key :: string

definition client_default :: client_options where
  "client_default = \<lparr>cl_mqtt_url = ''mqtt://127.0.0.1:1883'', cl_http_url = ''http://127.0.0.1:8080'',
     cl_role = ''default-role'', cl_workers = [], cl_endpoint = None, cl_access_key = ''lightapr_secret_key''\<rparr>"

definition client_environment :: "(string \<Rightarrow> string option) \<Rightarrow> client_options \<Rightarrow> client_options" where
  "client_environment getenv opts =
     (let opts = (case getenv ''APR_MQTT_URL'' of Some v \<Rightarrow> opts\<lparr>cl_mqtt_url := v\<rparr> | None \<Rightarrow> opts);
          opts = (case getenv ''APR_HTTP_URL'' of Some v \<Rightarrow> opts\<lparr>cl_http_url := v\<rparr> | None \<Rightarrow> opts);
          opts = (case getenv ''APR_ROLE'' of Some v \<Rightarrow> opts\<lparr>cl_role := v\<rparr> | None \<Rightarrow> opts)
      in case getenv ''APR_ACCESS_KEY'' of Some v \<Rightarrow> opts\<lparr>cl_access_key := v\<rparr> | None \<Rightarrow> opts)"

text \<open>Scheme, host, port and path of the MQTT address.\<close>

definition parse_url :: "string \<Rightarrow> string \<times> string \<times> string \<times> string" where
  "parse_url url =
     (let (scheme, rest) = (case find_sub ''://'' url of
            Some p \<Rightarrow> (take p url, drop (p + 3) url) | None \<Rightarrow> (''mqtt'', url));
          (path, rest) = (case find_char CHR ''/'' rest 0 of
            Some s \<Rightarrow> (drop s rest, take s rest) | None \<Rightarrow> (''/'', rest));
          (host, port) = (case find_char CHR '':'' rest 0 of
            Some c \<Rightarrow> (take c rest, drop (c + 1) rest)
          | None \<Rightarrow> if rest \<noteq> []
                    then (rest, if scheme = ''ws'' \<or> scheme = ''wss'' then ''8083'' else ''1883'')
                    else (''127.0.0.1'', ''1883''));
          host = (if host = [] \<or> host = ''localhost'' then ''127.0.0.1'' else host)
      in (scheme, host, port, path))"

text \<open>Host and port of the snapshot's address.\<close>

definition snapshot_address :: "string \<Rightarrow> string \<times> string" where
  "snapshot_address url =
     (let rest = (case find_sub ''://'' url of Some p \<Rightarrow> drop (p + 3) url | None \<Rightarrow> url)
      in case find_char CHR '':'' rest 0 of
           Some c \<Rightarrow>
             let port = drop (c + 1) rest
             in (take c rest, case find_char CHR ''/'' port 0 of Some s \<Rightarrow> take s port | None \<Rightarrow> port)
         | None \<Rightarrow> (''127.0.0.1'', ''8080''))"

section \<open>What the client sends\<close>

text \<open>The sixteen random bytes are an argument.\<close>

definition generate_ws_nonce :: "bytes \<Rightarrow> string" where
  "generate_ws_nonce random = base64_encode random"

definition upgrade_request :: "string \<Rightarrow> string \<Rightarrow> string \<Rightarrow> string \<Rightarrow> string" where
  "upgrade_request path host port nonce =
     ''GET '' @ path @ '' HTTP/1.1'' @ crlf @ ''Host: '' @ host @ '':'' @ port @ crlf @
     ''Upgrade: websocket'' @ crlf @ ''Connection: Upgrade'' @ crlf @
     ''Sec-WebSocket-Key: '' @ nonce @ crlf @ ''Sec-WebSocket-Version: 13'' @ crlf @
     ''Sec-WebSocket-Protocol: mqtt'' @ crlf @ crlf"

definition sdk_write_str :: "string \<Rightarrow> bytes" where
  "sdk_write_str s = [word_of_nat (length s div 256 mod 256), word_of_nat (length s mod 256)] @ bytes_of_string s"

definition snapshot_request :: "string \<Rightarrow> string" where
  "snapshot_request host =
     ''GET /registry?count=1000 HTTP/1.1'' @ crlf @ ''Host: '' @ host @ crlf @ ''Connection: close'' @ crlf @ crlf"

text \<open>The length field is one byte; \<open>rand() % 10000\<close> is read twice.\<close>

definition sdk_username :: "client_options \<Rightarrow> nat \<Rightarrow> string" where
  "sdk_username opts r = cl_role opts @ ''_'' @ nat_to_string (r mod 10000)"

definition sdk_connect :: "client_options \<Rightarrow> nat \<Rightarrow> nat \<Rightarrow> bytes" where
  "sdk_connect opts r1 r2 =
     (let username = sdk_username opts r1;
          password = cl_access_key opts @ username;
          client_id = cl_role opts @ ''_sdk_'' @ nat_to_string (r2 mod 10000);
          rem_len = 10 + (2 + length client_id) + (2 + length username) + (2 + length password)
      in [0x10, word_of_nat rem_len, 0x00, 0x04] @ bytes_of_string ''MQTT'' @
         [0x04, 0x02 OR 0x80 OR 0x40, 0x00, 0x3C] @
         sdk_write_str client_id @ sdk_write_str username @ sdk_write_str password)"

definition sdk_subscribe :: "string \<Rightarrow> bytes" where
  "sdk_subscribe topic =
     (let body = [0x00, 0x01] @ sdk_write_str topic @ [0x00]
      in [0x82, word_of_nat (length body)] @ body)"

definition sdk_publish :: "string \<Rightarrow> string \<Rightarrow> bytes" where
  "sdk_publish topic payload = encode_publish topic payload 0 0"

definition meta_json :: "client_options \<Rightarrow> json" where
  "meta_json opts = obj_of
     [(''role'', JStr (cl_role opts)), (''workers'', JArr (map JStr (cl_workers opts))),
      (''endpoint'', case cl_endpoint opts of Some ep \<Rightarrow> endpoint_to_json ep | None \<Rightarrow> JNull)]"

definition extra_json :: "string \<Rightarrow> json \<Rightarrow> json" where
  "extra_json worker extra = obj_of [(''worker'', JStr worker), (''extra'', extra)]"

definition app_topic :: "string \<Rightarrow> string \<Rightarrow> string" where
  "app_topic target_role worker =
     (if worker = [] then ''app/'' @ target_role else ''app/'' @ target_role @ ''/'' @ worker)"

definition send_bytes :: "bool \<Rightarrow> bytes \<Rightarrow> bytes" where
  "send_bytes is_websocket packet = (if is_websocket then encode_frame packet 0x02 else packet)"

text \<open>The three packets \<open>start\<close> sends, one after the other.\<close>

definition start_packets :: "json_lib \<Rightarrow> client_options \<Rightarrow> nat \<Rightarrow> nat \<Rightarrow> bytes list res" where
  "start_packets L opts r1 r2 =
     bind_res (json_dump L (meta_json opts)) (\<lambda>s.
       Inr [sdk_connect opts r1 r2, sdk_subscribe ''apr/+'', sdk_publish ''apr/node/meta'' s])"

section \<open>The client's state\<close>

datatype sdk_call = Status_call node_info | App_call nat string string

record sdk_client =
  sc_is_ws :: bool
  sc_reconciled :: bool
  sc_nodes :: "(string \<times> node_info) list"
  sc_queue :: "node_info list"
  sc_rr :: rr_indices
  sc_app :: "(string \<times> nat list) list"
  sc_status_cb :: bool
  sc_stream :: bytes
  sc_calls :: "sdk_call list"

definition sdk_client_new :: "bool \<Rightarrow> sdk_client" where
  "sdk_client_new is_ws = \<lparr>sc_is_ws = is_ws, sc_reconciled = False, sc_nodes = [], sc_queue = [],
     sc_rr = (\<lambda>_. None), sc_app = [], sc_status_cb = False, sc_stream = [], sc_calls = []\<rparr>"

text \<open>One event on the cache alone, and with the user's callback.\<close>

definition cache_event :: "node_info \<Rightarrow> (string \<times> node_info) list \<Rightarrow> (string \<times> node_info) list" where
  "cache_event node nodes =
     (case n_status node of
        St_ok \<Rightarrow> AList.update (n_id node) node nodes
      | St_grace \<Rightarrow>
          (case map_of nodes (n_id node) of
             Some n \<Rightarrow> AList.update (n_id node) (n\<lparr>n_status := St_grace\<rparr>) nodes | None \<Rightarrow> nodes)
      | St_erased \<Rightarrow> AList.delete (n_id node) nodes)"

definition apply_node_event :: "node_info \<Rightarrow> sdk_client \<Rightarrow> sdk_client" where
  "apply_node_event node c =
     (let c = c\<lparr>sc_nodes := cache_event node (sc_nodes c)\<rparr>
      in if sc_status_cb c then c\<lparr>sc_calls := sc_calls c @ [Status_call node]\<rparr> else c)"

definition reconcile_queue :: "sdk_client \<Rightarrow> sdk_client" where
  "reconcile_queue c = (fold apply_node_event (sc_queue c) c)\<lparr>sc_queue := [], sc_reconciled := True\<rparr>"

text \<open>The snapshot: nodes are stored until one fails to convert; every exception is caught.\<close>

fun store_nodes :: "json_lib \<Rightarrow> json list \<Rightarrow> (string \<times> node_info) list \<Rightarrow> (string \<times> node_info) list" where
  "store_nodes L [] nodes = nodes"
| "store_nodes L (nj # njs) nodes =
     (case node_from_json L nj of
        Inl e \<Rightarrow> nodes | Inr n \<Rightarrow> store_nodes L njs (AList.update (n_id n) n nodes))"

definition fetch_snapshot :: "json_lib \<Rightarrow> string \<Rightarrow> sdk_client \<Rightarrow> sdk_client" where
  "fetch_snapshot L resp c =
     (case find_sub (crlf @ crlf) resp of
        None \<Rightarrow> c
      | Some body_pos \<Rightarrow>
          (case json_parse L (drop (body_pos + 4) resp) of
             Inl e \<Rightarrow> c
           | Inr j \<Rightarrow>
               (case jlookup j ''nodes'' of
                  Some (JArr njs) \<Rightarrow> c\<lparr>sc_nodes := store_nodes L njs (sc_nodes c)\<rparr> | _ \<Rightarrow> c)))"

definition sdk_resolve_node :: "((string \<times> node_info) list \<Rightarrow> (string \<times> node_info) list) \<Rightarrow> string \<Rightarrow> string \<Rightarrow>
    sdk_client \<Rightarrow> node_info option \<times> sdk_client" where
  "sdk_resolve_node iter role worker c =
     (let (res, rr) = rr_pick (role @ '':'' @ worker) (candidates role worker (iter (sc_nodes c))) (sc_rr c)
      in (res, c\<lparr>sc_rr := rr\<rparr>))"

definition subscribe_app_event :: "string \<Rightarrow> string \<Rightarrow> nat \<Rightarrow> sdk_client \<Rightarrow> bytes \<times> sdk_client" where
  "subscribe_app_event target_role worker cb c =
     (let topic = app_topic target_role worker;
          cbs = (case map_of (sc_app c) topic of Some cbs \<Rightarrow> cbs | None \<Rightarrow> [])
      in (send_bytes (sc_is_ws c) (sdk_subscribe topic),
          c\<lparr>sc_app := AList.update topic (cbs @ [cb]) (sc_app c)\<rparr>))"

section \<open>The MQTT stream\<close>

text \<open>A publish: exceptions of parsing and conversion are caught.\<close>

definition sdk_handle_publish :: "json_lib \<Rightarrow> string \<Rightarrow> string \<Rightarrow> sdk_client \<Rightarrow> sdk_client" where
  "sdk_handle_publish L topic payload c =
     (if starts_with ''apr/'' topic
      then case bind_res (json_parse L payload) (node_from_json L) of
             Inl e \<Rightarrow> c
           | Inr node \<Rightarrow> if sc_reconciled c then apply_node_event node c
                         else c\<lparr>sc_queue := sc_queue c @ [node]\<rparr>
      else if starts_with ''app/'' topic
      then case map_of (sc_app c) topic of
             None \<Rightarrow> c
           | Some cbs \<Rightarrow> c\<lparr>sc_calls := sc_calls c @ map (\<lambda>cb. App_call cb payload topic) cbs\<rparr>
      else c)"

text \<open>
  Topic and payload of the packet at \<open>offset\<close>; the payload's length is an unsigned difference. The
  string constructors read from the buffer, and throw for a length no string can have.
\<close>

definition publish_fields :: "bytes \<Rightarrow> nat \<Rightarrow> nat \<Rightarrow> (string \<times> string) res" where
  "publish_fields data offset pkt_len =
     bind_res (byte_at data (offset + 2)) (\<lambda>hi.
     bind_res (byte_at data (offset + 3)) (\<lambda>lo.
       let topic_len = unat (be16 hi lo)
       in bind_res (slice data (offset + 4) topic_len) (\<lambda>t.
          let payload_len = wrap64 (pkt_len + (2 ^ 64 - (4 + topic_len)))
          in if payload_len > string_max_size then Inl Length_error
             else bind_res (slice data (offset + 4 + topic_len) payload_len) (\<lambda>p.
               Inr (string_of_bytes t, string_of_bytes p)))))"

function process_mqtt_buffer :: "json_lib \<Rightarrow> bytes \<Rightarrow> nat \<Rightarrow> sdk_client \<Rightarrow> fault option \<times> nat \<times> sdk_client" where
  "process_mqtt_buffer L data offset c =
     (if \<not> offset < length data then (None, offset, c)
      else if length data - offset < 2 then (None, offset, c)
      else let type = data ! offset AND 0xF0;
               rem_len = unat (data ! (offset + 1));
               pkt_len = 2 + rem_len
           in if length data - offset < pkt_len then (None, offset, c)
              else if type = 0x30
              then case publish_fields data offset pkt_len of
                     Inl e \<Rightarrow> (Some e, offset, c)
                   | Inr (topic, payload) \<Rightarrow>
                       process_mqtt_buffer L data (offset + pkt_len) (sdk_handle_publish L topic payload c)
              else process_mqtt_buffer L data (offset + pkt_len) c)"
  by pat_completeness auto
termination by (relation "measure (\<lambda>(L, data, offset, c). length data - offset)") auto

declare process_mqtt_buffer.simps [simp del]

function process_ws_stream :: "json_lib \<Rightarrow> bytes \<Rightarrow> sdk_client \<Rightarrow> fault option \<times> bytes \<times> sdk_client" where
  "process_ws_stream L s c =
     (if s = [] then (None, s, c)
      else case decode_frame s of
             Inl e \<Rightarrow> (Some e, s, c)
           | Inr None \<Rightarrow> (None, s, c)
           | Inr (Some (consumed, frame)) \<Rightarrow>
               let s = drop consumed s
               in if opcode frame = 0x01 \<or> opcode frame = 0x02
                  then case process_mqtt_buffer L (frame_payload frame) 0 c of
                         (Some e, _, c) \<Rightarrow> (Some e, s, c)
                       | (None, _, c) \<Rightarrow> process_ws_stream L s c
                  else process_ws_stream L s c)"
  by pat_completeness auto
termination
proof (relation "measure (\<lambda>(L, s, c). length s)", goal_cases)
  case (2 L s c r p n f)
  then show ?case using ws.dec_bound [of s n f] by auto
next
  case (3 L s c r p n f)
  then show ?case using ws.dec_bound [of s n f] by auto
qed simp

declare process_ws_stream.simps [simp del]

definition process_stream :: "json_lib \<Rightarrow> sdk_client \<Rightarrow> fault option \<times> sdk_client" where
  "process_stream L c =
     (if sc_is_ws c
      then case process_ws_stream L (sc_stream c) c of (exn, s, c) \<Rightarrow> (exn, c\<lparr>sc_stream := s\<rparr>)
      else case process_mqtt_buffer L (sc_stream c) 0 c of
             (Some e, _, c) \<Rightarrow> (Some e, c)
           | (None, offset, c) \<Rightarrow> (None, c\<lparr>sc_stream := drop offset (sc_stream c)\<rparr>))"

text \<open>The completion of a read of at least one byte.\<close>

definition sdk_read :: "json_lib \<Rightarrow> bytes \<Rightarrow> sdk_client \<Rightarrow> fault option \<times> sdk_client" where
  "sdk_read L data c = process_stream L (c\<lparr>sc_stream := sc_stream c @ data\<rparr>)"

end
