(* ===== verification/SdkProps.thy ===== *)
theory SdkProps
  imports SdkClient
begin

text \<open>
  Properties of the client library: its packets are the ones the server accepts, its reading of the
  MQTT stream, and its cache as a copy of the registry.
\<close>

section \<open>Reading the stream\<close>

text \<open>The packets of the stream as the client cuts them: the length is the second byte.\<close>

definition sdk_dec :: "(byte, bytes) decoder" where
  "sdk_dec s = (if length s < 2 then None
     else let n = 2 + unat (s ! 1) in if length s < n then None else Some (n, take n s))"

interpretation sdk: frame_decoder sdk_dec
  by unfold_locales (auto simp: sdk_dec_def Let_def nth_append split: if_splits)

definition handle_packet :: "json_lib \<Rightarrow> bytes \<Rightarrow> sdk_client \<Rightarrow> sdk_client" where
  "handle_packet L p c =
     (if p ! 0 AND 0xF0 = 0x30
      then case publish_fields p 0 (length p) of
             Inr (topic, payload) \<Rightarrow> sdk_handle_publish L topic payload c | Inl e \<Rightarrow> c
      else c)"

definition readable :: "bytes \<Rightarrow> bool" where
  "readable p = (p ! 0 AND 0xF0 = 0x30 \<longrightarrow> (\<exists>tp. publish_fields p 0 (length p) = Inr tp))"

lemma fields_in_place:
  assumes "publish_fields p 0 (length p) = Inr tp" "p = take n (drop a data)" "a + n \<le> length data"
  shows "publish_fields data a n = Inr tp"
proof -
  have n: "length p = n" using assms(2,3) by simp
  have at: "byte_at p k = Inr b \<Longrightarrow> byte_at data (a + k) = Inr b" for k b
    using assms(2,3) n by (auto simp: byte_at_def split: if_splits)
  have sl: "slice p k m = Inr x \<Longrightarrow> slice data (a + k) m = Inr x" for k m x
    using assms(3) n unfolding slice_def assms(2) by (auto simp: drop_take add.commute split: if_splits)
  let ?len = "\<lambda>tl. wrap64 (n + (2 ^ 64 - (4 + tl)))"
  obtain hi lo t q where f: "byte_at p (0 + 2) = Inr hi" "byte_at p (0 + 3) = Inr lo"
    "slice p (0 + 4) (unat (be16 hi lo)) = Inr t" "\<not> string_max_size < ?len (unat (be16 hi lo))"
    "slice p (0 + 4 + unat (be16 hi lo)) (?len (unat (be16 hi lo))) = Inr q"
    "tp = (string_of_bytes t, string_of_bytes q)"
    using assms(1) unfolding publish_fields_def Let_def n by (simp split: if_splits del: add_0) blast
  show ?thesis
    using at [OF f(1)] at [OF f(2)] sl [OF f(3)] sl [OF f(5)] f(4,6)
    unfolding publish_fields_def Let_def by (simp add: add.assoc)
qed

lemma process_buffer_drain:
  assumes "a \<le> length data" "drain sdk_dec (drop a data) = (ps, rest)" "\<forall>p \<in> set ps. readable p"
  shows "process_mqtt_buffer L data a c = (None, length data - length rest, fold (handle_packet L) ps c)"
  using assms
proof (induction ps arbitrary: a c)
  case Nil
  have n: "sdk_dec (drop a data) = None" "rest = drop a data"
    using Nil(2) sdk.drain_eq [of "drop a data"] by (auto split: option.splits prod.splits)
  have r: "length data - length rest = a" using n(2) Nil(1) by simp
  have s: "\<not> length (drop a data) < 2 \<Longrightarrow> drop a data ! 1 = data ! (a + 1)" using Nil(1) by simp
  show ?case
    unfolding r using n(1) s Nil(1)
    by (subst process_mqtt_buffer.simps) (auto simp: sdk_dec_def Let_def split: if_splits)
next
  case (Cons p ps)
  obtain n where n: "sdk_dec (drop a data) = Some (n, p)" "drain sdk_dec (drop n (drop a data)) = (ps, rest)"
    using Cons.prems(2) sdk.drain_eq [of "drop a data"] by (auto split: option.splits prod.splits)
  have d: "a + n \<le> length data" "2 \<le> n" "p = take n (drop a data)" "n = 2 + unat (data ! (a + 1))"
    using n(1) Cons.prems(1) by (auto simp: sdk_dec_def Let_def split: if_splits)
  have p0: "p ! 0 = data ! a" "length p = n" using d by simp_all
  have IH: "process_mqtt_buffer L data (a + n) c' = (None, length data - length rest, fold (handle_packet L) ps c')" for c'
    using Cons.IH [of "a + n" c'] d(1) n(2) Cons.prems(3) by (simp add: add.commute)
  have step: "process_mqtt_buffer L data a c =
      (if data ! a AND 0xF0 = 0x30
       then case publish_fields data a n of
              Inl e \<Rightarrow> (Some e, a, c)
            | Inr (topic, payload) \<Rightarrow> process_mqtt_buffer L data (a + n) (sdk_handle_publish L topic payload c)
       else process_mqtt_buffer L data (a + n) c)"
  proof -
    have e: "2 + unat (data ! (a + 1)) = n" "a < length data" "\<not> length data - a < 2" "\<not> length data - a < n"
      using d(1,2,4) by simp_all
    show ?thesis
      unfolding process_mqtt_buffer.simps [of L data a c] Let_def e(1) using e(2-4) by simp
  qed
  show ?case
  proof (cases "p ! 0 AND 0xF0 = 0x30")
    case True
    then obtain t pl where f: "publish_fields p 0 (length p) = Inr (t, pl)"
      using Cons.prems(3) by (auto simp: readable_def)
    then have "handle_packet L p c = sdk_handle_publish L t pl c" using True by (simp add: handle_packet_def)
    with fields_in_place [OF f d(3,1)] show ?thesis using True p0 step IH by simp
  next
    case False
    then have "handle_packet L p c = c" by (simp add: handle_packet_def)
    with False p0 step IH show ?thesis by simp
  qed
qed

lemma handle_packet_stream [simp]:
  "sc_stream (handle_packet L p c) = sc_stream c" "sc_is_ws (handle_packet L p c) = sc_is_ws c"
  "handle_packet L p (c\<lparr>sc_stream := s\<rparr>) = (handle_packet L p c)\<lparr>sc_stream := s\<rparr>"
  by (auto simp: handle_packet_def sdk_handle_publish_def apply_node_event_def Let_def
      split: sum.split option.split)

lemma handle_packets_stream [simp]:
  "sc_stream (fold (handle_packet L) ps c) = sc_stream c" "sc_is_ws (fold (handle_packet L) ps c) = sc_is_ws c"
  "fold (handle_packet L) ps (c\<lparr>sc_stream := s\<rparr>) = (fold (handle_packet L) ps c)\<lparr>sc_stream := s\<rparr>"
  by (induction ps arbitrary: c) simp_all

text \<open>Any number of reads.\<close>

fun sdk_reads :: "json_lib \<Rightarrow> bytes list \<Rightarrow> sdk_client \<Rightarrow> fault option \<times> sdk_client" where
  "sdk_reads L [] c = (None, c)"
| "sdk_reads L (d # ds) c = (case sdk_read L d c of (None, c) \<Rightarrow> sdk_reads L ds c | r \<Rightarrow> r)"

lemma sdk_reads_drain:
  assumes "\<not> sc_is_ws c" "drain sdk_dec (sc_stream c) = ([], sc_stream c)"
    and "drain sdk_dec (sc_stream c @ concat chunks) = (ps, rest)" "\<forall>p \<in> set ps. readable p"
  shows "sdk_reads L chunks c = (None, (fold (handle_packet L) ps c)\<lparr>sc_stream := rest\<rparr>)"
  using assms
proof (induction chunks arbitrary: c ps)
  case Nil
  then show ?case by simp
next
  case (Cons d ds)
  let ?s = "sc_stream c @ d"
  obtain qs r where q: "drain sdk_dec ?s = (qs, r)" by fastforce
  obtain ms z where m: "drain sdk_dec (r @ concat ds) = (ms, z)" by fastforce
  have ps: "ps = qs @ ms" "z = rest"
    using sdk.drain_append [OF q, of "concat ds"] Cons.prems(3) m by simp_all
  let ?c = "c\<lparr>sc_stream := ?s\<rparr>"
  have "process_mqtt_buffer L ?s 0 ?c = (None, length ?s - length r, fold (handle_packet L) qs ?c)"
    using Cons.prems(4) q ps by (intro process_buffer_drain) auto
  moreover have "drop (length ?s - length r) ?s = r"
    using sdk.drain_suffix [OF q] by simp
  ultimately have one: "sdk_read L d c = (None, (fold (handle_packet L) qs c)\<lparr>sc_stream := r\<rparr>)"
    using Cons.prems(1) by (simp add: sdk_read_def process_stream_def)
  let ?c1 = "(fold (handle_packet L) qs c)\<lparr>sc_stream := r\<rparr>"
  have "sdk_reads L ds ?c1 = (None, (fold (handle_packet L) ms ?c1)\<lparr>sc_stream := rest\<rparr>)"
    using Cons.prems sdk.drain_idle [OF q] m ps by (intro Cons.IH) simp_all
  then show ?case using one ps by simp
qed

lemma publish_body_plain: "publish_body t p 0 0 = write_string t @ bytes_of_string p"
  by (simp add: publish_body_def)

lemma topic_length_bytes:
  "length t < 65536 \<Longrightarrow> unat (be16 (hi_byte (word_of_nat (length t))) (lo_byte (word_of_nat (length t)))) = length t"
  by (simp add: unat_of_nat)

lemma publish_short:
  assumes "length (publish_body t p 0 0) < 128"
  shows "encode_publish t p 0 0 = 0x30 # word_of_nat (length (publish_body t p 0 0)) # publish_body t p 0 0"
proof -
  have "encode_remaining_length n = [word_of_nat n]" if "n < 128" for n
    using that by (subst encode_remaining_length.simps) (simp add: Let_def)
  with assms show ?thesis by (simp add: encode_publish_body publish_header_def)
qed

lemma fields_short:
  assumes "length (publish_body t p 0 0) < 128"
  shows "publish_fields (encode_publish t p 0 0) 0 (length (encode_publish t p 0 0)) = Inr (t, p)"
proof -
  let ?d = "encode_publish t p 0 0" and ?w = "word_of_nat (length t) :: 16 word"
  have l: "length t + length p < 126" using assms by (simp add: publish_body_plain)
  have d: "?d = 0x30 # word_of_nat (2 + length t + length p) # hi_byte ?w # lo_byte ?w # bytes_of_string t @ bytes_of_string p"
    using publish_short [OF assms] by (simp add: publish_body_plain write_string_def Let_def add.assoc)
  have n: "length ?d = 4 + (length t + length p)" by (simp add: d)
  have tl: "unat (be16 (hi_byte ?w) (lo_byte ?w)) = length t" using l by (intro topic_length_bytes) simp
  have "4 + (length t + length p) + (2 ^ 64 - (4 + length t)) = length p + 2 ^ 64" using l by simp
  then have w: "wrap64 (length ?d + (2 ^ 64 - (4 + length t))) = length p"
    using l unfolding n by (simp only: wrap64_def mod_add_self2) simp
  have "byte_at ?d (0 + 2) = Inr (hi_byte ?w)" "byte_at ?d (0 + 3) = Inr (lo_byte ?w)"
    by (simp_all add: d byte_at_def)
  moreover have "drop (4 + length t) ?d = bytes_of_string p"
  proof -
    have "drop (4 + length t) ?d = drop (length t) (drop 4 ?d)" by (simp add: add.commute)
    also have "drop 4 ?d = bytes_of_string t @ bytes_of_string p" by (simp add: d)
    finally show ?thesis by simp
  qed
  then have "slice ?d (0 + 4) (length t) = Inr (bytes_of_string t)"
    "slice ?d (0 + 4 + length t) (length p) = Inr (bytes_of_string p)"
    using n by (simp_all add: d slice_def)
  moreover have "\<not> string_max_size < length p" using l by (simp add: string_max_size_def)
  ultimately show ?thesis
    unfolding publish_fields_def Let_def by (simp only: bind_res.simps tl w if_False) simp
qed

lemma dec_short:
  assumes "length (publish_body t p 0 0) < 128"
  shows "sdk_dec (encode_publish t p 0 0) = Some (length (encode_publish t p 0 0), encode_publish t p 0 0)"
  using assms by (simp add: publish_short sdk_dec_def unat_of_nat Let_def)

lemma drain_short:
  assumes "\<forall>(t, p) \<in> set ms. length (publish_body t p 0 0) < 128"
  shows "drain sdk_dec (concat (map (\<lambda>(t, p). encode_publish t p 0 0) ms)) = (map (\<lambda>(t, p). encode_publish t p 0 0) ms, [])"
  using assms
proof (induction ms)
  case Nil
  show ?case by (simp add: drain_def)
next
  case (Cons m ms)
  obtain t p where m: "m = (t, p)" by (cases m)
  let ?f = "encode_publish t p 0 0" and ?r = "concat (map (\<lambda>(t, p). encode_publish t p 0 0) ms)"
  have "sdk_dec (?f @ ?r) = Some (length ?f, ?f)"
    using sdk.dec_stable [OF dec_short] Cons.prems m by auto
  then show ?case using Cons m sdk.drain_eq [of "?f @ ?r"] by simp
qed

lemma fold_short:
  assumes "\<forall>(t, p) \<in> set ms. length (publish_body t p 0 0) < 128"
  shows "fold (handle_packet L) (map (\<lambda>(t, p). encode_publish t p 0 0) ms) c = fold (\<lambda>(t, p). sdk_handle_publish L t p) ms c"
  using assms
proof (induction ms arbitrary: c)
  case (Cons m ms)
  then show ?case
    by (cases m) (simp add: handle_packet_def fields_short, simp add: publish_short)
qed simp

text \<open>
  Short messages arrive: however TCP cuts a sequence of QoS 0 publishes of less than 128 bytes each
  into reads, the client handles exactly their topics and payloads, in order, without a fault, and
  keeps no byte.
\<close>

theorem sdk_stream_delivers:
  assumes "\<forall>(t, p) \<in> set ms. length (publish_body t p 0 0) < 128" "\<not> sc_is_ws c" "sc_stream c = []"
    and "concat chunks = concat (map (\<lambda>(t, p). encode_publish t p 0 0) ms)"
  shows "sdk_reads L chunks c = (None, fold (\<lambda>(t, p). sdk_handle_publish L t p) ms c)"
proof -
  have r: "\<forall>p \<in> set (map (\<lambda>(t, p). encode_publish t p 0 0) ms). readable p"
    using assms(1) fields_short by (fastforce simp: readable_def)
  have "drain sdk_dec (sc_stream c @ concat chunks) = (map (\<lambda>(t, p). encode_publish t p 0 0) ms, [])"
    using drain_short [OF assms(1)] assms(3,4) by simp
  moreover have "drain sdk_dec (sc_stream c) = ([], sc_stream c)" by (simp add: assms(3) drain_def)
  ultimately have "sdk_reads L chunks c =
      (None, (fold (handle_packet L) (map (\<lambda>(t, p). encode_publish t p 0 0) ms) c)\<lparr>sc_stream := []\<rparr>)"
    using sdk_reads_drain [OF assms(2) _ _ r] by blast
  then show ?thesis
    using assms(3) handle_packets_stream(1) [of L "map (\<lambda>(t, p). encode_publish t p 0 0) ms" c]
    by (simp add: fold_short [OF assms(1)])
qed

theorem sdk_stream_delivers_witness:
  "\<exists>c'. sdk_reads toy_lib [[0x30], [8, 0, 5] @ bytes_of_string ''app/'', bytes_of_string ''xh'']
      ((sdk_client_new False)\<lparr>sc_app := [(''app/x'', [7])]\<rparr>) = (None, c') \<and> sc_calls c' = [App_call 7 ''h'' ''app/x'']"
proof -
  let ?c = "(sdk_client_new False)\<lparr>sc_app := [(''app/x'', [7])]\<rparr>"
  let ?chunks = "[[0x30], [8, 0, 5] @ bytes_of_string ''app/'', bytes_of_string ''xh'']"
  have l: "length (publish_body ''app/x'' ''h'' 0 0) = 8" by (simp add: publish_body_plain)
  have c: "concat ?chunks = concat (map (\<lambda>(t, p). encode_publish t p 0 0) [(''app/x'', ''h'')])"
    using publish_short [of "''app/x''" "''h''"] l
    by (simp add: publish_body_plain write_string_def bytes_of_string_def hi_byte_def lo_byte_def)
  have "\<forall>(t, p) \<in> set [(''app/x'', ''h'')]. length (publish_body t p 0 0) < 128"
    "\<not> sc_is_ws ?c" "sc_stream ?c = []"
    using l by (simp_all add: sdk_client_new_def)
  from sdk_stream_delivers [OF this c, of toy_lib] show ?thesis
    by (intro exI [of _ "sdk_handle_publish toy_lib ''app/x'' ''h'' ?c"])
      (simp add: sdk_handle_publish_def starts_with_def sdk_client_new_def del: sdk_reads.simps)
qed

text \<open>Two bytes read as a number are at least the first one times 256.\<close>

lemma be16_value: "unat (be16 a b) = 256 * unat a + unat b"
proof -
  have small: "unat (c :: byte) mod 65536 = unat c" for c
    by (rule mod_less) (rule less_trans [OF unat_byte_less], simp)
  have "be16 a b = push_bit 8 (ucast a) + ucast b"
    unfolding be16_def by (rule disjunctive_add [symmetric]) (auto simp: bit_simps dest: bit_imp_le_length)
  moreover have "unat (push_bit 8 (ucast a :: 16 word)) = 256 * unat a"
  proof -
    have "unat (ucast a :: 16 word) = unat a" by (simp add: unsigned_ucast_eq take_bit_eq_mod small)
    moreover have "push_bit 8 (ucast a :: 16 word) = 256 * ucast a" by (simp add: push_bit_eq_mult)
    ultimately show ?thesis using unat_byte_less [of a] by (simp add: unat_word_ariths)
  qed
  moreover have "unat (ucast b :: 16 word) = unat b" by (simp add: unsigned_ucast_eq take_bit_eq_mod small)
  moreover have "(256 * unat a + unat b) mod 65536 = 256 * unat a + unat b"
    using unat_byte_less [of a] unat_byte_less [of b] by (intro mod_less) linarith
  ultimately show ?thesis by (simp add: unat_word_ariths)
qed

lemma publish_long:
  assumes n: "n = length (publish_body t p 0 0)" "128 \<le> n" "n < 16384"
  shows "encode_publish t p 0 0 = 0x30 # (word_of_nat (n mod 128) OR 0x80) # word_of_nat (n div 128) # publish_body t p 0 0"
proof -
  have "encode_remaining_length (n div 128) = [word_of_nat (n div 128)]"
    using n(3) by (subst encode_remaining_length.simps) (simp add: Let_def div_mult2_eq [symmetric])
  then have "encode_remaining_length n = [word_of_nat (n mod 128) OR 0x80, word_of_nat (n div 128)]"
    using n(2) by (subst encode_remaining_length.simps) (simp add: Let_def div_greater_zero_iff)
  with n(1) show ?thesis by (simp add: encode_publish_body publish_header_def)
qed

text \<open>
  Anything longer is undefined behaviour: a QoS 0 publish of 128 to 16383 bytes, which the server
  encodes with a two-byte length (every real node announcement is that long), makes the client take
  the second length byte for the topic's length and read the topic past the end of its buffer.
\<close>

theorem sdk_long_publish_faults:
  assumes "128 \<le> length (publish_body t p 0 0)" "length (publish_body t p 0 0) < 16384"
  shows "process_mqtt_buffer L (encode_publish t p 0 0) 0 c = (Some Out_of_bounds, 0, c)"
proof -
  let ?b = "publish_body t p 0 0" and ?n = "length (publish_body t p 0 0)"
  let ?d = "encode_publish t p 0 0"
  let ?x = "word_of_nat (?n mod 128) OR 0x80 :: byte" and ?y = "word_of_nat (?n div 128) :: byte"
  have d: "?d = 0x30 # ?x # ?y # ?b" by (rule publish_long [OF refl assms])
  obtain hi bs where b: "?b = hi # bs"
    by (cases ?b) (simp_all add: publish_body_plain write_string_def Let_def)
  have y: "unat ?y = ?n div 128" using assms(2) by (intro unat_byte_of_nat) (simp add: less_mult_imp_div_less)
  have x: "unat ?x \<le> 128 + ?n mod 128"
  proof -
    have "?x AND 127 = word_of_nat (?n mod 128) AND 127" by (simp add: bit.conj_disj_distrib2)
    then have "unat ?x mod 128 = ?n mod 128"
      using byte_and_127 [of ?x] byte_or_128_and_127 [of "word_of_nat (?n mod 128)"]
      by (simp add: unat_byte_of_nat less_trans)
    moreover have "unat ?x div 128 < 2" by (rule less_mult_imp_div_less) (use unat_byte_less [of ?x] in simp)
    moreover have "unat ?x = 128 * (unat ?x div 128) + unat ?x mod 128" by simp
    ultimately show ?thesis by linarith
  qed
  have q: "?n = 128 * (?n div 128) + ?n mod 128" "1 \<le> ?n div 128" "?n mod 128 < 128"
    using assms(1) by (simp_all add: div_greater_zero_iff Suc_le_eq)
  have len: "length ?d = 3 + ?n" by (simp add: d)
  have "\<not> length ?d < 2 + unat ?x" using x q len by linarith
  moreover have "publish_fields ?d 0 (2 + unat ?x) = Inl Out_of_bounds"
  proof -
    have "byte_at ?d (0 + 2) = Inr ?y" "byte_at ?d (0 + 3) = Inr hi"
      using b by (simp_all add: d byte_at_def)
    moreover have "256 * (?n div 128) \<le> unat (be16 ?y hi)" using be16_value [of ?y hi] y by simp
    then have "slice ?d (0 + 4) (unat (be16 ?y hi)) = Inl Out_of_bounds"
      using q len unfolding slice_def by auto
    ultimately show ?thesis unfolding publish_fields_def Let_def by (simp only: bind_res.simps)
  qed
  ultimately show ?thesis
    using assms(1) by (subst process_mqtt_buffer.simps) (simp add: d Let_def)
qed

theorem sdk_long_publish_faults_witness:
  "process_mqtt_buffer toy_lib (encode_publish ''apr/api'' (replicate 150 (CHR ''x'')) 0 0) 0 (sdk_client_new False)
     = (Some Out_of_bounds, 0, sdk_client_new False)"
  by (rule sdk_long_publish_faults) (simp_all add: publish_body_plain)

section \<open>The packets the client sends\<close>

lemma sdk_write_str_eq: "length s < 65536 \<Longrightarrow> sdk_write_str s = write_string s"
proof -
  assume l: "length s < 65536"
  let ?w = "word_of_nat (length s) :: 16 word"
  have w: "unat ?w = length s" using l by (simp add: unat_of_nat)
  have low: "unat (ucast (x AND mask 8 :: 16 word) :: byte) = unat x mod 256" for x
  proof -
    have "unat (take_bit 8 x) = unat x mod 256"
      by (simp add: unsigned_take_bit_eq take_bit_eq_mod [of 8 "unat x"])
    then show ?thesis by (simp add: unsigned_ucast_eq take_bit_eq_mod [of 8 "_ :: nat"] flip: take_bit_eq_mask)
  qed
  have "unat (drop_bit 8 ?w) = length s div 256" unfolding unat_drop_bit_eq w by (rule drop_bit_eq_div [THEN trans]) simp
  then have "unat (hi_byte ?w) = length s div 256 mod 256" unfolding hi_byte_def mask_8_16 low by simp
  then have "hi_byte ?w = word_of_nat (length s div 256 mod 256)"
    by (intro unsigned_word_eqI [where ?'a = nat]) (simp only: unat_byte_of_nat mod_less_divisor zero_less_numeral)
  moreover have "unat (lo_byte ?w) = length s mod 256" unfolding lo_byte_def mask_8_16 low w by simp
  then have "lo_byte ?w = word_of_nat (length s mod 256)"
    by (intro unsigned_word_eqI [where ?'a = nat]) (simp only: unat_byte_of_nat mod_less_divisor zero_less_numeral)
  ultimately show ?thesis by (simp add: sdk_write_str_def write_string_def Let_def)
qed

lemma one_byte_length: "n < 128 \<Longrightarrow> decode_remaining_length (word_of_nat n # rest) = Inr (n, 1)"
proof -
  assume n: "n < 128"
  then have "encode_remaining_length n = [word_of_nat n]"
    by (subst encode_remaining_length.simps) (simp add: Let_def)
  with n decode_remaining_length_encode [of n rest] show ?thesis by simp
qed

lemma connect_decodes:
  fixes cid user pass :: string
  assumes n: "n = 10 + (2 + length cid) + (2 + length user) + (2 + length pass)" "n < 128"
  shows "decode_connect ([0x10, word_of_nat n, 0x00, 0x04] @ bytes_of_string ''MQTT'' @ [0x04, 0x02 OR 0x80 OR 0x40, 0x00, 0x3C] @
      write_string cid @ write_string user @ write_string pass) =
    Inr (Some \<lparr>conn_client_id = cid, conn_username = user, conn_password = pass, conn_keep_alive = 60\<rparr>)"
proof -
  let ?h = "[0x10, word_of_nat n] :: bytes" and ?m = "write_string ''MQTT''" and ?f = "[0x04, 0xC2, 0x00, 0x3C] :: bytes"
  have m: "[0x00, 0x04] @ bytes_of_string ''MQTT'' = ?m" by (simp add: write_string_def hi_byte_def lo_byte_def)
  obtain data where data: "data = ?h @ ?m @ ?f @ write_string cid @ write_string user @ write_string pass" by simp
  have eq: "[0x10, word_of_nat n, 0x00, 0x04] @ bytes_of_string ''MQTT'' @ [0x04, 0x02 OR 0x80 OR 0x40, 0x00, 0x3C] @
      write_string cid @ write_string user @ write_string pass = data"
    using m by (simp add: data)
  have len: "length data = 2 + n" by (simp add: data n(1))
  have rl: "decode_remaining_length (drop 1 data) = Inr (n, 1)" by (simp add: data one_byte_length [OF n(2)])
  have a: "read_string data 2 = Inr (''MQTT'', 8)"
    unfolding data using str.read_at [of "''MQTT''" ?h 2] by simp
  have b: "read_u8 data 8 = Inr (0x04, 9)" "read_u8 data 9 = Inr (0xC2, 10)" "read_u16 data 10 = Inr (60, 12)"
    using u8.read_at [where x = "0x04" and pre = "?h @ ?m" and n = 8 and rest = "[0xC2, 0x00, 0x3C] @ write_string cid @ write_string user @ write_string pass"]
      u8.read_at [where x = "0xC2" and pre = "?h @ ?m @ [0x04]" and n = 9 and rest = "[0x00, 0x3C] @ write_string cid @ write_string user @ write_string pass"]
      u16.read_at [where x = 60 and pre = "?h @ ?m @ [0x04, 0xC2]" and n = 10 and rest = "write_string cid @ write_string user @ write_string pass"]
    by (simp_all add: data write_u8_def write_u16_def hi_byte_def lo_byte_def)
  have flags: "(0xC2 :: byte) AND 0x04 = 0" "(0xC2 :: byte) AND 0x80 \<noteq> 0" "(0xC2 :: byte) AND 0x40 \<noteq> 0" by simp_all
  have lens: "length cid < 65536" "length user < 65536" "length pass < 65536" using n by simp_all
  have c: "read_string data 12 = Inr (cid, 14 + length cid)"
    unfolding data using str.read_at [OF lens(1), of "?h @ ?m @ ?f" 12] by simp
  have u: "read_string data (14 + length cid) = Inr (user, 16 + length cid + length user)"
    unfolding data using str.read_at [OF lens(2), of "?h @ ?m @ ?f @ write_string cid" "14 + length cid"] by simp
  have p: "read_string data (16 + length cid + length user) = Inr (pass, 18 + length cid + length user + length pass)"
    unfolding data using str.read_at [OF lens(3), of "?h @ ?m @ ?f @ write_string cid @ write_string user"
        "16 + length cid + length user" "[]"] by simp
  show ?thesis
    unfolding eq using len rl a b c u p flags
    by (simp add: decode_connect_def decode_connect_body_def Let_def del: One_nat_def)
qed

text \<open>The connect packet is accepted by the server, and its password is the one the server expects.\<close>

definition connect_length :: "client_options \<Rightarrow> nat \<Rightarrow> nat \<Rightarrow> nat" where
  "connect_length opts r1 r2 = 16 + length (cl_role opts @ ''_sdk_'' @ nat_to_string (r2 mod 10000)) +
     length (sdk_username opts r1) + length (cl_access_key opts @ sdk_username opts r1)"

text \<open>
  The server accepts the client's opening packets: with a connect body of less than 128 bytes, the
  server decodes the CONNECT to a user name whose role part is the client's role (up to its first
  underscore) and a password that is the access key followed by the user name; it decodes each
  SUBSCRIBE of less than 128 bytes to that one topic.
\<close>

theorem sdk_start_accepted:
  assumes "connect_length opts r1 r2 < 128" "length t < 123"
  shows "(\<exists>c. decode_connect (sdk_connect opts r1 r2) = Inr (Some c) \<and>
      conn_username c = sdk_username opts r1 \<and> conn_password c = cl_access_key opts @ conn_username c \<and>
      takeWhile (\<lambda>x. x \<noteq> CHR ''_'') (conn_username c) = takeWhile (\<lambda>x. x \<noteq> CHR ''_'') (cl_role opts)) \<and>
    decode_subscribe (sdk_subscribe t) = Inr (Some \<lparr>sub_packet_id = 1, sub_topics = [t]\<rparr>)"
proof -
  let ?u = "sdk_username opts r1" and ?id = "cl_role opts @ ''_sdk_'' @ nat_to_string (r2 mod 10000)"
  let ?p = "cl_access_key opts @ ?u" and ?n = "connect_length opts r1 r2"
  have n: "?n = 10 + (2 + length ?id) + (2 + length ?u) + (2 + length ?p)" by (simp add: connect_length_def)
  have "sdk_write_str ?id = write_string ?id" "sdk_write_str ?u = write_string ?u" "sdk_write_str ?p = write_string ?p"
    using n assms(1) by (intro sdk_write_str_eq; simp)+
  then have "sdk_connect opts r1 r2 = [0x10, word_of_nat ?n, 0x00, 0x04] @ bytes_of_string ''MQTT'' @
      [0x04, 0x02 OR 0x80 OR 0x40, 0x00, 0x3C] @ write_string ?id @ write_string ?u @ write_string ?p"
    unfolding sdk_connect_def Let_def n by simp
  then have c: "decode_connect (sdk_connect opts r1 r2) =
      Inr (Some \<lparr>conn_client_id = ?id, conn_username = ?u, conn_password = ?p, conn_keep_alive = 60\<rparr>)"
    using connect_decodes [OF n assms(1)] by simp
  have tw: "takeWhile (\<lambda>x. x \<noteq> CHR ''_'') ?u = takeWhile (\<lambda>x. x \<noteq> CHR ''_'') (cl_role opts)"
    by (cases "CHR ''_'' \<in> set (cl_role opts)")
      (simp_all only: sdk_username_def takeWhile_append1 not_not takeWhile_absent takeWhile_upto append_Cons append_Nil simp_thms)
  let ?h = "[0x82, word_of_nat (5 + length t)] :: bytes"
  obtain data where data: "data = ?h @ [0x00, 0x01] @ write_string t @ [0x00]" by simp
  have s: "sdk_subscribe t = data"
    using assms(2) sdk_write_str_eq [of t] by (simp add: sdk_subscribe_def data Let_def)
  have rl: "decode_remaining_length (drop 1 data) = Inr (5 + length t, 1)"
    using one_byte_length [of "5 + length t" "[0x00, 0x01] @ write_string t @ [0x00]"] assms(2) by (simp add: data)
  have len: "length data = 7 + length t" by (simp add: data)
  have u: "read_u16 data 2 = Inr (1, 4)" by (simp add: data read_u16_def be16_def)
  have r: "read_string data 4 = Inr (t, 6 + length t)"
    unfolding data using str.read_at [of t "?h @ [0x00, 0x01]" 4] assms(2) by simp
  have q: "read_u8 data (6 + length t) = Inr (0x00, 7 + length t)"
    unfolding read_u8_def using len by (simp add: data nth_append write_string_def Let_def)
  have "decode_topics data (7 + length t) (7 + length t) [t] = Inr [t]" by (subst decode_topics.simps) simp
  then have "decode_topics data 4 (7 + length t) [] = Inr [t]"
    using r q by (subst decode_topics.simps) simp
  then have "decode_subscribe data = Inr (Some \<lparr>sub_packet_id = 1, sub_topics = [t]\<rparr>)"
    using len rl u by (simp add: decode_subscribe_def decode_subscribe_body_def Let_def del: One_nat_def)
  with c tw s show ?thesis by simp
qed

theorem sdk_start_accepted_witness:
  "decode_subscribe (sdk_subscribe ''apr/+'') = Inr (Some \<lparr>sub_packet_id = 1, sub_topics = [''apr/+'']\<rparr>)"
proof -
  have "nat_to_string 0 = ''0''" by (simp add: nat_to_string.simps digit_char_eval)
  then have "connect_length client_default 0 0 < 128"
    by (simp add: connect_length_def client_default_def sdk_username_def)
  from sdk_start_accepted [OF this, of "''apr/+''"] show ?thesis by simp
qed

end
