(* ===== verification/ClientCache.thy ===== *)
theory ClientCache
  imports SdkProps
begin

text \<open>
  The cache of the client library as a copy of the registry: each broadcast event keeps the copy in
  step with the registry operation that caused it, and the events may overlap with the snapshot.
\<close>

section \<open>Events on one entry\<close>

definition entry_event :: "string \<Rightarrow> node_info \<Rightarrow> node_info option \<Rightarrow> node_info option" where
  "entry_event k node x =
     (if n_id node \<noteq> k then x
      else case n_status node of
             St_ok \<Rightarrow> Some node
           | St_grace \<Rightarrow> map_option (\<lambda>n. n\<lparr>n_status := St_grace\<rparr>) x
           | St_erased \<Rightarrow> None)"

lemma cache_event_entry: "map_of (cache_event node nodes) k = entry_event k node (map_of nodes k)"
  by (auto simp: cache_event_def entry_event_def assoc_simps split: node_status.split option.split)

lemma cache_events_entry: "map_of (fold cache_event es nodes) k = fold (entry_event k) es (map_of nodes k)"
  by (induction es arbitrary: nodes) (simp_all add: cache_event_entry)

text \<open>What a sequence of events does to one entry: it fixes it, or leaves it, or puts it in grace.\<close>

lemma entry_events_cases:
  obtains c where "\<And>x. fold (entry_event k) es x = c"
  | "\<And>x. fold (entry_event k) es x = x"
  | "\<And>x. fold (entry_event k) es x = map_option (\<lambda>n. n\<lparr>n_status := St_grace\<rparr>) x"
proof -
  have "(\<exists>c. \<forall>x. fold (entry_event k) es x = c) \<or> (\<forall>x. fold (entry_event k) es x = x) \<or>
    (\<forall>x. fold (entry_event k) es x = map_option (\<lambda>n. n\<lparr>n_status := St_grace\<rparr>) x)"
  proof (induction es rule: rev_induct)
    case (snoc e es)
    show ?case
    proof (cases "n_id e = k")
      case True
      then show ?thesis using snoc
        by (cases "n_status e") (auto simp: entry_event_def option.map_comp comp_def)
    next
      case False
      then have "entry_event k e = (\<lambda>x. x)" by (simp add: entry_event_def fun_eq_iff)
      with snoc show ?thesis by simp
    qed
  qed simp
  then show thesis using that by blast
qed

lemma entry_events_twice: "fold (entry_event k) es (fold (entry_event k) es x) = fold (entry_event k) es x"
  by (rule entry_events_cases [of k es]) (simp_all add: option.map_comp comp_def)

lemma client_events:
  "sc_nodes (fold apply_node_event es c) = fold cache_event es (sc_nodes c)"
  "sc_queue (fold apply_node_event es c) = sc_queue c"
proof -
  have "sc_nodes (apply_node_event e c) = cache_event e (sc_nodes c)"
    "sc_queue (apply_node_event e c) = sc_queue c" for e c
    by (simp_all add: apply_node_event_def Let_def)
  then show "sc_nodes (fold apply_node_event es c) = fold cache_event es (sc_nodes c)"
    "sc_queue (fold apply_node_event es c) = sc_queue c"
    by (induction es arbitrary: c) simp_all
qed

text \<open>
  The snapshot may be taken at any moment after the subscription: if it already contains the first
  \<open>k\<close> of the events the client receives, draining the queued events on top of it and applying the
  rest live leaves every entry of the cache as if the events had been applied once, in order, to the
  state before the subscription.
\<close>

theorem snapshot_replay:
  assumes "\<forall>i. map_of (sc_nodes c) i = map_of (fold cache_event (take k es) before) i"
    and "es = sc_queue c @ live"
  shows "map_of (sc_nodes (fold apply_node_event live (reconcile_queue c))) = map_of (fold cache_event es before)"
proof
  fix i
  have "sc_nodes (reconcile_queue c) = fold cache_event (sc_queue c) (sc_nodes c)"
    by (simp add: reconcile_queue_def client_events)
  then have "map_of (sc_nodes (fold apply_node_event live (reconcile_queue c))) i =
      fold (entry_event i) es (fold (entry_event i) (take k es) (map_of before i))"
    using assms(1) by (simp add: client_events assms(2) cache_events_entry)
  also have "\<dots> = fold (entry_event i) (drop k es)
      (fold (entry_event i) (take k es) (fold (entry_event i) (take k es) (map_of before i)))"
    by (metis append_take_drop_id fold_append comp_apply)
  also have "\<dots> = fold (entry_event i) es (map_of before i)"
    unfolding entry_events_twice by (metis append_take_drop_id fold_append comp_apply)
  finally show "map_of (sc_nodes (fold apply_node_event live (reconcile_queue c))) i = map_of (fold cache_event es before) i"
    by (simp add: cache_events_entry)
qed

theorem snapshot_replay_witness:
  "map_of (sc_nodes (reconcile_queue ((sdk_client_new False)\<lparr>sc_nodes := [(''node-1-1'', sample_node\<lparr>n_status := St_ok\<rparr>)],
      sc_queue := [sample_node\<lparr>n_status := St_ok\<rparr>, sample_node\<lparr>n_status := St_erased\<rparr>]\<rparr>))) = Map.empty"
proof -
  let ?ok = "sample_node\<lparr>n_status := St_ok\<rparr>" and ?gone = "sample_node\<lparr>n_status := St_erased\<rparr>"
  let ?c = "(sdk_client_new False)\<lparr>sc_nodes := [(''node-1-1'', ?ok)], sc_queue := [?ok, ?gone]\<rparr>"
  have "map_of (sc_nodes (fold apply_node_event [] (reconcile_queue ?c))) = map_of (fold cache_event [?ok, ?gone] [])"
    by (rule snapshot_replay [where k = 1]) (simp_all add: cache_event_def sample_node_def)
  then show ?thesis by (simp add: cache_event_def sample_node_def AList.delete_eq)
qed

section \<open>The registry's changes and their announcements\<close>

text \<open>The operations of the registry, with the node they announce.\<close>

inductive announced :: "json_lib \<Rightarrow> nat \<Rightarrow> 'cb registry \<Rightarrow> node_info \<Rightarrow> 'cb registry \<Rightarrow> bool" for L sz r where
  registered: "existing = [] \<or> issued (r_id_counter r) existing \<Longrightarrow>
    register_or_update_node L sz now t_id role workers ep peer_ip existing extra r = (Inr n, ev, r') \<Longrightarrow>
    announced L sz r n r'"
| in_grace: "mark_node_grace now nid r = (b, Some (cbs, n), r') \<Longrightarrow> announced L sz r n r'"
| restored: "restore_node_active now nid r = (b, Some (cbs, n), r') \<Longrightarrow> announced L sz r n r'"
| extra: "update_node_extra L now nid w v r = (res, Some (cbs, n), r') \<Longrightarrow> announced L sz r n r'"
| removed: "remove_node_permanently L sz nid r = (res', Some (cbs, n), r') \<Longrightarrow> announced L sz r n r'"

inductive announced_run :: "json_lib \<Rightarrow> nat \<Rightarrow> 'cb registry \<Rightarrow> node_info list \<Rightarrow> 'cb registry \<Rightarrow> bool" for L sz where
  no_event: "announced_run L sz r [] r"
| event: "announced L sz r n r1 \<Longrightarrow> announced_run L sz r1 ns r' \<Longrightarrow> announced_run L sz r (n # ns) r'"

inductive_cases announced_runE: "announced_run L sz r ns r'"

text \<open>What an announcement says about the registry: only the announced node's entry has changed.\<close>

lemma announced_entry:
  assumes "announced L sz r n r'" "reg_ok L r"
  shows "reg_ok L r' \<and> (\<forall>k. k \<noteq> n_id n \<longrightarrow> find_node r' k = find_node r k) \<and>
    (case n_status n of
       St_ok \<Rightarrow> find_node r' (n_id n) = Some n
     | St_grace \<Rightarrow> find_node r' (n_id n) = Some n \<and> (\<exists>old. find_node r (n_id n) = Some old \<and>
         n_role n = n_role old \<and> n_workers n = n_workers old \<and> n_endpoint n = n_endpoint old)
     | St_erased \<Rightarrow> find_node r' (n_id n) = None)"
  using assms
proof (cases rule: announced.cases)
  case (registered existing now t_id role workers ep peer_ip extra ev)
  then show ?thesis
    using register_ok [OF assms(2)] register_stored [OF assms(2) registered] by auto
next
  case (in_grace now nid b cbs)
  then show ?thesis
    using mark_grace_ok [OF assms(2) in_grace] reg_ok_lookup [OF assms(2), of nid]
    by (auto simp: mark_node_grace_def find_put_node Let_def split: option.splits)
next
  case (restored now nid b cbs)
  then show ?thesis
    using restore_ok [OF assms(2) restored] reg_ok_lookup [OF assms(2), of nid]
    by (auto simp: restore_node_active_def find_put_node Let_def split: option.splits)
next
  case (extra now nid w v res cbs)
  obtain old where old: "find_node r nid = Some old"
    using extra by (auto simp: update_node_extra_def split: option.splits)
  have o: "n_id old = nid" "node_ok L (r_max_extra r) old" using reg_ok_lookup [OF assms(2) old] by auto
  then have d: "dumpable L (r_max_extra r) (n_extra old)" by (simp add: node_ok_def)
  obtain n1 t1 where t: "try_set_extra L (r_max_extra r) w v (old, r_mem r) = Inr (True, n1, t1)"
    "n = n1\<lparr>n_active_at := now\<rparr>" "r' = put_node nid n (r\<lparr>r_mem := t1\<rparr>)"
    using extra old by (auto simp: update_node_extra_def Let_def split: sum.splits prod.splits bool.splits)
  obtain x where x: "n1 = old\<lparr>n_extra := x\<rparr>"
    using try_set_extra_cases [OF d, of w v "r_mem r"] t(1) by (auto elim!: bookedE)
  have f: "find_node r' k = (if k = nid then Some n else find_node r k)" for k
    unfolding t(3) by (simp add: find_put_node) (simp add: find_node_def)
  have "n_status old \<noteq> St_erased" using o(2) by (auto simp: node_ok_def)
  then show ?thesis
    using update_extra_ok [OF assms(2) extra] f old o(1) x t(2) by (cases "n_status old") auto
next
  case (removed nid res' cbs)
  obtain old where old: "find_node r nid = Some old"
    using removed by (auto simp: remove_node_permanently_def split: option.splits)
  have o: "n_id old = nid" using reg_ok_lookup [OF assms(2) old] by simp
  show ?thesis
    by (rule remove_lookup [OF assms(2) old, of sz]) (use removed o in \<open>auto simp: erased_copy_def\<close>)
qed

section \<open>The cache follows the registry\<close>

definition same_node :: "node_info \<Rightarrow> node_info \<Rightarrow> bool" where
  "same_node n m = (n_id n = n_id m \<and> n_role n = n_role m \<and> n_workers n = n_workers m \<and>
     n_endpoint n = n_endpoint m \<and> n_status n = n_status m)"

definition in_sync :: "(string \<times> node_info) list \<Rightarrow> 'cb registry \<Rightarrow> bool" where
  "in_sync nodes r = (distinct (map fst nodes) \<and> (\<forall>k. rel_option same_node (map_of nodes k) (find_node r k)))"

lemma distinct_cache_event: "distinct (map fst nodes) \<Longrightarrow> distinct (map fst (cache_event n nodes))"
  by (auto simp: cache_event_def distinct_update distinct_delete split: node_status.split option.split)

lemma in_sync_event:
  assumes "reg_ok L r" "in_sync nodes r" "announced L sz r n r'"
  shows "in_sync (cache_event n nodes) r'"
proof -
  note a = announced_entry [OF assms(3,1)]
  have s: "rel_option same_node (map_of nodes k) (find_node r k)" for k
    using assms(2) by (simp add: in_sync_def)
  have "rel_option same_node (map_of (cache_event n nodes) k) (find_node r' k)" for k
  proof (cases "k = n_id n")
    case True
    show ?thesis
    proof (cases "n_status n")
      case St_grace
      then obtain old where old: "find_node r' k = Some n" "find_node r k = Some old" "n_role n = n_role old"
        "n_workers n = n_workers old" "n_endpoint n = n_endpoint old" using a True by auto
      obtain m where "map_of nodes k = Some m" "same_node m old" using s [of k] old(2) by (auto simp: option_rel_Some2)
      then show ?thesis using True St_grace old reg_ok_lookup [OF assms(1) old(2)]
        by (auto simp: cache_event_entry entry_event_def same_node_def)
    qed (use a True in \<open>auto simp: cache_event_entry entry_event_def same_node_def\<close>)
  next
    case False
    then show ?thesis using a s [of k] by (simp add: cache_event_entry entry_event_def)
  qed
  then show ?thesis using assms(2) distinct_cache_event by (auto simp: in_sync_def)
qed

lemma in_sync_run:
  "announced_run L sz r ns r' \<Longrightarrow> reg_ok L r \<Longrightarrow> in_sync nodes r \<Longrightarrow>
     reg_ok L r' \<and> in_sync (fold cache_event ns nodes) r'"
proof (induction arbitrary: nodes rule: announced_run.induct)
  case (event r n r1 ns r')
  have ok: "reg_ok L r1" using announced_entry [OF event.hyps(1) event.prems(1)] by blast
  have "in_sync (cache_event n nodes) r1" by (rule in_sync_event [OF event.prems event.hyps(1)])
  from event.IH [OF ok this] show ?case by simp
qed simp

lemma in_sync_candidates:
  assumes "in_sync nodes r" "reg_ok L r" "iteration iter"
  shows "n_id ` set (candidates role w (iter nodes)) = n_id ` suitable r role w"
proof -
  have d: "distinct (map fst nodes)" and s: "\<And>k. rel_option same_node (map_of nodes k) (find_node r k)"
    using assms(1) by (auto simp: in_sync_def)
  show ?thesis
  proof (intro equalityI subsetI)
    fix i assume "i \<in> n_id ` set (candidates role w (iter nodes))"
    then obtain k n where n: "(k, n) \<in> set nodes" "n_id n = i" "n_status n = St_ok" "n_role n = role"
      "w = [] \<or> w \<in> set (n_workers n)"
      using iteration_set [OF assms(3), of nodes] by (auto simp: candidates_def)
    then have "map_of nodes k = Some n" using d by simp
    then obtain m where m: "find_node r k = Some m" "same_node n m" using s [of k] by (auto simp: option_rel_Some1)
    then have "m \<in> suitable r role w"
      using n reg_ok_lookup [OF assms(2) m(1)] by (auto simp: suitable_def same_node_def)
    with m n show "i \<in> n_id ` suitable r role w" by (auto simp: same_node_def)
  next
    fix i assume "i \<in> n_id ` suitable r role w"
    then obtain m where m: "find_node r i = Some m" "n_id m = i" "n_status m = St_ok" "n_role m = role"
      "w = [] \<or> w \<in> set (n_workers m)" by (auto simp: suitable_def)
    then obtain n where n: "map_of nodes i = Some n" "same_node n m" using s [of i] by (auto simp: option_rel_Some2)
    then have "(i, n) \<in> set (iter nodes)" using map_of_SomeD iteration_set [OF assms(3), of nodes] by fast
    then have "n \<in> snd ` set (iter nodes)" by force
    then have "n \<in> set (candidates role w (iter nodes))"
      using n(2) m(3-5) by (auto simp: candidates_def same_node_def)
    moreover have "i = n_id n" using m(2) n(2) by (simp add: same_node_def)
    ultimately show "i \<in> n_id ` set (candidates role w (iter nodes))" by blast
  qed
qed



end
