(* ===== verification/PlatformProps.thy ===== *)
theory PlatformProps
  imports Platform
begin

text \<open>
  The single-instance lock: whatever the interleaving of system calls, a locked file has one holder,
  and as long as no instance removes the file there is one instance. Removing it on release, and
  becoming a daemon after acquiring it, both break this.
\<close>

section \<open>System calls\<close>

definition lock_of :: "os_proc \<Rightarrow> nat option" where
  "lock_of P = (case op_pid_fd P of None \<Rightarrow> None | Some fd \<Rightarrow> fd_file P fd)"

lemma set_proc_simps [simp]:
  "os_procs (set_proc p P os) = (os_procs os)(p \<mapsto> P)"
  "os_links (set_proc p P os) = os_links os" "os_data (set_proc p P os) = os_data os"
  "os_locks (set_proc p P os) = os_locks os" "os_next_file (set_proc p P os) = os_next_file os"
  "os_next_pid (set_proc p P os) = os_next_pid os"
  by (simp_all add: set_proc_def)

lemma fd_alloc_file:
  assumes "fd_alloc i fds = (fd, fds')"
  shows "fd < length fds'" "fds' ! fd = Some i"
  using assms by (auto simp: fd_alloc_def Let_def nth_append split: if_splits
      dest: le_antisym [OF length_takeWhile_le] simp: not_less)

lemma sys_open_None [dest]: "sys_open may creat path p os = (None, os') \<Longrightarrow> os' = os"
  by (auto simp: sys_open_def Let_def split: if_splits option.splits prod.splits)

text \<open>What an open that succeeds changes.\<close>

lemma sys_open_Some:
  assumes "sys_open may creat path p os = (Some fd, os')"
    and "\<forall>path i. os_links os path = Some i \<longrightarrow> i < os_next_file os"
  shows "\<exists>i fds. os_procs os' = (os_procs os)(p \<mapsto> (proc_at os p)\<lparr>op_fds := fds\<rparr>) \<and>
    fd_file ((proc_at os p)\<lparr>op_fds := fds\<rparr>) fd = Some i \<and>
    os_links os' = (os_links os)(path \<mapsto> i) \<and> os_links os path \<in> {None, Some i} \<and>
    os_locks os' = os_locks os \<and> os_next_pid os' = os_next_pid os \<and>
    os_next_file os \<le> os_next_file os' \<and> i < os_next_file os' \<and>
    (\<forall>j < os_next_file os. os_data os' j = os_data os j) \<and>
    (os_links os path = None \<longrightarrow> i = os_next_file os) \<and> length (op_fds (proc_at os p)) \<le> length fds \<and>
    length fds \<le> Suc (length (op_fds (proc_at os p)))"
proof -
  obtain i fds where *: "os_procs os' = (os_procs os)(p \<mapsto> (proc_at os p)\<lparr>op_fds := fds\<rparr>)"
    "(fd, fds) = fd_alloc i (op_fds (proc_at os p))"
    "os_links os' = (os_links os)(path \<mapsto> i)" "os_links os path = Some i \<and> os_next_file os' = os_next_file os
       \<and> os_data os' = os_data os
      \<or> os_links os path = None \<and> i = os_next_file os \<and> os_next_file os' = i + 1 \<and> os_data os' = (os_data os)(i := [])"
    "os_locks os' = os_locks os" "os_next_pid os' = os_next_pid os"
    using assms(1) by (auto simp: sys_open_def Let_def fun_upd_idem split: if_splits option.splits prod.splits)
  from fd_alloc_file [OF *(2) [symmetric]] have "fd_file ((proc_at os p)\<lparr>op_fds := fds\<rparr>) fd = Some i"
    by (simp add: fd_file_def)
  moreover from *(2) have "length (op_fds (proc_at os p)) \<le> length fds" "length fds \<le> Suc (length (op_fds (proc_at os p)))"
    by (simp_all add: fd_alloc_def Let_def split: if_splits)
  ultimately show ?thesis using *(1,3-6) assms(2) [rule_format, of path i] by (intro exI [of _ i] exI [of _ fds]) auto
qed

lemma sys_open_may:
  assumes "may path" shows "\<exists>fd os'. sys_open may True path p os = (Some fd, os')"
  using assms by (cases "os_links os path"; cases "fd_alloc (os_next_file os) (op_fds (proc_at os p))";
      cases "fd_alloc (the (os_links os path)) (op_fds (proc_at os p))") (simp_all add: sys_open_def Let_def)

lemma sys_close_procs:
  assumes "os_procs os p = Some P"
  shows "sys_close fd p os = (set_proc p (P\<lparr>op_fds := (op_fds P)[fd := None]\<rparr>) os)\<lparr>os_locks :=
     (\<lambda>i. if fd_file P fd = Some i \<and> os_locks os i = Some p then None else os_locks os i)\<rparr>"
proof (cases "fd_file P fd")
  case None
  then have "(op_fds P)[fd := None] = op_fds P"
    by (cases "fd < length (op_fds P)") (simp_all add: fd_file_def list_update_same_conv list_update_beyond)
  with None assms show ?thesis by (simp add: sys_close_def set_proc_def fun_upd_idem)
qed (use assms in \<open>auto simp: sys_close_def set_proc_def intro!: os.equality ext\<close>)

section \<open>One holder\<close>

text \<open>What holds of a process inside \<open>acquire\<close> or behind it; \<open>linked\<close>: the files are still at their paths.\<close>

definition proc_ok :: "bool \<Rightarrow> os \<Rightarrow> nat \<Rightarrow> os_proc \<Rightarrow> bool" where
  "proc_ok linked os p P \<longleftrightarrow> (op_phase P \<in> {Opened, Locked, Holding} \<longrightarrow>
     (\<exists>i. lock_of P = Some i \<and> i < os_next_file os \<and> (linked \<longrightarrow> os_links os (op_pid_path P) = Some i) \<and>
        (op_phase P \<noteq> Opened \<longrightarrow> os_locks os i = Some p) \<and> (op_phase P = Holding \<longrightarrow> os_data os i = pid_text p)))"

definition os_ok :: "bool \<Rightarrow> os \<Rightarrow> bool" where
  "os_ok linked os \<longleftrightarrow> (\<forall>path i. os_links os path = Some i \<longrightarrow> i < os_next_file os) \<and>
     (\<forall>p P. os_procs os p = Some P \<longrightarrow> p < os_next_pid os \<and> proc_ok linked os p P)"

lemma os_okD:
  assumes "os_ok linked os"
  shows "os_links os path = Some i \<Longrightarrow> i < os_next_file os"
    "os_procs os p = Some P \<Longrightarrow> p < os_next_pid os" "os_procs os p = Some P \<Longrightarrow> proc_ok linked os p P"
  using assms by (auto simp: os_ok_def)

text \<open>What a step of another process leaves alone.\<close>

definition spares :: "bool \<Rightarrow> nat \<Rightarrow> os \<Rightarrow> os \<Rightarrow> bool" where
  "spares linked p os os' \<longleftrightarrow>
     os_next_file os \<le> os_next_file os' \<and>
     (linked \<longrightarrow> (\<forall>path i. os_links os path = Some i \<longrightarrow> os_links os' path = Some i)) \<and>
     (\<forall>q i. q \<noteq> p \<longrightarrow> os_locks os i = Some q \<longrightarrow> os_locks os' i = Some q \<and> (i < os_next_file os \<longrightarrow> os_data os' i = os_data os i))"

lemma proc_ok_spares:
  assumes "proc_ok linked os q Q" and "spares linked p os os'" and "q \<noteq> p"
  shows "proc_ok linked os' q Q"
  using assms unfolding proc_ok_def spares_def by (auto; fastforce)

lemma os_ok_stepI:
  assumes ok: "os_ok linked os" and sp: "spares linked p os os'"
    and procs: "os_procs os' = (os_procs os)(p := P)" and p: "p < os_next_pid os'" and le: "os_next_pid os \<le> os_next_pid os'"
    and own: "\<And>P'. P = Some P' \<Longrightarrow> proc_ok linked os' p P'"
    and links: "\<And>path i. os_links os' path = Some i \<Longrightarrow> i < os_next_file os'"
  shows "os_ok linked os'"
  unfolding os_ok_def
proof (intro conjI, goal_cases)
  case 2
  have "q < os_next_pid os' \<and> proc_ok linked os' q Q" if Q: "os_procs os' q = Some Q" for q Q
  proof (cases "q = p")
    case True
    with Q procs p own show ?thesis by simp
  next
    case False
    with Q procs have "os_procs os q = Some Q" by simp
    with ok le proc_ok_spares [OF _ sp False] show ?thesis by (fastforce dest: os_okD)
  qed
  then show ?case by blast
qed (use links in blast)

lemmas phase_simps = proc_ok_def lock_of_def fd_file_def

lemma acquire_open_ok:
  assumes ok: "os_ok linked os" and P: "os_procs os p = Some P"
  shows "os_ok linked (acquire_open may app_name p os)"
proof -
  have lk: "\<forall>path i. os_links os path = Some i \<longrightarrow> i < os_next_file os" using os_okD(1) [OF ok] by blast
  have opened: "os_ok linked (set_proc p ((proc_at os1 p)\<lparr>op_pid_fd := Some fd, op_pid_path := path, op_phase := Opened\<rparr>) os1)"
    if o: "sys_open may True path p os = (Some fd, os1)" for fd path os1
  proof -
    obtain i fds where *: "os_procs os1 = (os_procs os)(p \<mapsto> (proc_at os p)\<lparr>op_fds := fds\<rparr>)"
      "fd_file ((proc_at os p)\<lparr>op_fds := fds\<rparr>) fd = Some i"
      "os_links os1 = (os_links os)(path \<mapsto> i)" "os_links os path \<in> {None, Some i}"
      "os_locks os1 = os_locks os" "os_next_pid os1 = os_next_pid os"
      "os_next_file os \<le> os_next_file os1" "i < os_next_file os1"
      "\<forall>j < os_next_file os. os_data os1 j = os_data os j"
      using sys_open_Some [OF o lk] by (elim exE conjE) blast
    let ?P = "P\<lparr>op_fds := fds, op_pid_fd := Some fd, op_pid_path := path, op_phase := Opened\<rparr>"
    have sp: "spares linked p os (set_proc p ?P os1)" using * by (auto simp: spares_def)
    have own: "proc_ok linked (set_proc p ?P os1) p ?P" using * P by (auto simp: phase_simps split: if_splits)
    have "os_links (set_proc p ?P os1) path' = Some j \<Longrightarrow> j < os_next_file (set_proc p ?P os1)" for path' j
      using lk * by (auto split: if_splits intro: less_le_trans)
    from os_ok_stepI [OF ok sp, where P = "Some ?P", OF _ _ _ _ this] own os_okD(2) [OF ok P]
    show ?thesis using * P by simp
  qed
  have refused: "os_ok linked (set_proc p (P\<lparr>op_pid_fd := None, op_pid_path := path, op_phase := Refused\<rparr>) os)" for path
    by (rule os_ok_stepI [OF ok, where p = p]) (use P ok in \<open>auto simp: spares_def phase_simps dest: os_okD\<close>)
  show ?thesis
    using opened refused P by (auto simp: acquire_open_def split: prod.splits option.splits dest!: sys_open_None)
qed

lemma acquire_lock_ok:
  assumes ok: "os_ok linked os" and P: "os_procs os p = Some P" "op_phase P = Opened"
  shows "os_ok linked (acquire_lock p os)"
proof -
  from os_okD(3) [OF ok P(1)] P(2) obtain fd i where i: "op_pid_fd P = Some fd" "fd_file P fd = Some i"
    "i < os_next_file os" "linked \<longrightarrow> os_links os (op_pid_path P) = Some i"
    by (auto simp: proc_ok_def lock_of_def split: option.splits)
  show ?thesis
  proof (cases "os_locks os i = None \<or> os_locks os i = Some p")
    case True
    show ?thesis
      by (rule os_ok_stepI [OF ok, where p = p and P = "Some (P\<lparr>op_phase := Locked\<rparr>)"])
        (use P i True ok in \<open>auto simp: acquire_lock_def sys_setlk_def spares_def proc_ok_def lock_of_def fd_file_def dest: os_okD\<close>)
  next
    case False
    show ?thesis
      by (rule os_ok_stepI [OF ok, where p = p and P = "Some (P\<lparr>op_fds := (op_fds P)[fd := None], op_pid_fd := None, op_phase := Refused\<rparr>)"])
        (use P i False ok in \<open>auto simp: acquire_lock_def sys_setlk_def sys_close_procs spares_def proc_ok_def lock_of_def dest: os_okD\<close>)
  qed
qed

lemma acquire_note_ok:
  assumes ok: "os_ok linked os" and P: "os_procs os p = Some P" "op_phase P = Locked"
  shows "os_ok linked (acquire_note p os)"
proof -
  from os_okD(3) [OF ok P(1)] P(2) obtain fd i where i: "op_pid_fd P = Some fd" "fd_file P fd = Some i"
    "i < os_next_file os" "linked \<longrightarrow> os_links os (op_pid_path P) = Some i" "os_locks os i = Some p"
    by (auto simp: proc_ok_def lock_of_def split: option.splits)
  show ?thesis
    by (rule os_ok_stepI [OF ok, where p = p and P = "Some (P\<lparr>op_phase := Holding\<rparr>)"])
      (use P i ok in \<open>auto simp: acquire_note_def spares_def proc_ok_def lock_of_def fd_file_def dest: os_okD\<close>)
qed

lemma release_close_ok:
  assumes ok: "os_ok linked os" and P: "os_procs os p = Some P" "op_phase P = Holding"
  shows "os_ok linked (release_close p os)"
proof -
  from os_okD(3) [OF ok P(1)] P(2) obtain fd where i: "op_pid_fd P = Some fd"
    by (auto simp: proc_ok_def lock_of_def split: option.splits)
  show ?thesis
    by (rule os_ok_stepI [OF ok, where p = p and P = "Some (P\<lparr>op_fds := (op_fds P)[fd := None], op_pid_fd := None, op_phase := Closed\<rparr>)"])
      (use P i ok in \<open>auto simp: release_close_def sys_close_procs spares_def proc_ok_def dest: os_okD\<close>)
qed

lemma release_unlink_ok:
  assumes ok: "os_ok linked os" and P: "os_procs os p = Some P" and "\<not> linked"
  shows "os_ok linked (release_unlink can p os)"
  by (rule os_ok_stepI [OF ok, where p = p and P = "Some (P\<lparr>op_phase := Idle\<rparr>)"])
    (use P ok assms(3) in \<open>auto simp: release_unlink_def spares_def proc_ok_def split: if_splits dest: os_okD\<close>)

lemma sys_exit_ok:
  assumes ok: "os_ok linked os" and P: "os_procs os p = Some P"
  shows "os_ok linked (sys_exit p os)"
  by (rule os_ok_stepI [OF ok, where p = p and P = None])
    (use P ok in \<open>auto simp: sys_exit_def spares_def dest: os_okD\<close>)

lemma started_ok:
  assumes "os_ok linked os"
  shows "os_ok linked (set_proc (os_next_pid os) fresh_proc (os\<lparr>os_next_pid := Suc (os_next_pid os)\<rparr>))"
  by (rule os_ok_stepI [OF assms, where p = "os_next_pid os" and P = "Some fresh_proc"])
    (use assms in \<open>auto simp: spares_def proc_ok_def fresh_proc_def dest: os_okD\<close>)

lemmas os_ops_ok = started_ok acquire_open_ok acquire_lock_ok acquire_note_ok release_close_ok sys_exit_ok

definition is_unlink :: "os_event \<Rightarrow> bool" where
  "is_unlink e = (case e of Unlinks p can \<Rightarrow> True | _ \<Rightarrow> False)"

lemma os_step_ok:
  assumes "os_step may app_name e os os'" and "os_ok linked os" and "linked \<Longrightarrow> \<not> is_unlink e"
  shows "os_ok linked os'"
  using assms by cases (auto intro: os_ops_ok release_unlink_ok simp: is_unlink_def)

lemma os_runs_ok:
  assumes "os_runs may app_name es os0 os" and "os_ok linked os0" and "linked \<Longrightarrow> \<not> list_ex is_unlink es"
  shows "os_ok linked os"
  using assms by (induction rule: os_runs.induct) (auto intro: os_step_ok)

definition holder :: "os \<Rightarrow> nat \<Rightarrow> string \<Rightarrow> nat \<Rightarrow> bool" where
  "holder os p path i = (case os_procs os p of None \<Rightarrow> False
     | Some P \<Rightarrow> op_phase P = Holding \<and> op_pid_path P = path \<and> lock_of P = Some i)"

lemma holderD:
  assumes "os_ok linked os" and "holder os p path i"
  shows "os_locks os i = Some p" "os_data os i = pid_text p" "linked \<Longrightarrow> os_links os path = Some i"
  using assms by (auto simp: holder_def proc_ok_def split: option.splits dest!: os_okD(3))

lemma booted_ok:
  assumes "os_procs os = (\<lambda>_. None)" and "\<And>path i. os_links os path = Some i \<Longrightarrow> i < os_next_file os"
  shows "os_ok linked os"
  using assms by (simp add: os_ok_def)

section \<open>Runs by evaluation\<close>

fun os_exec :: "(nat \<Rightarrow> string \<Rightarrow> bool) \<Rightarrow> string \<Rightarrow> os_event \<Rightarrow> os \<Rightarrow> os option" where
  "os_exec may app_name Started os =
     Some (set_proc (os_next_pid os) fresh_proc (os\<lparr>os_next_pid := Suc (os_next_pid os)\<rparr>))"
| "os_exec may app_name (Opens p) os =
     (case os_procs os p of Some P \<Rightarrow> if op_phase P = Idle then Some (acquire_open (may p) app_name p os) else None | None \<Rightarrow> None)"
| "os_exec may app_name (Locks p) os =
     (case os_procs os p of Some P \<Rightarrow> if op_phase P = Opened then Some (acquire_lock p os) else None | None \<Rightarrow> None)"
| "os_exec may app_name (Notes p) os =
     (case os_procs os p of Some P \<Rightarrow> if op_phase P = Locked then Some (acquire_note p os) else None | None \<Rightarrow> None)"
| "os_exec may app_name (Closes p) os =
     (case os_procs os p of Some P \<Rightarrow> if op_phase P = Holding then Some (release_close p os) else None | None \<Rightarrow> None)"
| "os_exec may app_name (Unlinks p can) os =
     (case os_procs os p of Some P \<Rightarrow> if op_phase P = Closed then Some (release_unlink can p os) else None | None \<Rightarrow> None)"
| "os_exec may app_name (Ends p) os = (if os_procs os p \<noteq> None then Some (sys_exit p os) else None)"

lemma os_exec_step: "os_exec may app_name e os = Some os' \<longleftrightarrow> os_step may app_name e os os'"
proof
  show "os_exec may app_name e os = Some os' \<Longrightarrow> os_step may app_name e os os'"
    by (cases e) (auto intro: os_step.intros split: option.splits if_splits)
  show "os_step may app_name e os os' \<Longrightarrow> os_exec may app_name e os = Some os'"
    by (cases rule: os_step.cases) auto
qed

primrec os_execs :: "(nat \<Rightarrow> string \<Rightarrow> bool) \<Rightarrow> string \<Rightarrow> os_event list \<Rightarrow> os \<Rightarrow> os option" where
  "os_execs may app_name [] os = Some os"
| "os_execs may app_name (e # es) os =
     (case os_exec may app_name e os of None \<Rightarrow> None | Some os' \<Rightarrow> os_execs may app_name es os')"

lemma os_execs_runs_from:
  "os_runs may app_name es0 os0 os \<Longrightarrow> os_execs may app_name es os = Some os' \<Longrightarrow> os_runs may app_name (es0 @ es) os0 os'"
proof (induction es arbitrary: es0 os)
  case (Cons e es)
  from Cons.prems(2) obtain os1 where "os_exec may app_name e os = Some os1" "os_execs may app_name es os1 = Some os'"
    by (auto split: option.splits)
  with Cons.IH [OF os_runs.snoc [OF Cons.prems(1), of e os1]] show ?case by (simp add: os_exec_step)
qed simp

lemma os_execs_runs: "os_execs may app_name es os = Some os' \<Longrightarrow> os_runs may app_name es os os'"
  using os_execs_runs_from [OF os_runs.nil] by fastforce

definition booted :: os where
  "booted = \<lparr>os_procs = (\<lambda>_. None), os_links = [''/dev/null'' \<mapsto> 0], os_data = (\<lambda>_. []), os_locks = (\<lambda>_. None),
     os_next_file = 1, os_next_pid = 1\<rparr>"

lemmas os_eval = os_exec.simps os_execs.simps booted_def fresh_proc_def acquire_open_def acquire_lock_def
  acquire_note_def release_close_def release_unlink_def sys_open_def sys_close_def sys_setlk_def fd_alloc_def
  fd_file_def set_proc_def holder_def lock_of_def is_unlink_def

lemma booted_wf: "os_procs booted = (\<lambda>_. None)" "\<forall>path i. os_links booted path = Some i \<longrightarrow> i < os_next_file booted"
  by (auto simp: booted_def split: if_splits)

text \<open>
  C38: One instance: however the system calls of any number of starting, ending and dying instances
  interleave, an instance that holds the lock has its pid in its file, and a file has one holder; and
  as long as no instance has removed the pid file, at most one instance holds the lock at each path.
\<close>

theorem single_instance:
  assumes "os_runs may app_name es os0 os" and "os_procs os0 = (\<lambda>_. None)"
    and "\<forall>path i. os_links os0 path = Some i \<longrightarrow> i < os_next_file os0"
  shows "(holder os p path i \<longrightarrow> os_data os i = pid_text p) \<and>
    (holder os p path i \<longrightarrow> holder os q path' i \<longrightarrow> p = q) \<and>
    (\<not> list_ex is_unlink es \<longrightarrow> holder os p path i \<longrightarrow> holder os q path j \<longrightarrow> p = q)"
proof -
  have any: "os_ok False os" by (rule os_runs_ok [OF assms(1) booted_ok]) (use assms in auto)
  have linked: "os_ok True os" if "\<not> list_ex is_unlink es"
    by (rule os_runs_ok [OF assms(1) booted_ok]) (use assms that in auto)
  have one: "p = q" if "holder os p path i" "holder os q path' i"
    using holderD(1) [OF any that(1)] holderD(1) [OF any that(2)] by simp
  have "p = q" if "\<not> list_ex is_unlink es" "holder os p path i" "holder os q path j"
    using holderD [OF linked, OF that(1) that(2)] holderD [OF linked, OF that(1) that(3)] by simp
  with one holderD(2) [OF any] show ?thesis by blast
qed

theorem single_instance_witness:
  "\<exists>os. os_execs (\<lambda>_ _. True) ''apr'' [Started, Opens 1, Started, Opens 2, Locks 2, Notes 2, Locks 1] booted = Some os \<and>
     holder os 2 ''/var/run/apr.pid'' 1 \<and> os_data os 1 = pid_text 2 \<and>
     (\<forall>q j. holder os q ''/var/run/apr.pid'' j \<longrightarrow> q = 2) \<and> op_phase (proc_at os 1) = Refused"
proof -
  let ?es = "[Started, Opens 1, Started, Opens 2, Locks 2, Notes 2, Locks 1]"
  obtain os where os: "os_execs (\<lambda>_ _. True) ''apr'' ?es booted = Some os"
    "holder os 2 ''/var/run/apr.pid'' 1" "op_phase (proc_at os 1) = Refused"
    by (simp add: os_eval pid_paths_def)
  note one = single_instance [OF os_execs_runs [OF os(1)] booted_wf]
  have "\<not> list_ex is_unlink ?es" by (simp add: is_unlink_def)
  with one [where q = 2 and path = "''/var/run/apr.pid''" and j = 1] one [where p = 2 and i = 1] os show ?thesis by blast
qed

text \<open>
  Releasing removes the file after it gave up the lock. In between another instance can open and lock
  the same file; then the removal hits that instance's file, and a third instance creates a new one:
  two instances hold the lock of the same path.
\<close>

theorem release_race:
  "\<exists>es os i j. os_runs (\<lambda>_ _. True) app_name es booted os \<and>
     holder os 2 (fst (pid_paths app_name)) i \<and> holder os 3 (fst (pid_paths app_name)) j"
proof -
  let ?es = "[Started, Opens 1, Locks 1, Notes 1, Closes 1, Started, Opens 2, Locks 2, Notes 2, Unlinks 1 True,
    Started, Opens 3, Locks 3, Notes 3]"
  have null: "fst (pid_paths app_name) \<noteq> ''/dev/null''" by (simp add: pid_paths_def)
  have "\<exists>os. os_execs (\<lambda>_ _. True) app_name ?es booted = Some os \<and>
    holder os 2 (fst (pid_paths app_name)) 1 \<and> holder os 3 (fst (pid_paths app_name)) 2"
    using null by (simp add: os_eval)
  then show ?thesis by (blast intro: os_execs_runs)
qed

section \<open>Daemon mode\<close>

abbreviation pid_file :: string where
  "pid_file \<equiv> ''/var/run/lightapr.pid''"

text \<open>A system in which an instance can start and nobody holds the lock.\<close>

definition lockable :: "os \<Rightarrow> bool" where
  "lockable os \<longleftrightarrow> (\<forall>path i. os_links os path = Some i \<longrightarrow> i < os_next_file os) \<and>
     (\<forall>q. os_procs os q \<noteq> None \<longrightarrow> q < os_next_pid os) \<and>
     (\<forall>i q. os_locks os i = Some q \<longrightarrow> q < os_next_pid os \<and> i < os_next_file os) \<and>
     (\<forall>i. os_links os pid_file = Some i \<longrightarrow> os_locks os i = None)"

lemma lockableD:
  assumes "lockable os"
  shows "\<forall>path i. os_links os path = Some i \<longrightarrow> i < os_next_file os"
    "os_procs os q = Some Q \<Longrightarrow> q < os_next_pid os" "os_locks os i = Some q \<Longrightarrow> q < os_next_pid os \<and> i < os_next_file os"
    "os_links os pid_file = Some i \<Longrightarrow> os_locks os i = None" "\<not> i < os_next_file os \<Longrightarrow> os_locks os i = None"
proof -
  from assms show "\<forall>path i. os_links os path = Some i \<longrightarrow> i < os_next_file os" unfolding lockable_def by blast
  from assms show "os_procs os q = Some Q \<Longrightarrow> q < os_next_pid os" unfolding lockable_def by blast
  from assms show *: "os_locks os i = Some q \<Longrightarrow> q < os_next_pid os \<and> i < os_next_file os" for q
    unfolding lockable_def by blast
  from assms show "os_links os pid_file = Some i \<Longrightarrow> os_locks os i = None" unfolding lockable_def by blast
  from * show "\<not> i < os_next_file os \<Longrightarrow> os_locks os i = None" by (cases "os_locks os i") auto
qed

lemma open_lockable:
  assumes o: "sys_open may True path p os = (Some fd, os')" and l: "lockable os" and P: "os_procs os p = Some P"
  shows "lockable os'"
proof -
  from sys_open_Some [OF o lockableD(1) [OF l]] obtain i fds where
    *: "os_procs os' = (os_procs os)(p \<mapsto> (proc_at os p)\<lparr>op_fds := fds\<rparr>)"
    "os_links os' = (os_links os)(path \<mapsto> i)" "os_links os path \<in> {None, Some i}" "os_locks os' = os_locks os"
    "os_next_pid os' = os_next_pid os" "os_next_file os \<le> os_next_file os'" "i < os_next_file os'"
    "os_links os path = None \<longrightarrow> i = os_next_file os"
    by (elim exE conjE) (rule that)
  show ?thesis
    unfolding lockable_def
  proof (intro conjI)
    show "\<forall>path i. os_links os' path = Some i \<longrightarrow> i < os_next_file os'"
      using * lockableD(1) [OF l] by (auto intro: less_le_trans)
    show "\<forall>q. os_procs os' q \<noteq> None \<longrightarrow> q < os_next_pid os'"
      using * P lockableD(2) [OF l] by auto
    show "\<forall>i q. os_locks os' i = Some q \<longrightarrow> q < os_next_pid os' \<and> i < os_next_file os'"
      using * lockableD(3) [OF l] by (auto intro: less_le_trans)
    show "\<forall>i. os_links os' pid_file = Some i \<longrightarrow> os_locks os' i = None"
      using * lockableD(4,5) [OF l] by (cases "path = pid_file"; cases "os_links os path") auto
  qed
qed

lemma logger_start_ready:
  assumes "lockable os" and "os_procs os p = Some fresh_proc"
  obtains fds fd os' where "logger_start may False log_path p os = os'" "lockable os'"
    "os_procs os' = (os_procs os)(p \<mapsto> fresh_proc\<lparr>op_fds := fds, op_log_fd := fd, op_worker := True\<rparr>)"
    "3 \<le> length fds" "length fds \<le> 4"
proof -
  let ?P = "\<lambda>fds fd. fresh_proc\<lparr>op_fds := fds, op_log_fd := fd, op_worker := True\<rparr>"
  have keep: "lockable (set_proc p P os')" if "lockable os'" "p < os_next_pid os'" for P os'
    using that by (auto simp: lockable_def)
  obtain fd os1 where o: "sys_open may True log_path p os = (fd, os1)" by (meson surj_pair)
  show thesis
  proof (cases fd)
    case None
    with o have [simp]: "os1 = os" by blast
    show thesis
      by (rule that [where fds = "op_fds fresh_proc" and fd = None, OF refl])
        (use o None assms keep in \<open>auto simp: logger_start_def fresh_proc_def fun_upd_def dest: lockableD(2)\<close>)
  next
    case (Some fd')
    from sys_open_Some [OF o [unfolded Some] lockableD(1) [OF assms(1)]] assms(2)
    obtain fds where fds: "os_procs os1 = (os_procs os)(p \<mapsto> fresh_proc\<lparr>op_fds := fds\<rparr>)" "os_next_pid os1 = os_next_pid os"
      "3 \<le> length fds" "length fds \<le> 4"
      by (auto simp: fresh_proc_def numeral_eq_Suc)
    show thesis
      by (rule that [where fds = fds and fd = fd, OF refl])
        (use o Some fds assms keep [OF open_lockable [OF o [unfolded Some] assms]] in \<open>auto simp: logger_start_def dest: lockableD(2)\<close>)
  qed
qed

lemma acquire_succeeds:
  assumes "lockable os" and P: "os_procs os p = Some P" and may: "may pid_file"
  obtains fds fd i os' where "acquire_single_instance_lock may ''lightapr'' p os = (True, os')"
    "os_procs os' = (os_procs os)(p \<mapsto> P\<lparr>op_fds := fds, op_pid_fd := Some fd, op_pid_path := pid_file, op_phase := Holding\<rparr>)"
    "length (op_fds P) \<le> length fds" "length fds \<le> Suc (length (op_fds P))"
    "os_links os' pid_file = Some i" "os_locks os' = (os_locks os)(i \<mapsto> p)" "os_locks os i = None"
    "i < os_next_file os'" "os_next_pid os' = os_next_pid os" "os_next_file os \<le> os_next_file os'"
    "\<forall>path j. os_links os' path = Some j \<longrightarrow> j < os_next_file os'"
proof -
  obtain fd os1 where o: "sys_open may True pid_file p os = (Some fd, os1)"
    using sys_open_may [of may pid_file p os] may by blast
  from sys_open_Some [OF o lockableD(1) [OF assms(1)]] P obtain i fds where
    *: "os_procs os1 = (os_procs os)(p \<mapsto> P\<lparr>op_fds := fds\<rparr>)" "fd_file (P\<lparr>op_fds := fds\<rparr>) fd = Some i"
    "os_links os1 = (os_links os)(pid_file \<mapsto> i)" "os_links os pid_file \<in> {None, Some i}"
    "os_locks os1 = os_locks os" "os_next_pid os1 = os_next_pid os" "os_next_file os \<le> os_next_file os1"
    "i < os_next_file os1" "os_links os pid_file = None \<longrightarrow> i = os_next_file os"
    "length (op_fds P) \<le> length fds" "length fds \<le> Suc (length (op_fds P))"
    by (elim exE conjE) simp
  have free: "os_locks os i = None" using *(4,9) lockableD(4,5) [OF assms(1)] by auto
  have here: "fd_file (P\<lparr>op_fds := fds, op_pid_fd := a, op_pid_path := b, op_phase := c\<rparr>) fd = Some i" for a b c
    using *(2) by (auto simp: fd_file_def split: if_splits)
  let ?P = "\<lambda>ph. P\<lparr>op_fds := fds, op_pid_fd := Some fd, op_pid_path := pid_file, op_phase := ph\<rparr>"
  define os2 where "os2 = set_proc p (?P Holding)
    (set_proc p (?P Locked) (set_proc p (?P Opened) os1\<lparr>os_locks := (os_locks os)(i \<mapsto> p)\<rparr>)\<lparr>os_data := (os_data os1)(i := pid_text p)\<rparr>)"
  have run: "acquire_single_instance_lock may ''lightapr'' p os = (True, os2)"
    using o * free here by (simp add: acquire_single_instance_lock_def acquire_open_def acquire_lock_def
        acquire_note_def sys_setlk_def pid_paths_def Let_def os2_def)
  have links: "\<forall>path j. os_links os2 path = Some j \<longrightarrow> j < os_next_file os2"
    using * lockableD(1) [OF assms(1)] by (auto simp: os2_def intro: less_le_trans)
  show thesis
    by (rule that [OF run, where fds = fds and fd = fd and i = i, OF _ _ _ _ _ free _ _ _ links])
      (use * in \<open>simp_all add: os2_def\<close>)
qed

lemma fold_close_slots:
  "length (fold (\<lambda>x fds. fds[x := None]) xs fds) = length fds \<and>
   (\<forall>x < length fds. x \<in> set xs \<or> fds ! x = None \<longrightarrow> fold (\<lambda>x fds. fds[x := None]) xs fds ! x = None)"
proof (induction xs arbitrary: fds)
  case (Cons a xs)
  have "fds[a := None] ! x = None" if "x < length fds" "x = a \<or> fds ! x = None" for x
    using that by (cases "a = x") auto
  with Cons.IH [of "fds[a := None]"] show ?case by auto
qed simp

lemma close_all_free:
  assumes P: "os_procs os p = Some P" and locks: "\<And>i. os_locks os i \<noteq> Some p" and len: "length (op_fds P) \<le> Suc m"
  shows "close_all m p os = set_proc p (P\<lparr>op_fds := replicate (length (op_fds P)) None\<rparr>) os"
proof -
  have close: "fold (\<lambda>x. sys_close x p) xs os = set_proc p (P\<lparr>op_fds := fold (\<lambda>x fds. fds[x := None]) xs (op_fds P)\<rparr>) os"
    if "os_procs os p = Some P" "\<And>i. os_locks os i \<noteq> Some p" for xs P os
    using that
  proof (induction xs arbitrary: P os)
    case (Cons x xs)
    have "sys_close x p os = set_proc p (P\<lparr>op_fds := (op_fds P)[x := None]\<rparr>) os"
      using Cons.prems(2) by (subst sys_close_procs [OF Cons.prems(1)]) (simp add: set_proc_def)
    with Cons.IH [of "set_proc p (P\<lparr>op_fds := (op_fds P)[x := None]\<rparr>) os"] Cons.prems show ?case
      by (simp add: set_proc_def)
  qed (simp add: set_proc_def fun_upd_idem)
  have "fold (\<lambda>x fds. fds[x := None]) (rev [0..<Suc m]) (op_fds P) = replicate (length (op_fds P)) None"
    using fold_close_slots [of "rev [0..<Suc m]" "op_fds P"] len by (intro nth_equalityI) (auto simp del: upt_Suc)
  with close [OF P locks] show ?thesis by (simp add: close_all_def del: upt_Suc)
qed

lemma redirect_stdio_slots:
  assumes P: "os_procs os p = Some P" and "op_fds P = replicate n None" and "3 \<le> n"
  obtains fds where "redirect_stdio may p os = set_proc p (P\<lparr>op_fds := fds\<rparr>) os" "\<And>fd. 2 < fd \<Longrightarrow> fd_file (P\<lparr>op_fds := fds\<rparr>) fd = None"
proof (cases "may ''/dev/null'' \<and> os_links os ''/dev/null'' \<noteq> None")
  case False
  then have "redirect_stdio may p os = os"
    by (auto simp: redirect_stdio_def sys_open_def)
  then show thesis
    using assms by (intro that [of "op_fds P"]) (simp_all add: set_proc_def fun_upd_idem fd_file_def)
next
  case True
  then obtain i where i: "os_links os ''/dev/null'' = Some i" by auto
  from le_Suc_ex [OF assms(3)] obtain m where n: "n = Suc (Suc (Suc m))" by auto
  have alloc: "fd_alloc i (replicate n None) = (0, Some i # replicate (Suc (Suc m)) None)"
    by (simp add: fd_alloc_def n)
  have "redirect_stdio may p os = set_proc p (P\<lparr>op_fds := Some i # Some i # Some i # replicate m None\<rparr>) os"
    using True i P assms(2) alloc
    by (simp add: redirect_stdio_def sys_open_def sys_dup2_def sys_close_def fd_file_def set_proc_def)
  then show thesis
    by (rule that) (auto simp: fd_file_def nth_Cons' split: if_splits)
qed

text \<open>The process that is left when becoming a daemon works.\<close>

lemma daemonized:
  assumes dc: "dc_fork1 dc" "dc_setsid dc" "dc_fork2 dc"
    and P: "os_procs os p = Some P" "3 \<le> length (op_fds P)" "length (op_fds P) \<le> Suc (dc_open_max dc)"
    and p: "\<And>q. os_procs os q \<noteq> None \<Longrightarrow> q < os_next_pid os" and locks: "\<And>i q. os_locks os i = Some q \<Longrightarrow> q < os_next_pid os"
  obtains fds os' where "initialize_daemon dc may p os = (True, Suc (os_next_pid os), os')"
    "os_procs os' = (os_procs os)(p := None, Suc (os_next_pid os) \<mapsto> P\<lparr>op_worker := False, op_fds := fds\<rparr>)"
    "\<And>fd. 2 < fd \<Longrightarrow> fd_file (P\<lparr>op_worker := False, op_fds := fds\<rparr>) fd = None"
    "os_links os' = os_links os" "os_next_file os' = os_next_file os" "os_next_pid os' = Suc (Suc (os_next_pid os))"
    "os_locks os' = (\<lambda>i. if os_locks os i = Some p then None else os_locks os i)"
proof -
  define n where "n = os_next_pid os"
  have lt: "p < n" "\<And>i. os_locks os i \<noteq> Some n" "\<And>i. os_locks os i \<noteq> Some (Suc n)" "os_procs os n = None" "os_procs os (Suc n) = None"
    using p [of p] p [of n] p [of "Suc n"] P(1) locks [of _ n] locks [of _ "Suc n"] by (fastforce simp: n_def)+
  let ?C = "P\<lparr>op_worker := False\<rparr>"
  define os1 where "os1 = sys_exit n (set_proc (Suc n) ?C (sys_exit p (set_proc n ?C (os\<lparr>os_next_pid := Suc n\<rparr>))\<lparr>os_next_pid := Suc (Suc n)\<rparr>))"
  have os1: "os_procs os1 = (os_procs os)(p := None, Suc n \<mapsto> ?C)" "os_links os1 = os_links os"
    "os_next_file os1 = os_next_file os" "os_next_pid os1 = Suc (Suc n)"
    "os_locks os1 = (\<lambda>i. if os_locks os i = Some p then None else os_locks os i)"
    using lt by (auto simp: os1_def sys_exit_def)
  have closed: "close_all (dc_open_max dc) (Suc n) os1 = set_proc (Suc n) (?C\<lparr>op_fds := replicate (length (op_fds P)) None\<rparr>) os1"
    using close_all_free [of os1 "Suc n" ?C "dc_open_max dc"] os1(1,5) lt(3) P(3) by simp
  let ?O = "set_proc (Suc n) (?C\<lparr>op_fds := replicate (length (op_fds P)) None\<rparr>) os1"
  obtain fds where fds: "redirect_stdio may (Suc n) ?O = set_proc (Suc n) (?C\<lparr>op_fds := fds\<rparr>) ?O"
    "\<And>fd. 2 < fd \<Longrightarrow> fd_file (?C\<lparr>op_fds := fds\<rparr>) fd = None"
    by (rule redirect_stdio_slots [of ?O "Suc n" "?C\<lparr>op_fds := replicate (length (op_fds P)) None\<rparr>" "length (op_fds P)" may])
      (use P(2) in auto)
  have "initialize_daemon dc may p os = (True, Suc n, redirect_stdio may (Suc n) (close_all (dc_open_max dc) (Suc n) os1))"
    using dc P(1) lt(1) by (simp add: initialize_daemon_def sys_fork_def os1_def n_def [symmetric] Let_def sys_exit_def set_proc_def cong: if_cong)
  with closed fds(1) have "initialize_daemon dc may p os = (True, Suc n, set_proc (Suc n) (?C\<lparr>op_fds := fds\<rparr>) ?O)" by simp
  then show thesis
    by (rule that [of _ fds, folded n_def]) (use os1 fds(2) in simp_all)
qed

lemma daemon_start:
  assumes l: "lockable os" and p: "os_procs os p = Some fresh_proc" and may: "may pid_file"
    and dc: "dc_fork1 dc" "dc_setsid dc" "dc_fork2 dc" "4 \<le> dc_open_max dc"
  obtains q Q os' where "main_start dc may False log_path p os = (Some q, os')" "lockable os'"
    "os_procs os' = (os_procs os)(p := None, q \<mapsto> Q)" "os_next_pid os \<le> q" "\<And>i. os_locks os' i \<noteq> Some q"
    "\<not> op_worker Q" "\<And>fd. 2 < fd \<Longrightarrow> fd_file Q fd = None" "op_phase Q = Holding" "op_pid_fd Q \<noteq> None"
proof -
  obtain fds lf os1 where 1: "logger_start may False log_path p os = os1" "lockable os1"
    "os_procs os1 = (os_procs os)(p \<mapsto> fresh_proc\<lparr>op_fds := fds, op_log_fd := lf, op_worker := True\<rparr>)"
    "3 \<le> length fds" "length fds \<le> 4" by (rule logger_start_ready [OF l p])
  let ?P = "fresh_proc\<lparr>op_fds := fds, op_log_fd := lf, op_worker := True\<rparr>"
  have p1: "os_procs os1 p = Some ?P" using 1(3) by simp
  obtain fds2 fd i os2 where 2: "acquire_single_instance_lock may ''lightapr'' p os1 = (True, os2)"
    "os_procs os2 = (os_procs os1)(p \<mapsto> ?P\<lparr>op_fds := fds2, op_pid_fd := Some fd, op_pid_path := pid_file, op_phase := Holding\<rparr>)"
    "length fds \<le> length fds2" "length fds2 \<le> Suc (length fds)" "os_links os2 pid_file = Some i"
    "os_locks os2 = (os_locks os1)(i \<mapsto> p)" "os_locks os1 i = None" "i < os_next_file os2"
    "os_next_pid os2 = os_next_pid os1" "os_next_file os1 \<le> os_next_file os2"
    "\<forall>path j. os_links os2 path = Some j \<longrightarrow> j < os_next_file os2"
    by (rule acquire_succeeds [where may = may, OF 1(2) p1 may]) simp
  let ?P2 = "?P\<lparr>op_fds := fds2, op_pid_fd := Some fd, op_pid_path := pid_file, op_phase := Holding\<rparr>"
  have procs: "q < os_next_pid os2" if "os_procs os2 q \<noteq> None" for q
    using that lockableD(2) [OF 1(2)] 2(2,9) p1 by (auto split: if_splits)
  have locks: "q < os_next_pid os2" if "os_locks os2 j = Some q" for j q
    using that lockableD(3) [OF 1(2)] lockableD(2) [OF 1(2) p1] 2(6,9) by (auto split: if_splits)
  have p2: "os_procs os2 p = Some ?P2" "3 \<le> length (op_fds ?P2)" "length (op_fds ?P2) \<le> Suc (dc_open_max dc)"
    using 2(2-4) 1(4,5) dc(4) by simp_all
  obtain fds3 os3 where 3: "initialize_daemon dc may p os2 = (True, Suc (os_next_pid os2), os3)"
    "os_procs os3 = (os_procs os2)(p := None, Suc (os_next_pid os2) \<mapsto> ?P2\<lparr>op_worker := False, op_fds := fds3\<rparr>)"
    "\<And>fd. 2 < fd \<Longrightarrow> fd_file (?P2\<lparr>op_worker := False, op_fds := fds3\<rparr>) fd = None"
    "os_links os3 = os_links os2" "os_next_file os3 = os_next_file os2" "os_next_pid os3 = Suc (Suc (os_next_pid os2))"
    "os_locks os3 = (\<lambda>j. if os_locks os2 j = Some p then None else os_locks os2 j)"
    by (rule daemonized [where may = may, OF dc(1-3) p2]) (erule procs, erule locks, rule that)
  have unlocked: "os_locks os3 j = Some q \<longleftrightarrow> os_locks os1 j = Some q \<and> q \<noteq> p" for j q
    using 3(7) 2(6,7) by auto
  have "lockable os3"
    unfolding lockable_def
  proof (intro conjI)
    show "\<forall>path i. os_links os3 path = Some i \<longrightarrow> i < os_next_file os3" using 2(11) 3(4,5) by simp
    show "\<forall>q. os_procs os3 q \<noteq> None \<longrightarrow> q < os_next_pid os3" using procs 3(2,6) by (auto intro: less_SucI)
    show "\<forall>i q. os_locks os3 i = Some q \<longrightarrow> q < os_next_pid os3 \<and> i < os_next_file os3"
      using lockableD(3) [OF 1(2)] 2(9,10) 3(5,6) by (fastforce simp: unlocked)
    show "\<forall>i. os_links os3 pid_file = Some i \<longrightarrow> os_locks os3 i = None"
      using 2(5,6) 3(4,7) by simp
  qed
  have le: "os_next_pid os \<le> Suc (os_next_pid os2)"
    using 1(1) 2(9) by (auto simp: logger_start_def sys_open_def Let_def split: prod.splits option.splits if_splits)
  have none: "os_locks os3 j \<noteq> Some (Suc (os_next_pid os2))" for j
    using locks [of j] 3(7) by (fastforce split: if_splits)
  have run: "main_start dc may False log_path p os = (Some (Suc (os_next_pid os2)), os3)"
    using 1(1) 2(1) 3(1) by (simp add: main_start_def)
  show thesis
    by (rule that [OF run \<open>lockable os3\<close> _ le none _ 3(3)]) (use 1(3) 2(2) 3(2) in simp_all)
qed

lemma foreground_start:
  assumes l: "lockable os" and p: "os_procs os p = Some fresh_proc" and may: "may pid_file" and dc: "\<not> dc_fork1 dc"
  obtains os' P i where "main_start dc may False log_path p os = (Some p, os')" "os_procs os' = (os_procs os)(p \<mapsto> P)"
    "op_phase P = Holding" "op_worker P" "os_links os' pid_file = Some i" "os_locks os' i = Some p"
    "\<forall>path j. os_links os' path = Some j \<longrightarrow> j < os_next_file os'"
proof -
  obtain fds lf os1 where 1: "logger_start may False log_path p os = os1" "lockable os1"
    "os_procs os1 = (os_procs os)(p \<mapsto> fresh_proc\<lparr>op_fds := fds, op_log_fd := lf, op_worker := True\<rparr>)"
    by (rule logger_start_ready [OF l p])
  let ?P = "fresh_proc\<lparr>op_fds := fds, op_log_fd := lf, op_worker := True\<rparr>"
  have p1: "os_procs os1 p = Some ?P" using 1(3) by simp
  show thesis
    by (rule acquire_succeeds [where may = may, OF 1(2) p1 may])
      (rule that, use 1 dc in \<open>auto simp: main_start_def initialize_daemon_def\<close>)
qed

lemma acquire_refused:
  assumes P: "os_procs os p = Some P" and may: "may pid_file" and i: "os_links os pid_file = Some i"
    and "os_locks os i = Some q" and "q \<noteq> p"
  shows "fst (acquire_single_instance_lock may ''lightapr'' p os) = False"
proof -
  obtain fd fds where a: "fd_alloc i (op_fds P) = (fd, fds)" by (meson surj_pair)
  from fd_alloc_file [OF a] have "fd_file (P\<lparr>op_fds := fds, op_pid_fd := b, op_pid_path := c, op_phase := d\<rparr>) fd = Some i" for b c d
    by (simp add: fd_file_def)
  then show ?thesis
    using assms a by (simp add: acquire_single_instance_lock_def acquire_open_def acquire_lock_def sys_open_def
        sys_setlk_def sys_close_def pid_paths_def Let_def)
qed

text \<open>
  C39: In daemon mode (the default) the single-instance lock does not work. The instance takes the lock
  and then forks twice: the process that is left holds no lock, has lost the pid file, the log file and
  the logger's thread, but believes it holds the lock; and a second instance starts beside it in the
  same way. Only where becoming a daemon fails at its first fork does the lock keep a second one out.
\<close>

theorem daemon_mode_second_instance:
  assumes "lockable os" and "os_procs os p = Some fresh_proc" and "os_procs os r = Some fresh_proc" and "p \<noteq> r"
    and "may pid_file" and "dc_setsid dc" and "dc_fork2 dc" and "4 \<le> dc_open_max dc"
    and "log_path \<noteq> pid_file"
  shows "(dc_fork1 dc \<longrightarrow> (\<exists>q Q os' q' os''.
      main_start dc may False log_path p os = (Some q, os') \<and> os_procs os' q = Some Q \<and>
      (\<forall>i. os_locks os' i \<noteq> Some q) \<and> (\<forall>fd > 2. fd_file Q fd = None) \<and> \<not> op_worker Q \<and>
      op_phase Q = Holding \<and> op_pid_fd Q \<noteq> None \<and>
      main_start dc may False log_path r os' = (Some q', os'') \<and> q' \<noteq> q \<and> os_procs os'' q = Some Q)) \<and>
    (\<not> dc_fork1 dc \<longrightarrow> (\<exists>os'. main_start dc may False log_path p os = (Some p, os') \<and>
      fst (main_start dc may False log_path r os') = None))"
proof (intro conjI impI)
  assume f: "dc_fork1 dc"
  obtain q Q os' where 1: "main_start dc may False log_path p os = (Some q, os')" "lockable os'"
    "os_procs os' = (os_procs os)(p := None, q \<mapsto> Q)" "os_next_pid os \<le> q" "\<And>i. os_locks os' i \<noteq> Some q"
    "\<not> op_worker Q" "\<And>fd. 2 < fd \<Longrightarrow> fd_file Q fd = None" "op_phase Q = Holding" "op_pid_fd Q \<noteq> None"
    by (rule daemon_start [where may = may and log_path = log_path, OF assms(1,2,5) f assms(6-8)]) (rule that)
  have r: "r \<noteq> q" using 1(4) lockableD(2) [OF assms(1,3)] by simp
  have "os_procs os' r = Some fresh_proc" using 1(3) r assms(3,4) by simp
  with 1(2) obtain q' Q' os'' where 2: "main_start dc may False log_path r os' = (Some q', os'')"
    "os_procs os'' = (os_procs os')(r := None, q' \<mapsto> Q')" "os_next_pid os' \<le> q'"
    by (rule daemon_start [where may = may and log_path = log_path, OF _ _ assms(5) f assms(6-8)])
  have "q' \<noteq> q" using 2(3) lockableD(2) [OF 1(2), of q Q] 1(3) by auto
  with 1 2 r show "\<exists>q Q os' q' os''.
      main_start dc may False log_path p os = (Some q, os') \<and> os_procs os' q = Some Q \<and>
      (\<forall>i. os_locks os' i \<noteq> Some q) \<and> (\<forall>fd > 2. fd_file Q fd = None) \<and> \<not> op_worker Q \<and>
      op_phase Q = Holding \<and> op_pid_fd Q \<noteq> None \<and>
      main_start dc may False log_path r os' = (Some q', os'') \<and> q' \<noteq> q \<and> os_procs os'' q = Some Q"
    by (intro exI [of _ q] exI [of _ Q] exI [of _ os'] exI [of _ q'] exI [of _ os'']) simp
next
  assume f: "\<not> dc_fork1 dc"
  obtain os' P i where 1: "main_start dc may False log_path p os = (Some p, os')" "os_procs os' = (os_procs os)(p \<mapsto> P)"
    "os_links os' pid_file = Some i" "os_locks os' i = Some p" "\<forall>path j. os_links os' path = Some j \<longrightarrow> j < os_next_file os'"
    by (rule foreground_start [where may = may and log_path = log_path, OF assms(1,2,5) f])
  have r: "os_procs os' r = Some fresh_proc" using 1(2) assms(3,4) by simp
  let ?l = "logger_start may False log_path r os'"
  obtain R where l: "os_procs ?l r = Some R" "os_links ?l pid_file = Some i" "os_locks ?l i = Some p"
  proof -
    obtain fd os1 where o: "sys_open may True log_path r os' = (fd, os1)" by (meson surj_pair)
    show thesis
      using that o sys_open_Some [of may True log_path r os' _ os1, OF _ 1(5)] 1(3,4) assms(9)
      by (cases fd) (fastforce simp: logger_start_def)+
  qed
  from acquire_refused [where may = may, OF l(1) assms(5) l(2,3) assms(4)]
  have "fst (main_start dc may False log_path r os') = None"
    by (cases "acquire_single_instance_lock may ''lightapr'' r ?l") (simp add: main_start_def)
  with 1(1) show "\<exists>os'. main_start dc may False log_path p os = (Some p, os') \<and>
      fst (main_start dc may False log_path r os') = None" by blast
qed

definition two_started :: os where
  "two_started = booted\<lparr>os_procs := [1 \<mapsto> fresh_proc, 2 \<mapsto> fresh_proc], os_next_pid := 3\<rparr>"

theorem daemon_mode_second_instance_witness:
  "\<exists>q os' q' os''. let dc = \<lparr>dc_fork1 = True, dc_setsid = True, dc_fork2 = True, dc_open_max = 1024\<rparr> in
     main_start dc (\<lambda>_. True) False ''lightapr.log'' 1 two_started = (Some q, os') \<and>
     (\<forall>i. os_locks os' i \<noteq> Some q) \<and>
     main_start dc (\<lambda>_. True) False ''lightapr.log'' 2 os' = (Some q', os'') \<and> q' \<noteq> q"
proof -
  have "lockable two_started" by (auto simp: lockable_def two_started_def booted_def split: if_splits)
  from daemon_mode_second_instance [OF this, where p = 1 and r = 2 and may = "\<lambda>_. True" and log_path = "''lightapr.log''"
      and dc = "\<lparr>dc_fork1 = True, dc_setsid = True, dc_fork2 = True, dc_open_max = 1024\<rparr>"]
  show ?thesis by (auto simp: two_started_def)
qed

text \<open>With BSD's \<open>daemon\<close> the process that is left has no lock either.\<close>

lemma bsd_daemon_unlocked:
  assumes "\<And>i q. os_locks os i = Some q \<Longrightarrow> q < os_next_pid os" and "p < os_next_pid os" and "os_procs os p = Some P"
    and "bsd_initialize_daemon True may p os = (ok, q, os')"
  shows "os_locks os' i \<noteq> Some q \<and> os_locks os' i \<noteq> Some p"
proof -
  let ?n = "os_next_pid os"
  let ?o = "sys_exit p (set_proc ?n (P\<lparr>op_worker := False\<rparr>) (os\<lparr>os_next_pid := Suc ?n\<rparr>))"
  have free: "os_locks ?o j \<noteq> Some ?n \<and> os_locks ?o j \<noteq> Some p" for j
    using assms(1) [of j ?n] assms(2) by (auto simp: sys_exit_def)
  have close: "os_locks (sys_close fd r x) = os_locks x" if "\<And>j. os_locks x j \<noteq> Some r" for fd r x
    using that by (auto simp: sys_close_def split: option.split)
  have dup: "os_locks (sys_dup2 a b r x) = os_locks x" if "\<And>j. os_locks x j \<noteq> Some r" for a b r x
    using close [OF that] by (simp add: sys_dup2_def Let_def)
  have "os_locks (redirect_stdio may ?n ?o) = os_locks ?o"
  proof (cases "sys_open may False ''/dev/null'' ?n ?o")
    case (Pair fd o1)
    then have "os_locks o1 = os_locks ?o"
      by (auto simp: sys_open_def Let_def split: if_splits option.splits prod.splits)
    with Pair free show ?thesis by (auto simp: redirect_stdio_def Let_def dup close split: option.split)
  qed
  with free assms(3,4) show ?thesis by (auto simp: bsd_initialize_daemon_def sys_fork_def)
qed

text \<open>On Windows one instance at most has the lock, through any sequence of starts and ends.\<close>

definition win_ok :: "win_os \<Rightarrow> bool" where
  "win_ok os \<longleftrightarrow> (\<forall>n. length (wo_objects os n) \<le> 1) \<and> (\<forall>p n. wo_handle os p = Some n \<longrightarrow> wo_objects os n = [p])"

lemma win_acquire_ok: "win_ok os \<Longrightarrow> win_ok (snd (win_acquire created app_name p os))"
  by (auto simp: win_ok_def win_acquire_def Let_def)

lemma win_release_ok: "win_ok os \<Longrightarrow> win_ok (win_release p os)"
proof (cases "wo_handle os p")
  case (Some n)
  assume ok: "win_ok os"
  with Some have n: "wo_objects os n = [p]" by (simp add: win_ok_def)
  show ?thesis
    using ok unfolding win_ok_def
    by (auto simp: win_release_def Some n) (metis list.inject n)
qed (simp add: win_release_def)

lemma win_one_holder:
  assumes "win_ok os" and "wo_handle os p = Some n" and "wo_handle os q = Some n"
  shows "p = q"
  using assms unfolding win_ok_def by (metis list.inject)

end
