(* ===== verification/Listener.thy ===== *)
theory Listener
  imports MqttSession HttpServer
begin

text \<open>
  The acceptors of the servers (\<open>start\<close>, \<open>stop\<close> and the loop of \<open>do_accept\<close> in
  \<open>src/mqtt/mqtt_server.cpp\<close> and \<open>src/http/http_server.cpp\<close>): whether the acceptor is open and
  whether an \<open>async_accept\<close> is pending. Closing the acceptor does not withdraw a completion that is
  already on its way, with a connection or with an error.
\<close>

record listener =
  li_open :: bool
  li_accepting :: bool

text \<open>The constructors bind the port and open the acceptor, or throw.\<close>

definition listener_new :: listener where
  "listener_new = \<lparr>li_open = True, li_accepting = False\<rparr>"

definition do_accept :: "listener \<Rightarrow> listener" where
  "do_accept l = l\<lparr>li_accepting := True\<rparr>"

definition mqtt_server_start :: "listener \<Rightarrow> listener" where
  "mqtt_server_start l = do_accept l"

definition http_server_start :: "listener \<Rightarrow> listener" where
  "http_server_start l = do_accept l"

definition http_server_stop :: "listener \<Rightarrow> listener" where
  "http_server_stop l = l\<lparr>li_open := False\<rparr>"

text \<open>\<open>stop\<close> of the MQTT server also drops its sessions.\<close>

definition mqtt_listener_stop :: "mqtt_env \<Rightarrow> nat \<Rightarrow> listener \<Rightarrow> mqtt_world \<Rightarrow> listener \<times> mqtt_world outcome" where
  "mqtt_listener_stop env server l w = (l\<lparr>li_open := False\<rparr>, mqtt_server_stop env server w)"

text \<open>The completion handler: a connection is admitted or refused, an error is ignored, and the next
  \<open>async_accept\<close> is issued if the acceptor is open.\<close>

definition accept_again :: "listener \<Rightarrow> listener" where
  "accept_again l = (let l = l\<lparr>li_accepting := False\<rparr> in if li_open l then do_accept l else l)"

definition mqtt_accept_done :: "connection_limits \<Rightarrow> int \<Rightarrow> nat \<Rightarrow> bool \<Rightarrow> string \<Rightarrow> string \<Rightarrow> listener \<Rightarrow> mqtt_world \<Rightarrow>
    listener \<times> mqtt_world" where
  "mqtt_accept_done lim now server ec peer_ip session_peer l w =
     (accept_again l, if ec then w else mqtt_accept lim now server peer_ip session_peer w)"

definition http_accept_done :: "connection_limits \<Rightarrow> int \<Rightarrow> bool \<Rightarrow> string \<Rightarrow> string \<Rightarrow> listener \<Rightarrow> guard \<Rightarrow>
    listener \<times> http_session option \<times> guard" where
  "http_accept_done lim now ec peer_ip session_peer l g =
     (accept_again l, if ec then (None, g) else http_accept lim now peer_ip session_peer g)"

datatype listener_event = Accept_done | Listener_stopped

fun listener_step :: "listener_event \<Rightarrow> listener \<Rightarrow> listener" where
  "listener_step Accept_done l = (if li_accepting l then accept_again l else l)"
| "listener_step Listener_stopped l = l\<lparr>li_open := False\<rparr>"

text \<open>
  As long as a started listener is open, an accept is pending, whatever the earlier ones returned; and
  once it is stopped, at most one more completion is handled.
\<close>

interpretation li: event_driven listener_step "\<lambda>l. li_open l \<longrightarrow> li_accepting l"
proof
  fix l :: listener and e
  assume "li_open l \<longrightarrow> li_accepting l"
  then show "li_open (listener_step e l) \<longrightarrow> li_accepting (listener_step e l)"
    by (cases e) (simp_all add: accept_again_def do_accept_def Let_def)
qed

lemma listener_keeps_accepting:
  "li_open (fold listener_step es (do_accept listener_new)) \<Longrightarrow> li_accepting (fold listener_step es (do_accept listener_new))"
  using li.run_inv [of "do_accept listener_new" es] by (simp add: do_accept_def)

lemma stopped_listener_step: "\<not> li_open l \<Longrightarrow> \<not> li_open (listener_step e l)"
  by (cases e) (simp_all add: accept_again_def Let_def)

lemma stopped_listener_ends:
  assumes "\<not> li_open l" "Accept_done \<in> set es"
  shows "\<not> li_accepting (fold listener_step es l)"
proof -
  have idle: "\<not> li_open l \<Longrightarrow> \<not> li_accepting l \<Longrightarrow> \<not> li_accepting (fold listener_step es l)" for l es
  proof (induction es arbitrary: l)
    case (Cons e es)
    then show ?case using stopped_listener_step [of l e] by (cases e) simp_all
  qed simp
  show ?thesis using assms
  proof (induction es arbitrary: l)
    case (Cons e es)
    show ?case
    proof (cases e)
      case Accept_done
      then show ?thesis using Cons.prems idle [of "listener_step e l" es] stopped_listener_step [of l e]
        by (simp add: accept_again_def Let_def)
    next
      case Listener_stopped
      then show ?thesis using Cons by simp
    qed
  qed simp
qed

end
