(* ===== verification/SdkStart.thy ===== *)
theory SdkStart
  imports SdkProps MqttTransport HttpParsing
begin

text \<open>
  Starting and stopping the client (\<open>apr_client::impl::start\<close>, \<open>stop\<close> and the calls of its interface).
  The network is an argument: whether connecting succeeds, what the handshake reads return, which
  write fails, what the snapshot's address answers, and the texts of exceptions.
\<close>

section \<open>The network and the session\<close>

record sdk_network =
  sn_connect :: "string \<Rightarrow> string \<Rightarrow> string option"
  sn_reads :: "string list"
  sn_write :: "nat \<Rightarrow> string option"
  sn_snapshot :: "string \<Rightarrow> string \<Rightarrow> string \<Rightarrow> string option"
  sn_what :: "fault \<Rightarrow> string"
  sn_nonce :: string
  sn_rand1 :: nat
  sn_rand2 :: nat

record sdk_session =
  ss_client :: sdk_client
  ss_sent :: "bytes list"
  ss_error :: string
  ss_running :: bool

definition sdk_session_new :: sdk_session where
  "sdk_session_new = \<lparr>ss_client = sdk_client_new False, ss_sent = [], ss_error = [], ss_running = False\<rparr>"

text \<open>A step of \<open>start\<close>: it goes on, or it ends with the text that becomes \<open>last_error\<close>.\<close>

type_synonym sdk_step = "(string \<times> sdk_session) + sdk_session"

fun sdk_then :: "sdk_step \<Rightarrow> (sdk_session \<Rightarrow> sdk_step) \<Rightarrow> sdk_step" where
  "sdk_then (Inl e) f = Inl e"
| "sdk_then (Inr s) f = f s"

section \<open>Starting\<close>

definition sdk_write :: "sdk_network \<Rightarrow> bytes \<Rightarrow> sdk_session \<Rightarrow> sdk_step" where
  "sdk_write net data s =
     (case sn_write net (length (ss_sent s)) of
        Some e \<Rightarrow> Inl (e, s) | None \<Rightarrow> Inr (s\<lparr>ss_sent := ss_sent s @ [data]\<rparr>))"

text \<open>Reading the handshake's response: until the blank line, an error or the end of the stream.\<close>

fun read_response :: "string list \<Rightarrow> string \<Rightarrow> string" where
  "read_response chunks resp =
     (if find_sub (crlf @ crlf) resp \<noteq> None then resp
      else case chunks of [] \<Rightarrow> resp | c # cs \<Rightarrow> if c = [] then resp else read_response cs (resp @ c))"

declare read_response.simps [simp del]

lemma read_response_one: "resp \<noteq> [] \<Longrightarrow> read_response [resp] [] = resp"
  by (subst read_response.simps) (simp add: read_response.simps [of "[]"] crlf_def)

definition sdk_handshake :: "sdk_network \<Rightarrow> string \<Rightarrow> string \<Rightarrow> string \<Rightarrow> sdk_session \<Rightarrow> sdk_step" where
  "sdk_handshake net path host port s =
     sdk_then (sdk_write net (bytes_of_string (upgrade_request path host port (sn_nonce net))) s) (\<lambda>s.
       if find_sub ''101'' (read_response (sn_reads net) []) = None
       then Inl (''WebSocket handshake was not accepted (no HTTP 101 response)'', s) else Inr s)"

definition sdk_send :: "sdk_network \<Rightarrow> bytes \<Rightarrow> sdk_session \<Rightarrow> sdk_step" where
  "sdk_send net packet s = sdk_write net (send_bytes (sc_is_ws (ss_client s)) packet) s"

definition publish_metadata :: "json_lib \<Rightarrow> client_options \<Rightarrow> sdk_network \<Rightarrow> sdk_session \<Rightarrow> sdk_step" where
  "publish_metadata L opts net s =
     (case json_dump L (meta_json opts) of
        Inl e \<Rightarrow> Inl (sn_what net e, s) | Inr j \<Rightarrow> sdk_send net (sdk_publish ''apr/node/meta'' j) s)"

definition take_snapshot :: "json_lib \<Rightarrow> client_options \<Rightarrow> sdk_network \<Rightarrow> sdk_client \<Rightarrow> sdk_client" where
  "take_snapshot L opts net c =
     (let (host, port) = snapshot_address (cl_http_url opts)
      in case sn_snapshot net host port (snapshot_request host) of None \<Rightarrow> c | Some resp \<Rightarrow> fetch_snapshot L resp c)"

text \<open>The steps after the handshake.\<close>

definition opening_chain :: "json_lib \<Rightarrow> client_options \<Rightarrow> sdk_network \<Rightarrow> sdk_session \<Rightarrow> sdk_step" where
  "opening_chain L opts net s =
     sdk_then (sdk_send net (sdk_connect opts (sn_rand1 net) (sn_rand2 net)) s) (\<lambda>s.
     sdk_then (sdk_send net (sdk_subscribe ''apr/+'') s) (\<lambda>s.
     sdk_then (publish_metadata L opts net s) (\<lambda>s.
       Inr (s\<lparr>ss_client := reconcile_queue (take_snapshot L opts net (ss_client s)), ss_running := True\<rparr>))))"

definition sdk_start :: "json_lib \<Rightarrow> client_options \<Rightarrow> sdk_network \<Rightarrow> sdk_session \<Rightarrow> bool \<times> sdk_session" where
  "sdk_start L opts net s =
     (let s = s\<lparr>ss_error := []\<rparr>;
          (scheme, host, port, path) = parse_url (cl_mqtt_url opts);
          ws = (scheme = ''ws'' \<or> scheme = ''wss'');
          s = s\<lparr>ss_client := (ss_client s)\<lparr>sc_is_ws := ws\<rparr>\<rparr>
      in case (case sn_connect net host port of
                 Some e \<Rightarrow> Inl (e, s)
               | None \<Rightarrow>
                   sdk_then (if ws then sdk_handshake net path host port s else Inr s) (opening_chain L opts net)) of
           Inl (e, s) \<Rightarrow> (False, s\<lparr>ss_error := e\<rparr>)
         | Inr s \<Rightarrow> (True, s))"

text \<open>\<open>stop\<close> ignores a failing write, and does not frame its DISCONNECT.\<close>

definition sdk_stop :: "sdk_network \<Rightarrow> sdk_session \<Rightarrow> sdk_session" where
  "sdk_stop net s =
     (if ss_running s
      then let s = s\<lparr>ss_running := False\<rparr>
           in case sdk_write net [0xE0, 0x00] s of Inl (e, s) \<Rightarrow> s | Inr s \<Rightarrow> s
      else s)"

text \<open>The destructor.\<close>

definition sdk_impl_destroy :: "sdk_network \<Rightarrow> sdk_session \<Rightarrow> sdk_session" where
  "sdk_impl_destroy net s = sdk_stop net s"

section \<open>The other calls\<close>

definition get_local_registry :: "((string \<times> node_info) list \<Rightarrow> (string \<times> node_info) list) \<Rightarrow> sdk_client \<Rightarrow> node_info list" where
  "get_local_registry iter c = map snd (iter (sc_nodes c))"

definition publish_app_event :: "sdk_network \<Rightarrow> string \<Rightarrow> string \<Rightarrow> string \<Rightarrow> sdk_session \<Rightarrow> sdk_step" where
  "publish_app_event net target_role worker payload s =
     sdk_send net (sdk_publish (app_topic target_role worker) payload) s"

definition publish_extra :: "json_lib \<Rightarrow> sdk_network \<Rightarrow> string \<Rightarrow> json \<Rightarrow> sdk_session \<Rightarrow> sdk_step" where
  "publish_extra L net worker extra s =
     (case json_dump L (extra_json worker extra) of
        Inl e \<Rightarrow> Inl (sn_what net e, s) | Inr j \<Rightarrow> sdk_send net (sdk_publish ''apr/node/extra'' j) s)"

definition set_node_status_callback :: "bool \<Rightarrow> sdk_client \<Rightarrow> sdk_client" where
  "set_node_status_callback has_cb c = c\<lparr>sc_status_cb := has_cb\<rparr>"

section \<open>What starting does\<close>

text \<open>The bytes of a start that goes through.\<close>

definition opening_bytes :: "client_options \<Rightarrow> sdk_network \<Rightarrow> string \<Rightarrow> bytes list" where
  "opening_bytes opts net j =
     (case parse_url (cl_mqtt_url opts) of (scheme, host, port, path) \<Rightarrow>
        let ws = (scheme = ''ws'' \<or> scheme = ''wss'')
        in (if ws then [bytes_of_string (upgrade_request path host port (sn_nonce net))] else []) @
           map (send_bytes ws) [sdk_connect opts (sn_rand1 net) (sn_rand2 net), sdk_subscribe ''apr/+'',
             sdk_publish ''apr/node/meta'' j])"

lemma sdk_then_Inr: "sdk_then m f = Inr s' \<longleftrightarrow> (\<exists>s. m = Inr s \<and> f s = Inr s')"
  by (cases m) auto

lemma sdk_write_Inr: "sdk_write net d s = Inr s' \<longleftrightarrow>
    sn_write net (length (ss_sent s)) = None \<and> s' = s\<lparr>ss_sent := ss_sent s @ [d]\<rparr>"
  by (auto simp: sdk_write_def split: option.splits)

lemma take_snapshot_ws: "sc_is_ws (take_snapshot L opts net c) = sc_is_ws c"
  "sc_queue (take_snapshot L opts net c) = sc_queue c"
  by (auto simp: take_snapshot_def fetch_snapshot_def split: prod.split option.split sum.split json.split)

lemma sdk_then_Inl: "sdk_then m f = Inl x \<longleftrightarrow> m = Inl x \<or> (\<exists>s. m = Inr s \<and> f s = Inl x)"
  by (cases m) auto

lemma sdk_write_Inl: "sdk_write net d s = Inl (e, s') \<Longrightarrow> s' = s"
  by (auto simp: sdk_write_def split: option.splits)

lemma opening_chain_Inr:
  "opening_chain L opts net s = Inr s' \<longleftrightarrow>
     (let n = length (ss_sent s); ws = sc_is_ws (ss_client s) in
      sn_write net n = None \<and> sn_write net (n + 1) = None \<and> sn_write net (n + 2) = None \<and>
      (\<exists>j. json_dump L (meta_json opts) = Inr j \<and>
         s' = s\<lparr>ss_sent := ss_sent s @ map (send_bytes ws) [sdk_connect opts (sn_rand1 net) (sn_rand2 net),
                  sdk_subscribe ''apr/+'', sdk_publish ''apr/node/meta'' j],
                ss_client := reconcile_queue (take_snapshot L opts net (ss_client s)), ss_running := True\<rparr>))"
  by (auto simp: opening_chain_def sdk_then_Inr sdk_send_def sdk_write_Inr publish_metadata_def Let_def
      split: sum.splits)

lemma opening_chain_Inl: "opening_chain L opts net s = Inl (e, s') \<Longrightarrow> ss_running s' = ss_running s"
  by (auto simp: opening_chain_def sdk_then_Inl sdk_send_def sdk_write_Inr publish_metadata_def
      dest!: sdk_write_Inl split: sum.splits)

text \<open>
  C36: The client's start follows the documented procedure: it succeeds exactly if connecting, the
  handshake over WebSocket, every write and printing the announcement succeed; then it has written
  the upgrade request (if any), CONNECT, the subscription to \<open>apr/+\<close> and the announcement, in this
  order and framed for its transport, its cache is the snapshot, and it is running. If anything fails
  it returns false and is not running.
\<close>

theorem sdk_start_sequence:
  "case parse_url (cl_mqtt_url opts) of (scheme, host, port, path) \<Rightarrow>
   (let ws = (scheme = ''ws'' \<or> scheme = ''wss''); (ok, s) = sdk_start L opts net sdk_session_new in
     ok = (sn_connect net host port = None \<and>
       (ws \<longrightarrow> find_sub ''101'' (read_response (sn_reads net) []) \<noteq> None) \<and>
       (\<forall>n < (if ws then 4 else 3). sn_write net n = None) \<and> (\<exists>j. json_dump L (meta_json opts) = Inr j)) \<and>
     ss_running s = ok \<and>
     (ok \<longrightarrow> (\<exists>j. json_dump L (meta_json opts) = Inr j \<and> ss_sent s = opening_bytes opts net j) \<and>
       ss_error s = [] \<and> sc_is_ws (ss_client s) = ws \<and> sc_reconciled (ss_client s) \<and>
       sc_nodes (ss_client s) = sc_nodes (take_snapshot L opts net (sdk_client_new ws))))"
proof -
  obtain scheme host port path where u: "parse_url (cl_mqtt_url opts) = (scheme, host, port, path)"
    by (metis prod_cases4)
  define ws where "ws = (scheme = ''ws'' \<or> scheme = ''wss'')"
  let ?s0 = "sdk_session_new\<lparr>ss_client := sdk_client_new ws\<rparr>"
  let ?up = "bytes_of_string (upgrade_request path host port (sn_nonce net))"
  let ?s1 = "if ws then ?s0\<lparr>ss_sent := [?up]\<rparr> else ?s0"
  let ?n = "if ws then 1 else 0 :: nat"
  have s0: "sdk_session_new\<lparr>ss_error := [], ss_client := (ss_client (sdk_session_new\<lparr>ss_error := []\<rparr>))\<lparr>sc_is_ws := ws\<rparr>\<rparr> = ?s0"
    by (simp add: sdk_session_new_def sdk_client_new_def)
  define W where "W = (case sn_connect net host port of Some e \<Rightarrow> Inl (e, ?s0)
     | None \<Rightarrow> sdk_then (if ws then sdk_handshake net path host port ?s0 else Inr ?s0) (opening_chain L opts net))"
  have start: "sdk_start L opts net sdk_session_new = (case W of Inl (e, s) \<Rightarrow> (False, s\<lparr>ss_error := e\<rparr>) | Inr s \<Rightarrow> (True, s))"
    by (simp only: sdk_start_def W_def u Let_def prod.case s0 flip: ws_def)
  have ok: "(\<exists>s. W = Inr s) \<longleftrightarrow> sn_connect net host port = None \<and>
       (ws \<longrightarrow> sn_write net 0 = None \<and> find_sub ''101'' (read_response (sn_reads net) []) \<noteq> None) \<and>
       sn_write net ?n = None \<and> sn_write net (?n + 1) = None \<and> sn_write net (?n + 2) = None \<and>
       (\<exists>j. json_dump L (meta_json opts) = Inr j)"
    by (cases ws) (auto simp: W_def sdk_then_Inr sdk_handshake_def sdk_write_Inr opening_chain_Inr Let_def numeral_2_eq_2 numeral_3_eq_3
        sdk_session_new_def split: option.split)
  have writes: "(\<forall>n < (if ws then 4 else 3 :: nat). sn_write net n = None) \<longleftrightarrow>
      (ws \<longrightarrow> sn_write net 0 = None) \<and> sn_write net ?n = None \<and> sn_write net (?n + 1) = None \<and> sn_write net (?n + 2) = None"
    by (auto simp: numeral_eq_Suc All_less_Suc)
  have result: "s' = ?s1\<lparr>ss_sent := opening_bytes opts net j,
        ss_client := reconcile_queue (take_snapshot L opts net (sdk_client_new ws)), ss_running := True\<rparr>"
    if "W = Inr s'" "json_dump L (meta_json opts) = Inr j" for s' j
    using that by (cases ws) (auto simp: W_def sdk_then_Inr sdk_handshake_def sdk_write_Inr opening_chain_Inr Let_def numeral_2_eq_2 numeral_3_eq_3
        sdk_session_new_def opening_bytes_def u ws_def [symmetric] sdk_client_new_def split: option.splits if_splits)
  have failed: "\<not> ss_running s'" if "W = Inl (e, s')" for e s'
    using that by (cases ws) (auto simp: W_def sdk_then_Inl sdk_then_Inr sdk_write_Inr sdk_handshake_def sdk_session_new_def
        dest!: sdk_write_Inl opening_chain_Inl split: option.splits if_splits)
  have queue: "sc_queue (take_snapshot L opts net (sdk_client_new ws)) = []"
    by (simp add: take_snapshot_ws) (simp add: sdk_client_new_def)
  show ?thesis
  proof (cases W)
    case (Inr s')
    then obtain j where j: "json_dump L (meta_json opts) = Inr j" using ok by blast
    have "ss_sent s' = opening_bytes opts net j" "ss_running s'" "ss_error s' = []"
      "ss_client s' = reconcile_queue (take_snapshot L opts net (sdk_client_new ws))"
      using result [OF Inr j] by (simp_all add: sdk_session_new_def)
    moreover have "sc_is_ws (sdk_client_new ws) = ws" by (simp add: sdk_client_new_def)
    ultimately show ?thesis
      using ok Inr j queue unfolding u prod.case Let_def ws_def [symmetric] start writes
      by (simp add: reconcile_queue_def take_snapshot_ws)
  next
    case (Inl x)
    obtain e s' where x: "x = (e, s')" by (cases x)
    have "\<not> ss_running s'" using failed Inl x by blast
    then show ?thesis
      using ok Inl x unfolding u prod.case Let_def ws_def [symmetric] start writes by auto
  qed
qed

definition calm_network :: sdk_network where
  "calm_network = \<lparr>sn_connect = \<lambda>h p. None, sn_reads = [], sn_write = \<lambda>n. None, sn_snapshot = \<lambda>h p r. None,
     sn_what = \<lambda>e. [], sn_nonce = [], sn_rand1 = 1, sn_rand2 = 2\<rparr>"

theorem sdk_start_sequence_witness:
  "\<exists>s j. sdk_start toy_lib client_default calm_network sdk_session_new = (True, s) \<and> ss_running s \<and>
     ss_sent s = opening_bytes client_default calm_network j"
proof -
  have u: "parse_url (cl_mqtt_url client_default) = (''mqtt'', ''127.0.0.1'', ''1883'', ''/'')"
    by (simp add: client_default_def parse_url_def find_char_def starts_with_def)
  have j: "\<exists>j. json_dump toy_lib (meta_json client_default) = Inr j" by (simp add: toy_lib_def split: json.split)
  from sdk_start_sequence [where opts = client_default and L = toy_lib and net = calm_network] show ?thesis
    using j unfolding u by (auto simp: calm_network_def split: prod.splits)
qed

section \<open>The upgrade reaches the server\<close>

definition no_line_end :: "string \<Rightarrow> bool" where
  "no_line_end s = (CHR 0x0D \<notin> set s \<and> CHR 0x0A \<notin> set s)"

definition upgrade_lines :: "string \<Rightarrow> string \<Rightarrow> string \<Rightarrow> string \<Rightarrow> string list" where
  "upgrade_lines path host port nonce =
     [''GET '' @ path @ '' HTTP/1.1'', ''Host: '' @ host @ '':'' @ port, ''Upgrade: websocket'', ''Connection: Upgrade'',
      ''Sec-WebSocket-Key: '' @ nonce, ''Sec-WebSocket-Version: 13'', ''Sec-WebSocket-Protocol: mqtt'']"

lemma upgrade_request_lines: "upgrade_request path host port nonce = head_text (upgrade_lines path host port nonce)"
  by (simp add: upgrade_request_def upgrade_lines_def head_text_def)

lemma getlines_line:
  assumes "CHR 0x0A \<notin> set l"
  shows "getlines (l @ CHR 0x0A # rest) = l # getlines rest"
proof -
  have "takeWhile (\<lambda>x. x \<noteq> CHR 0x0A) (l @ CHR 0x0A # rest) = l" by (rule takeWhile_upto [OF assms])
  moreover have "dropWhile (\<lambda>x. x \<noteq> CHR 0x0A) (l @ CHR 0x0A # rest) = CHR 0x0A # rest"
    by (subst dropWhile_append2) (use assms in auto)
  ultimately show ?thesis by (cases l) simp_all
qed

lemma getlines_head:
  "\<forall>l \<in> set ls. CHR 0x0A \<notin> set l \<Longrightarrow> getlines (head_text ls) = map (\<lambda>l. l @ [CHR 0x0D]) ls @ [[CHR 0x0D]]"
proof (induction ls)
  case Nil
  then show ?case using getlines_line [of "[CHR 0x0D]" "[]"] by (simp add: head_text_def crlf_def)
next
  case (Cons l ls)
  then show ?case using getlines_line [of "l @ [CHR 0x0D]" "head_text ls"] by (simp add: head_text_def crlf_def)
qed

lemma find_sub_within: "pat \<noteq> [] \<Longrightarrow> find_sub pat (a @ pat @ b) \<noteq> None"
  by (induction a) (simp_all add: find_sub_here)

lemma strip_cr_snoc: "strip_cr (l @ [CHR 0x0D]) = l"
  by (simp add: strip_cr_def)

text \<open>A header line whose name is given; the request line sets nothing.\<close>

lemma handshake_header:
  assumes "CHR '':'' \<notin> set name"
  shows "handshake_line ((name @ CHR '':'' # v) @ [CHR 0x0D]) (key, proto) =
    (if to_lower name = ''sec-websocket-key'' then (strip_spaces v, proto)
     else if to_lower name = ''sec-websocket-protocol'' then (key, strip_spaces v) else (key, proto))"
proof -
  have "find_char CHR '':'' (name @ CHR '':'' # v) 0 = Some (length name)"
    using index_of_skip [OF assms, of v] by (simp add: find_char_def)
  then show ?thesis by (simp only: handshake_line.simps Let_def strip_cr_snoc option.case) simp
qed

lemma handshake_get: "handshake_line ((CHR ''G'' # l) @ [CHR 0x0D]) kp = kp"
proof -
  obtain key proto where kp: "kp = (key, proto)" by (cases kp)
  have g: "to_lower_char CHR ''G'' = CHR ''g''" by code_simp
  have "to_lower (take c (CHR ''G'' # l)) \<noteq> CHR ''s'' # x" for c x
    by (cases c) (simp_all add: to_lower_def g)
  then show ?thesis by (simp only: kp handshake_line.simps Let_def strip_cr_snoc) (simp split: option.split)
qed

lemma upgrade_parsed:
  assumes "\<forall>s \<in> {path, host, port, nonce}. no_line_end s" "nonce \<noteq> []" "hd nonce \<noteq> CHR '' ''"
  shows "parse_handshake_request (upgrade_request path host port nonce) = Some (nonce, ''mqtt'')"
proof -
  let ?r = "upgrade_request path host port nonce"
  have n: "\<forall>l \<in> set (upgrade_lines path host port nonce). CHR 0x0A \<notin> set l"
    using assms(1) by (auto simp: upgrade_lines_def no_line_end_def)
  have names: "to_lower ''Host'' = ''host''" "to_lower ''Upgrade'' = ''upgrade''" "to_lower ''Connection'' = ''connection''"
    "to_lower ''Sec-WebSocket-Key'' = ''sec-websocket-key''" "to_lower ''Sec-WebSocket-Version'' = ''sec-websocket-version''"
    "to_lower ''Sec-WebSocket-Protocol'' = ''sec-websocket-protocol''" by code_simp+
  have key: "strip_spaces (CHR '' '' # nonce) = nonce"
    using assms(2,3) by (cases nonce) (simp_all add: strip_spaces_def)
  have proto: "strip_spaces '' mqtt'' = ''mqtt''" by (simp add: strip_spaces_def)
  have blank: "handshake_line [CHR 0x0D] kp = kp" for kp
    by (cases kp) (simp add: strip_cr_def find_char_def)
  have "fold handshake_line (getlines ?r) ([], []) = (nonce, ''mqtt'')"
    unfolding upgrade_request_lines getlines_head [OF n]
    using handshake_get [of "''ET '' @ path @ '' HTTP/1.1''" "([], [])"]
      handshake_header [of "''Host''" "'' '' @ host @ '':'' @ port"] handshake_header [of "''Upgrade''" "'' websocket''"]
      handshake_header [of "''Connection''" "'' Upgrade''"] handshake_header [of "''Sec-WebSocket-Key''" "CHR '' '' # nonce"]
      handshake_header [of "''Sec-WebSocket-Version''" "'' 13''"] handshake_header [of "''Sec-WebSocket-Protocol''" "'' mqtt''"]
    by (simp add: upgrade_lines_def names key proto blank del: handshake_line.simps)
  moreover have "find_sub ''Upgrade: websocket'' ?r \<noteq> None"
    using find_sub_within [of "''Upgrade: websocket''" "''GET '' @ path @ '' HTTP/1.1'' @ crlf @ ''Host: '' @ host @ '':'' @ port @ crlf"]
    by (simp add: upgrade_request_def)
  moreover have "starts_with ''GET '' ?r" by (simp add: upgrade_request_def starts_with_def)
  ultimately show ?thesis using assms(2) by (simp add: parse_handshake_request_def)
qed

lemma response_blank_line:
  "find_sub (crlf @ crlf) (generate_handshake_response k ''mqtt'') \<noteq> None"
  "find_sub ''101'' (generate_handshake_response k ''mqtt'') \<noteq> None"
proof -
  have "generate_handshake_response k ''mqtt'' = (''HTTP/1.1 101 Switching Protocols'' @ crlf @ ''Upgrade: websocket'' @
      crlf @ ''Connection: Upgrade'' @ crlf @ ''Sec-WebSocket-Accept: '' @ k @ crlf @ ''Sec-WebSocket-Protocol: mqtt'') @
      (crlf @ crlf) @ []"
    by (simp add: generate_handshake_response_def)
  then show "find_sub (crlf @ crlf) (generate_handshake_response k ''mqtt'') \<noteq> None"
    by (elim ssubst) (rule find_sub_within, simp add: crlf_def)
  have "generate_handshake_response k ''mqtt'' = ''HTTP/1.1 '' @ ''101'' @ '' Switching Protocols'' @ crlf @
      ''Upgrade: websocket'' @ crlf @ ''Connection: Upgrade'' @ crlf @ ''Sec-WebSocket-Accept: '' @ k @ crlf @
      ''Sec-WebSocket-Protocol: mqtt'' @ crlf @ crlf"
    by (simp add: generate_handshake_response_def)
  then show "find_sub ''101'' (generate_handshake_response k ''mqtt'') \<noteq> None"
    by (elim ssubst) (rule find_sub_within, simp)
qed

text \<open>Sixteen random bytes make a key without line ends, which starts with no space.\<close>

lemma nonce_plain:
  assumes "random \<noteq> []"
  shows "no_line_end (generate_ws_nonce random)" "generate_ws_nonce random \<noteq> []" "hd (generate_ws_nonce random) \<noteq> CHR '' ''"
proof -
  have c: "c \<notin> set (generate_ws_nonce random)" if "c \<notin> insert (CHR ''='') (set b64_chars)" for c
    using that set_base64_encode [of random] by (auto simp: generate_ws_nonce_def)
  have "CHR 0x0D \<notin> insert (CHR ''='') (set b64_chars)" "CHR 0x0A \<notin> insert (CHR ''='') (set b64_chars)"
    "CHR '' '' \<notin> insert (CHR ''='') (set b64_chars)"
    by (simp_all add: b64_chars_def)
  then have "CHR '' '' \<notin> set (generate_ws_nonce random)" "no_line_end (generate_ws_nonce random)"
    using c by (simp_all add: no_line_end_def)
  moreover have ne: "generate_ws_nonce random \<noteq> []"
    using assms unfolding generate_ws_nonce_def by (cases random rule: base64_encode.cases) simp_all
  ultimately show "no_line_end (generate_ws_nonce random)" "generate_ws_nonce random \<noteq> []" "hd (generate_ws_nonce random) \<noteq> CHR '' ''"
    by (simp_all, metis hd_in_set)
qed

text \<open>
  C37: Client and server agree on the WebSocket upgrade: whatever the address and the sixteen random
  bytes of the key, the server takes the client's request, once it is complete, as an upgrade with this
  key and nothing left over, becomes a WebSocket session that goes on reading, and answers with the
  accept key; and the client takes this answer as accepted, so that its next step is CONNECT.
\<close>

theorem sdk_upgrade_accepted:
  assumes "\<forall>s \<in> {path, host, port}. no_line_end s" "sn_nonce net = generate_ws_nonce random" "length random = 16"
    and "i < length (mw_sessions w)" "\<not> ms_handshake_done (sess w i)" "ms_acc (sess w i) = acc_empty" "\<not> ms_closing (sess w i)"
    and "req = bytes_of_string (upgrade_request path host port (sn_nonce net))" "length req \<le> me_max_buffer env"
    and "me_max_buffer env < 2 ^ 64"
    and "resp = generate_handshake_response (compute_accept_key (sn_nonce net)) ''mqtt''"
    and "sn_reads net = [resp]" "\<forall>n. sn_write net n = None"
  shows "\<exists>w'. on_bytes_read env i req w = (None, w') \<and> ms_is_ws (sess w' i) \<and> ms_handshake_done (sess w' i) \<and>
    acc_data (ms_acc (sess w' i)) = [] \<and> ms_reading (sess w' i) \<and>
    ms_writes (sess w' i) = ms_writes (sess w i) @ [Handshake_write resp] \<and>
    sdk_handshake net path host port s = Inr (s\<lparr>ss_sent := ss_sent s @ [req]\<rparr>)"
proof -
  let ?r = "upgrade_request path host port (sn_nonce net)"
  let ?ls = "upgrade_lines path host port (sn_nonce net)"
  have "random \<noteq> []" using assms(3) by auto
  note nonce = nonce_plain [OF this, folded assms(2)]
  have texts: "\<forall>s \<in> {path, host, port, sn_nonce net}. no_line_end s" using assms(1) nonce(1) by simp
  have good: "\<forall>l \<in> set ?ls. good_line l" and ne: "?ls \<noteq> []"
    using texts by (auto simp: upgrade_lines_def no_line_end_def good_line_def)
  have r: "?r = join_crlf ?ls @ crlf @ crlf" by (simp only: upgrade_request_lines head_text_join [OF ne])
  have blank: "find_sub (crlf @ crlf) ?r = Some (length (join_crlf ?ls))"
    using find_blank_line [OF ne good, of "[]"] by (simp add: r)
  have len: "length (join_crlf ?ls) + 4 = length req" by (simp add: assms(8) r crlf_def)
  have get: "take 4 ?r = ''GET ''" by (simp add: upgrade_request_def)
  note parsed = upgrade_parsed [OF texts nonce(2,3)]
  let ?w0 = "track_mem (add_mqtt_rx_bytes (int (length req))) w"
  let ?w1 = "upd_sess i (\<lambda>s. s\<lparr>ms_acc := acc_append req (ms_acc s)\<rparr>) ?w0"
  let ?acc = "acc_compact (acc_consume (length req) (acc_append req acc_empty))"
  let ?w2 = "queue_write i (Handshake_write resp) (upd_sess i (\<lambda>s. s\<lparr>ms_is_ws := True, ms_handshake_done := True, ms_acc := ?acc\<rparr>) ?w1)"
  have acc: "acc_data (acc_append req acc_empty) = req" "acc_total_capacity (acc_append req acc_empty) = length req"
    by (simp_all add: acc_data_def acc_append_def acc_empty_def acc_total_capacity_def)
  have "acc_ok (acc_append req acc_empty)"
    using assms(9,10) by (simp add: acc_ok_def acc_append_def acc_empty_def)
  then have e: "acc_ok ?acc" "acc_data ?acc = []"
    using acc.adv_ok [of "acc_append req acc_empty" "length req"] acc.adv_view [of "acc_append req acc_empty" "length req"]
      acc.pack_ok acc.pack_view [of "acc_consume (length req) (acc_append req acc_empty)" 4096] acc(1) by auto
  then have empty: "acc_is_empty ?acc" using acc_is_empty_data by blast
  have sr: "string_of_bytes req = ?r" by (simp add: assms(8))
  have s1: "ms_acc (sess ?w1 i) = acc_append req acc_empty" using assms(4,6) by (simp add: world_simps)
  have "on_bytes_read env i req w = first_bytes env i ?w1"
    using assms(4-6,9) acc(2) s1 by (simp add: on_bytes_read_def exceeds_buffer_cap_def Let_def world_simps)
  also have "\<dots> = ws_frames env i ?w2"
    using get blank parsed len by (simp add: first_bytes_def s1 acc(1) sr Let_def assms(11))
  also have "\<dots> = (None, read_on i (upd_sess i (\<lambda>s. s\<lparr>ms_acc := acc_compact ?acc\<rparr>) ?w2))"
    using assms(4) empty by (simp add: ws_frames_def queue_write_def world_simps ws_loop.simps)
  finally have o': "on_bytes_read env i req w = (None, read_on i (upd_sess i (\<lambda>s. s\<lparr>ms_acc := acc_compact ?acc\<rparr>) ?w2))" .
  note rb = response_blank_line [of "compute_accept_key (sn_nonce net)", folded assms(11)]
  have "resp \<noteq> []" by (simp add: assms(11) generate_handshake_response_def)
  then have rr: "read_response [resp] [] = resp" by (rule read_response_one)
  have "sdk_handshake net path host port s = Inr (s\<lparr>ss_sent := ss_sent s @ [req]\<rparr>)"
    using rb(2) rr assms(8,12,13) by (simp add: sdk_handshake_def sdk_write_def)
  moreover have "acc_data (acc_compact ?acc) = []" using e acc.pack_view [of ?acc 4096] by simp
  ultimately show ?thesis
    unfolding o' using assms(4,7) by (simp add: read_on_def start_read_loop_def queue_write_def world_simps)
qed

theorem sdk_upgrade_accepted_witness:
  "\<exists>w'. on_bytes_read toy_mqtt_env 0 (bytes_of_string (upgrade_request ''/'' ''h'' ''8083'' (generate_ws_nonce (replicate 16 7))))
       toy_world = (None, w') \<and> ms_is_ws (sess w' 0)"
proof -
  let ?n = "generate_ws_nonce (replicate 16 7)"
  let ?net = "calm_network\<lparr>sn_reads := [generate_handshake_response (compute_accept_key ?n) ''mqtt''], sn_nonce := ?n\<rparr>"
  have s: "0 < length (mw_sessions toy_world)" "\<not> ms_handshake_done (sess toy_world 0)"
    "ms_acc (sess toy_world 0) = acc_empty" "\<not> ms_closing (sess toy_world 0)"
    by (simp_all add: toy_world_def toy_session_def mqtt_session_new_def)
  have n: "\<forall>s \<in> {''/'', ''h'', ''8083''}. no_line_end s" "sn_nonce ?net = generate_ws_nonce (replicate 16 7)"
    "length (replicate 16 (7 :: byte)) = 16"
    by (simp_all add: no_line_end_def)
  have "length (generate_ws_nonce (replicate 16 7)) = 24" by (simp add: generate_ws_nonce_def length_base64_encode)
  then have "length (bytes_of_string (upgrade_request ''/'' ''h'' ''8083'' (sn_nonce ?net))) \<le> me_max_buffer toy_mqtt_env"
    "me_max_buffer toy_mqtt_env < 2 ^ 64"
    by (simp_all add: upgrade_request_def toy_mqtt_env_def crlf_def)
  from sdk_upgrade_accepted [OF n s refl this refl] show ?thesis by (auto simp: calm_network_def)
qed

end
