(* ===== verification/JsonText.thy ===== *)
theory JsonText
  imports Json
begin

text \<open>
  A concrete JSON library, for the witnesses: a printer of every value (a length-prefixed text, not
  JSON's syntax) and its parser. It shows that the two hypotheses on the library, \<open>dumps_all\<close> and
  \<open>dump_parse\<close>, hold together.
\<close>

definition put_num :: "nat \<Rightarrow> string" where
  "put_num n = replicate n (CHR ''1'') @ ''0''"

definition get_num :: "string \<Rightarrow> nat \<times> string" where
  "get_num s = (let n = length (takeWhile (\<lambda>c. c = CHR ''1'') s) in (n, drop (n + 1) s))"

definition put_text :: "string \<Rightarrow> string" where
  "put_text s = put_num (length s) @ s"

definition get_text :: "string \<Rightarrow> string \<times> string" where
  "get_text s = (let (n, s) = get_num s in (take n s, drop n s))"

fun put_json :: "json \<Rightarrow> string" where
  "put_json JNull = put_num 0"
| "put_json (JBool b) = put_num 1 @ put_num (if b then 1 else 0)"
| "put_json (JInt i) = put_num 2 @ put_num (if i < 0 then 1 else 0) @ put_num (nat \<bar>i\<bar>)"
| "put_json (JUInt n) = put_num 3 @ put_num n"
| "put_json (JFloat w) = put_num 4 @ put_num (unat w)"
| "put_json (JStr s) = put_num 5 @ put_text s"
| "put_json (JArr js) = put_num 6 @ put_num (length js) @ concat (map put_json js)"
| "put_json (JObj kvs) = put_num 7 @ put_num (length kvs) @ concat (map (\<lambda>(k, v). put_text k @ put_json v) kvs)"

text \<open>The first argument bounds the depth of the recursion; the length of the text is enough.\<close>

fun get_json :: "nat \<Rightarrow> string \<Rightarrow> json \<times> string"
and get_values :: "nat \<Rightarrow> nat \<Rightarrow> string \<Rightarrow> json list \<times> string"
and get_members :: "nat \<Rightarrow> nat \<Rightarrow> string \<Rightarrow> (string \<times> json) list \<times> string" where
  "get_json 0 s = (JNull, s)"
| "get_json (Suc f) s =
     (let (t, s) = get_num s
      in if t = 0 then (JNull, s)
         else if t = 1 then let (n, s) = get_num s in (JBool (n = 1), s)
         else if t = 2 then let (g, s) = get_num s; (n, s) = get_num s in (JInt (if g = 1 then - int n else int n), s)
         else if t = 3 then let (n, s) = get_num s in (JUInt n, s)
         else if t = 4 then let (n, s) = get_num s in (JFloat (word_of_nat n), s)
         else if t = 5 then let (x, s) = get_text s in (JStr x, s)
         else if t = 6 then let (n, s) = get_num s; (js, s) = get_values f n s in (JArr js, s)
         else let (n, s) = get_num s; (kvs, s) = get_members f n s in (JObj kvs, s))"
| "get_values 0 n s = ([], s)"
| "get_values (Suc f) n s =
     (if n = 0 then ([], s)
      else let (j, s) = get_json f s; (js, s) = get_values f (n - 1) s in (j # js, s))"
| "get_members 0 n s = ([], s)"
| "get_members (Suc f) n s =
     (if n = 0 then ([], s)
      else let (k, s) = get_text s; (v, s) = get_json f s; (kvs, s) = get_members f (n - 1) s in ((k, v) # kvs, s))"

lemma get_num_put [simp]: "get_num (put_num n @ r) = (n, r)"
proof -
  have "takeWhile (\<lambda>c. c = CHR ''1'') (replicate n (CHR ''1'') @ CHR ''0'' # r) = replicate n (CHR ''1'')"
    by (induction n) simp_all
  then show ?thesis by (simp add: get_num_def put_num_def Let_def)
qed

lemma get_text_put [simp]: "get_text (put_text s @ r) = (s, r)"
  by (simp add: get_text_def put_text_def)

lemma length_put_num [simp]: "length (put_num n) = Suc n"
  by (simp add: put_num_def)

lemma length_put_json: obtains n where "length (put_json j) = Suc n"
  by (cases j) simp_all

lemma get_values_put:
  assumes "\<And>j f r. j \<in> set js \<Longrightarrow> length (put_json j) \<le> f \<Longrightarrow> get_json f (put_json j @ r) = (j, r)"
    and "length (concat (map put_json js)) < f"
  shows "get_values f (length js) (concat (map put_json js) @ r) = (js, r)"
  using assms
proof (induction js arbitrary: f)
  case Nil
  then show ?case by (cases f) simp_all
next
  case (Cons j js)
  then obtain g where f: "f = Suc g" by (cases f) simp_all
  have "get_json g (put_json j @ concat (map put_json js) @ r) = (j, concat (map put_json js) @ r)"
    using Cons.prems f by simp
  moreover have "get_values g (length js) (concat (map put_json js) @ r) = (js, r)"
    by (rule length_put_json [of j]) (use Cons.prems in \<open>intro Cons.IH; simp add: f\<close>)
  ultimately show ?case by (simp add: f)
qed

lemma get_members_put:
  assumes "\<And>k v f r. (k, v) \<in> set kvs \<Longrightarrow> length (put_json v) \<le> f \<Longrightarrow> get_json f (put_json v @ r) = (v, r)"
    and "length (concat (map (\<lambda>(k, v). put_text k @ put_json v) kvs)) < f"
  shows "get_members f (length kvs) (concat (map (\<lambda>(k, v). put_text k @ put_json v) kvs) @ r) = (kvs, r)"
  using assms
proof (induction kvs arbitrary: f)
  case Nil
  then show ?case by (cases f) simp_all
next
  case (Cons kv kvs)
  let ?t = "concat (map (\<lambda>(k, v). put_text k @ put_json v) kvs)"
  obtain k v where kv: "kv = (k, v)" by (cases kv)
  obtain g where f: "f = Suc g" using Cons.prems(2) by (cases f) simp_all
  have "length (put_json v) \<le> g" "(k, v) \<in> set (kv # kvs)"
    using Cons.prems(2) by (simp_all add: f kv put_text_def)
  then have "get_json g (put_json v @ ?t @ r) = (v, ?t @ r)" by (intro Cons.prems(1))
  moreover have "get_members g (length kvs) (?t @ r) = (kvs, r)"
    by (rule length_put_json [of v]) (use Cons.prems in \<open>intro Cons.IH; auto simp: f kv\<close>)
  ultimately show ?case by (simp add: f kv)
qed

lemma get_json_put: "length (put_json j) \<le> f \<Longrightarrow> get_json f (put_json j @ r) = (j, r)"
proof (induction j arbitrary: f r)
  case (JArr js)
  then obtain g where f: "f = Suc g" by (cases f) simp_all
  have "get_values g (length js) (concat (map put_json js) @ r) = (js, r)"
    using JArr.prems by (intro get_values_put JArr.IH) (simp_all add: f)
  then show ?case by (simp add: f)
next
  case (JObj kvs)
  then obtain g where f: "f = Suc g" by (cases f) simp_all
  have "get_members g (length kvs) (concat (map (\<lambda>(k, v). put_text k @ put_json v) kvs) @ r) = (kvs, r)"
    using JObj.prems by (intro get_members_put JObj.IH) (auto simp: f)
  then show ?case by (simp add: f)
qed (case_tac f; simp)+

definition text_lib :: json_lib where
  "text_lib = \<lparr>json_parse = (\<lambda>s. Inr (canon (fst (get_json (length s) s)))), json_dump = (\<lambda>j. Inr (put_json j)),
     float_to_u16 = (\<lambda>f. 0), float_to_i64 = (\<lambda>f. 0), float_to_u64 = (\<lambda>f. 0)\<rparr>"

lemma text_lib_ok: "dumps_all text_lib" "dump_parse text_lib"
  using get_json_put [of _ _ "[]"] by (auto simp: dumps_all_def dump_parse_def text_lib_def)

end
