(* ===== verification/EndToEnd.thy ===== *)
theory EndToEnd
  imports SdkStart HttpServer JsonText
begin

text \<open>
  The client against the server: a successful start of the C++ client registers it at the MQTT server
  and subscribes it to the topology, however the network cuts what it wrote, and the snapshot it
  fetches over HTTP is the server's registry.
\<close>

section \<open>Joining\<close>

lemma meta_parsed:
  assumes "dump_parse L" "json_dump L (meta_json opts) = Inr j"
  shows "parse_meta L d j = Inr (cl_role opts, cl_workers opts, cl_endpoint opts, JObj [])"
proof -
  let ?m = "canon (meta_json opts)"
  have p: "json_parse L j = Inr ?m" using assms by (simp add: dump_parse_def)
  have l: "jlookup ?m ''role'' = Some (JStr (cl_role opts))"
    "jlookup ?m ''workers'' = Some (JArr (map JStr (cl_workers opts)))" "jlookup ?m ''extra'' = None"
    "jlookup ?m ''endpoint'' = Some (case cl_endpoint opts of Some ep \<Rightarrow> canon (endpoint_to_json ep) | None \<Rightarrow> JNull)"
    by (simp_all add: meta_json_def obj_of_def jlookup_def split: option.split)
  have role: "value_string ?m ''role'' d = Inr (cl_role opts)"
    using l(1) by (simp add: value_string_def meta_json_def obj_of_def)
  have ep: "(case jlookup ?m ''endpoint'' of
         None \<Rightarrow> Inr None | Some JNull \<Rightarrow> Inr None
       | Some v \<Rightarrow> bind_res (endpoint_from_json L v) (\<lambda>ep. Inr (Some ep))) = Inr (cl_endpoint opts)"
  proof (cases "cl_endpoint opts")
    case (Some ep)
    obtain kvs where "canon (endpoint_to_json ep) = JObj kvs" using canon_endpoint_object by blast
    then show ?thesis using Some endpoint_round [of L ep] by (simp add: l)
  qed (simp add: l)
  show ?thesis
    unfolding parse_meta_def p
    by (simp only: bind_res.simps role ep) (simp add: l)
qed

text \<open>A packet that changes the session's own fields and is answered.\<close>

definition answer :: "nat \<Rightarrow> (mqtt_session \<Rightarrow> mqtt_session) \<Rightarrow> bytes \<Rightarrow> mqtt_world \<Rightarrow> mqtt_world" where
  "answer i f reply w = send_raw i reply False (upd_sess i f w)"

lemma answer_world:
  assumes "i < length (mw_sessions w)" "\<And>s. ms_writes (f s) = ms_writes s" "\<And>s. ms_is_ws (f s) = ms_is_ws s"
  shows "length (mw_sessions (answer i f reply w)) = length (mw_sessions w)"
    "reg_ok L (mw_registry (answer i f reply w)) = reg_ok L (mw_registry w)"
    "find_node (mw_registry (answer i f reply w)) k = find_node (mw_registry w) k"
    "r_cbs (mw_registry (answer i f reply w)) = r_cbs (mw_registry w)"
    "j < length (mw_sessions w) \<Longrightarrow> sess (answer i f reply w) j =
       (if j = i then (f (sess w i))\<lparr>ms_writes := ms_writes (sess w i) @ [Packet_write (framed (sess w i) reply)]\<rparr>
        else sess w j)"
proof -
  have o: "only_sends (upd_sess i f w) (answer i f reply w)" unfolding answer_def by (rule only_sends_raw)
  show "length (mw_sessions (answer i f reply w)) = length (mw_sessions w)"
    "r_cbs (mw_registry (answer i f reply w)) = r_cbs (mw_registry w)"
    using only_sendsD [OF o] by (simp_all add: world_simps)
  show "reg_ok L (mw_registry (answer i f reply w)) = reg_ok L (mw_registry w)"
    "find_node (mw_registry (answer i f reply w)) k = find_node (mw_registry w) k"
    using only_sends_reg_ok [OF o] only_sends_find [OF o] by (simp_all add: world_simps)
  show "sess (answer i f reply w) j =
       (if j = i then (f (sess w i))\<lparr>ms_writes := ms_writes (sess w i) @ [Packet_write (framed (sess w i) reply)]\<rparr>
        else sess w j)" if "j < length (mw_sessions w)"
    using that assms by (simp add: answer_def send_raw_sess world_simps framed_def)
qed

lemma client_connects:
  assumes "connect_length opts r1 r2 < 128" "me_access_key env = cl_access_key opts" "i < length (mw_sessions w)"
  shows "\<exists>cid user role. process_packet env i (sdk_connect opts r1 r2) w =
    (None, answer i (\<lambda>s. s\<lparr>ms_client_id := cid, ms_username := user, ms_role := role, ms_authenticated := True\<rparr>)
       (encode_connack 0) w)"
proof -
  obtain c where c: "decode_connect (sdk_connect opts r1 r2) = Inr (Some c)"
    "conn_password c = cl_access_key opts @ conn_username c"
    using sdk_start_accepted [OF assms(1), of "[]"] by auto
  let ?f = "\<lambda>s. s\<lparr>ms_client_id := conn_client_id c, ms_username := conn_username c\<rparr>"
  let ?g = "\<lambda>s. s\<lparr>ms_role := role_of_username (ms_username s), ms_authenticated := True\<rparr>"
  let ?h = "\<lambda>s. s\<lparr>ms_client_id := conn_client_id c, ms_username := conn_username c,
    ms_role := role_of_username (conn_username c), ms_authenticated := True\<rparr>"
  have h: "sdk_connect opts r1 r2 \<noteq> []" "hd (sdk_connect opts r1 r2) = 0x10" by (simp_all add: sdk_connect_def Let_def)
  have "upd_sess i ?g (upd_sess i ?f w) = upd_sess i ?h w"
    using assms(3) by (simp add: upd_sess_def)
  then have "process_packet env i (sdk_connect opts r1 r2) w = (None, answer i ?h (encode_connack 0) w)"
    using assms(2,3) c h by (simp add: process_packet_def handle_connect_def Let_def world_simps answer_def)
  then show ?thesis by blast
qed

lemma client_subscribes:
  assumes "length t < 123" "ms_authenticated (sess w i)"
  shows "process_packet env i (sdk_subscribe t) w =
    (None, answer i (\<lambda>s. s\<lparr>ms_subs := ms_subs s @ [t]\<rparr>) (encode_suback 1 [0]) w)"
proof -
  have "connect_length client_default 0 0 < 128"
    by (simp add: connect_length_def client_default_def sdk_username_def nat_to_string.simps)
  then have "decode_subscribe (sdk_subscribe t) = Inr (Some \<lparr>sub_packet_id = 1, sub_topics = [t]\<rparr>)"
    using sdk_start_accepted [OF _ assms(1)] by blast
  moreover have "sdk_subscribe t \<noteq> []" "hd (sdk_subscribe t) = 0x82" by (simp_all add: sdk_subscribe_def Let_def)
  ultimately show ?thesis
    using assms(2) by (simp add: process_packet_def handle_subscribe_def Let_def answer_def)
qed

text \<open>The bytes of a client's start that goes through.\<close>

lemma sdk_start_sent:
  assumes "sdk_start L opts net sdk_session_new = (True, s)"
  obtains j where "json_dump L (meta_json opts) = Inr j" "ss_sent s = opening_bytes opts net j"
proof -
  obtain scheme host port path where u: "parse_url (cl_mqtt_url opts) = (scheme, host, port, path)"
    by (metis prod_cases4)
  from assms have "\<exists>j. json_dump L (meta_json opts) = Inr j \<and> ss_sent s = opening_bytes opts net j"
    by (auto simp: sdk_start_def u Let_def sdk_session_new_def sdk_then_Inr sdk_handshake_def sdk_write_Inr
        opening_chain_Inr opening_bytes_def sdk_client_new_def split: option.splits sum.splits if_splits prod.splits)
  with that show thesis by blast
qed

lemma announcements_subs:
  "announcements t x svs (s\<lparr>ms_client_id := a, ms_username := b, ms_role := c, ms_authenticated := d, ms_subs := e\<rparr>) =
   announcements t x svs (s\<lparr>ms_subs := e\<rparr>)"
  by (simp add: announcements_def receives_def matches_topic_def framed_def cong: if_cong)

text \<open>
  The server's promise to a client that joins: session \<open>i\<close>, in world \<open>w\<close> before and \<open>w'\<close> after, is
  authenticated, subscribed to the topology and registered as \<open>node\<close>, which the options describe;
  \<open>text\<close> is what the subscribers are sent.
\<close>

definition joined :: "mqtt_env \<Rightarrow> client_options \<Rightarrow> nat \<Rightarrow> mqtt_world \<Rightarrow> mqtt_world \<Rightarrow> node_info \<Rightarrow> string \<Rightarrow> bool" where
  "joined env opts i w w' node text =
     (ms_authenticated (sess w' i) \<and> ms_subs (sess w' i) = ms_subs (sess w i) @ [''apr/+''] \<and>
      ms_node_id (sess w' i) = n_id node \<and> find_node (mw_registry w) (n_id node) = None \<and>
      find_node (mw_registry w') (n_id node) = Some node \<and>
      (\<forall>k. k \<noteq> n_id node \<longrightarrow> find_node (mw_registry w') k = find_node (mw_registry w) k) \<and>
      n_role node = cl_role opts \<and> n_workers node = cl_workers opts \<and> n_status node = St_ok \<and>
      n_endpoint node = final_endpoint (cl_endpoint opts) (ms_peer (sess w i)) \<and>
      json_dump (me_lib env) (node_to_json node) = Inr text \<and>
      (\<forall>k < length (mw_sessions w). ms_writes (sess w' k) = ms_writes (sess w k) @
         (if k = i then map (\<lambda>p. Packet_write (encode_frame p 0x02)) [encode_connack 0x00, encode_suback 1 [0x00]] else []) @
         announcements (''apr/'' @ cl_role opts) text (map snd (r_cbs (mw_registry w)))
           (if k = i then (sess w i)\<lparr>ms_subs := ms_subs (sess w i) @ [''apr/+'']\<rparr> else sess w k)))"

definition binary_frames :: "bytes list \<Rightarrow> ws_frame list" where
  "binary_frames ps = map (\<lambda>p. \<lparr>opcode = 0x02, fin = True, frame_payload = p\<rparr>) ps"

lemma binary_frames_drain:
  assumes "chunk = concat (map (\<lambda>p. encode_frame p 0x02) ps)" "length chunk < 2 ^ 63"
  shows "drain ws_dec chunk = (binary_frames ps, [])"
proof -
  have l: "length p \<le> length chunk" if "p \<in> set ps" for p
  proof -
    have "length p \<le> length (encode_frame p 0x02)" by (simp add: encode_frame_def)
    also have "\<dots> \<le> length chunk" unfolding assms(1) using that
      by (induction ps) (auto intro: le_trans)
    finally show ?thesis .
  qed
  have "encode_frame p 0x02 = rfc_frame None 0x02 p" if "p \<in> set ps" for p
    unfolding encode_frame_codec by (rule rfc_frame_codec [symmetric]) (use l [OF that] assms(2) in simp_all)
  then have "chunk = concat (map (\<lambda>(k, opc, p). rfc_frame k opc p) (map (\<lambda>p. (None, 0x02, p)) ps))"
    unfolding assms(1) by (simp cong: map_cong)
  then show ?thesis
    using drain_frames [of "map (\<lambda>p. (None, 0x02, p)) ps"] l assms(2) by (fastforce simp: binary_frames_def)
qed

lemma opening_run:
  assumes "i < length (mw_sessions w)" "ms_is_ws (sess w i)" "\<not> ms_closing (sess w i)" "ms_node_id (sess w i) = []"
    and "reg_ok (me_lib env) (mw_registry w)" "dumps_all (me_lib env)" "dump_parse (me_lib env)"
    and "me_access_key env = cl_access_key opts" "connect_length opts r1 r2 < 128"
    and "json_dump (me_lib env) (meta_json opts) = Inr j" "length (publish_body ''apr/node/meta'' j 0 0) < 2 ^ 21"
  shows "\<exists>w' node text. run_frames env i (binary_frames
      [sdk_connect opts r1 r2, sdk_subscribe ''apr/+'', sdk_publish ''apr/node/meta'' j]) w = (Drained, w') \<and>
    \<not> ms_closing (sess w' i) \<and> joined env opts i w w' node text"
proof -
  obtain cid user role where 1: "process_packet env i (sdk_connect opts r1 r2) w =
    (None, answer i (\<lambda>s. s\<lparr>ms_client_id := cid, ms_username := user, ms_role := role, ms_authenticated := True\<rparr>)
       (encode_connack 0) w)"
    using client_connects [OF assms(9,8,1)] by blast
  define w1 where "w1 = answer i (\<lambda>s. s\<lparr>ms_client_id := cid, ms_username := user, ms_role := role, ms_authenticated := True\<rparr>)
       (encode_connack 0) w"
  note a1 = answer_world [OF assms(1), where f = "\<lambda>s. s\<lparr>ms_client_id := cid, ms_username := user, ms_role := role,
      ms_authenticated := True\<rparr>" and reply = "encode_connack 0", simplified, folded w1_def]
  have i1: "i < length (mw_sessions w1)" using a1(1) assms(1) by simp
  define w2 where "w2 = answer i (\<lambda>s. s\<lparr>ms_subs := ms_subs s @ [''apr/+'']\<rparr>) (encode_suback 1 [0]) w1"
  have 2: "process_packet env i (sdk_subscribe ''apr/+'') w1 = (None, w2)"
    unfolding w2_def using client_subscribes [of "''apr/+''" w1 i env] a1(5) assms(1) by simp
  note a2 = answer_world [OF i1, where f = "\<lambda>s. s\<lparr>ms_subs := ms_subs s @ [''apr/+'']\<rparr>" and reply = "encode_suback 1 [0]",
      simplified, folded w2_def]
  have s2: "sess w2 k = (if k = i then (sess w i)\<lparr>ms_client_id := cid, ms_username := user, ms_role := role,
        ms_authenticated := True, ms_subs := ms_subs (sess w i) @ [''apr/+''],
        ms_writes := ms_writes (sess w i) @ map (\<lambda>p. Packet_write (encode_frame p 0x02)) [encode_connack 0, encode_suback 1 [0]]\<rparr>
      else sess w k)" if "k < length (mw_sessions w)" for k
    using that a1(1,5) a2(5) assms(2) by (simp add: framed_def)
  have meta: "parse_meta (me_lib env) (ms_role (sess w2 i)) j = Inr (cl_role opts, cl_workers opts, cl_endpoint opts, JObj [])"
    by (rule meta_parsed [OF assms(7,10)])
  have r2: "reg_ok (me_lib env) (mw_registry w2)" "i < length (mw_sessions w2)" "ms_authenticated (sess w2 i)"
    "ms_node_id (sess w2 i) = []"
    using a1(1,2) a2(1,2) assms(1,4,5) s2 by simp_all
  obtain w' node "text" xs where 3: "process_packet env i (sdk_publish ''apr/node/meta'' j) w2 = (None, w')"
    and n: "json_dump (me_lib env) (node_to_json node) = Inr text" "n_role node = cl_role opts"
      "n_workers node = cl_workers opts" "n_status node = St_ok"
      "n_endpoint node = final_endpoint (cl_endpoint opts) (ms_peer (sess w2 i))" "ms_node_id (sess w' i) = n_id node"
      "find_node (mw_registry w2) (n_id node) = None" "find_node (mw_registry w') (n_id node) = Some node"
      "\<forall>k. k \<noteq> n_id node \<longrightarrow> find_node (mw_registry w') k = find_node (mw_registry w2) k"
      "\<forall>k < length (mw_sessions w2). ms_writes (sess w' k) = ms_writes (sess w2 k) @
         announcements (''apr/'' @ cl_role opts) text (map snd (r_cbs (mw_registry w2))) (sess w2 k)"
      "sess w' i = (sess w2 i)\<lparr>ms_writes := xs, ms_node_id := n_id node\<rparr>"
    using meta_publish_registers [OF r2(1) assms(6) r2(2,3) _ _ _ meta, of 0 0] r2(4) assms(11)
    by (auto simp: sdk_publish_def)
  have "run_frames env i (binary_frames [sdk_connect opts r1 r2, sdk_subscribe ''apr/+'', sdk_publish ''apr/node/meta'' j]) w
      = (Drained, w')"
    using 1 2 3 assms(1,3) a1(5) s2 by (simp add: w1_def [symmetric] binary_frames_def)
  moreover have "\<not> ms_closing (sess w' i)" using n(11) s2 assms(1,3) by simp
  moreover have "joined env opts i w w' node text"
    using n s2 a1 a2 assms(1) by (simp add: joined_def announcements_subs)
  ultimately show ?thesis by blast
qed


section \<open>Joining over the native transport\<close>

lemma connect_complete:
  assumes "connect_length opts r1 r2 < 128"
  shows "complete_packet (sdk_connect opts r1 r2)" "\<exists>q. sdk_connect opts r1 r2 = 0x10 # q"
proof -
  obtain c where "decode_connect (sdk_connect opts r1 r2) = Inr (Some c)"
    using sdk_start_accepted [OF assms, of "[]"] by auto
  moreover show q: "\<exists>q. sdk_connect opts r1 r2 = 0x10 # q" by (simp add: sdk_connect_def Let_def)
  ultimately show "complete_packet (sdk_connect opts r1 r2)" by (auto simp: complete_packet_def)
qed

text \<open>
  C40: Over the native transport, the default, the same start can leave the client half joined: it writes
  its three packets back to back, and if TCP delivers them in one read, the server authenticates the
  session and drops the subscription and the registration without a trace; the session stays open and
  reading, and the client's start has succeeded.
\<close>

theorem native_start_coalesced:
  assumes "i < length (mw_sessions w)" "\<not> ms_handshake_done (sess w i)" "ms_acc (sess w i) = acc_empty"
    and "\<not> ms_closing (sess w i)" "\<not> ms_is_ws (sess w i)"
    and "me_access_key env = cl_access_key opts"
    and "sdk_start (me_lib env) opts net sdk_session_new = (True, s)"
    and "fst (parse_url (cl_mqtt_url opts)) \<notin> {''ws'', ''wss''}"
    and "connect_length opts (sn_rand1 net) (sn_rand2 net) < 128"
    and "length (concat (ss_sent s)) \<le> me_max_buffer env"
  shows "\<exists>w'. on_bytes_read env i (concat (ss_sent s)) w = (None, w') \<and> ms_authenticated (sess w' i) \<and>
    ms_subs (sess w' i) = ms_subs (sess w i) \<and> ms_node_id (sess w' i) = ms_node_id (sess w i) \<and>
    (\<forall>k. find_node (mw_registry w') k = find_node (mw_registry w) k) \<and>
    acc_data (ms_acc (sess w' i)) = [] \<and> ms_reading (sess w' i) \<and>
    ms_writes (sess w' i) = ms_writes (sess w i) @ [Packet_write (encode_connack 0x00)]"
proof -
  let ?p = "sdk_connect opts (sn_rand1 net) (sn_rand2 net)"
  obtain j where j: "ss_sent s = opening_bytes opts net j" by (rule sdk_start_sent [OF assms(7)])
  have "concat (ss_sent s) = ?p @ sdk_subscribe ''apr/+'' @ sdk_publish ''apr/node/meta'' j"
    using assms(8) by (auto simp: j opening_bytes_def Let_def send_bytes_def split: prod.splits)
  then obtain q where q: "concat (ss_sent s) = ?p @ q" by blast
  obtain p' where p': "?p = 0x10 # p'" using connect_complete(2) [OF assms(9)] by blast
  define D where "D = ?p @ q"
  have d: "concat (ss_sent s) = D" by (simp add: D_def q)
  have len: "length D \<le> me_max_buffer env" using assms(10) by (simp add: d)
  have get: "take 4 (string_of_bytes D) \<noteq> CHR ''G'' # x" "take 4 (string_of_bytes D) \<noteq> CHR ''g'' # x" for x
  proof -
    have "char_of_byte 0x10 \<noteq> CHR ''G''" "char_of_byte 0x10 \<noteq> CHR ''g''" by code_simp+
    then show "take 4 (string_of_bytes D) \<noteq> CHR ''G'' # x" "take 4 (string_of_bytes D) \<noteq> CHR ''g'' # x"
      by (simp_all add: D_def p' string_of_bytes_def)
  qed
  let ?w0 = "upd_sess i (\<lambda>s. s\<lparr>ms_acc := acc_append D (ms_acc s)\<rparr>) (track_mem (add_mqtt_rx_bytes (int (length D))) w)"
  let ?w1 = "upd_sess i (\<lambda>s. s\<lparr>ms_handshake_done := True, ms_is_ws := False\<rparr>) ?w0"
  have i1: "i < length (mw_sessions ?w1)" using assms(1) by (simp add: world_simps)
  obtain cid user role where pp: "process_packet env i D ?w1 =
    (None, answer i (\<lambda>s. s\<lparr>ms_client_id := cid, ms_username := user, ms_role := role, ms_authenticated := True\<rparr>)
       (encode_connack 0) ?w1)"
    using client_connects [OF assms(9,6) i1] process_packet_first [OF connect_complete(1) [OF assms(9)], of env i q ?w1] by (auto simp: D_def)
  define w2 where "w2 = answer i (\<lambda>s. s\<lparr>ms_client_id := cid, ms_username := user, ms_role := role, ms_authenticated := True\<rparr>)
       (encode_connack 0) ?w1"
  note a = answer_world [OF i1, where f = "\<lambda>s. s\<lparr>ms_client_id := cid, ms_username := user, ms_role := role,
      ms_authenticated := True\<rparr>" and reply = "encode_connack 0", simplified, folded w2_def]
  have acc: "acc_data (acc_append D acc_empty) = D" "acc_total_capacity (acc_append D acc_empty) = length D"
    by (simp_all add: acc_data_def acc_append_def acc_empty_def acc_total_capacity_def)
  have s0: "sess ?w0 i = (sess w i)\<lparr>ms_acc := acc_append D acc_empty\<rparr>" using assms(1,3) by (simp add: world_simps)
  let ?w3 = "upd_sess i (\<lambda>s. s\<lparr>ms_acc := acc_clear (ms_acc s)\<rparr>) w2"
  have first: "first_bytes env i ?w0 = (None, read_on i ?w3)"
    using get pp by (simp add: first_bytes_def s0 acc Let_def w2_def)
  have s2: "sess w2 i = (sess w i)\<lparr>ms_acc := acc_append D acc_empty, ms_handshake_done := True, ms_is_ws := False,
      ms_client_id := cid, ms_username := user, ms_role := role, ms_authenticated := True,
      ms_writes := ms_writes (sess w i) @ [Packet_write (encode_connack 0)]\<rparr>" "length (mw_sessions w2) = length (mw_sessions w)"
    using a assms(1,3) by (simp_all add: world_simps framed_def)
  have "on_bytes_read env i (concat (ss_sent s)) w = first_bytes env i ?w0"
    using assms(1-3) len acc(2) s0 by (simp add: d on_bytes_read_def exceeds_buffer_cap_def Let_def world_simps)
  then show ?thesis
    using first s2 assms(1,4) a(3)
    by (intro exI [of _ "read_on i ?w3"]) (simp add: read_on_def start_read_loop_def world_simps find_node_def acc_clear_def acc_data_def)
qed

definition joining_options :: client_options where
  "joining_options = \<lparr>cl_mqtt_url = ''ws://h:1/'', cl_http_url = ''http://h:2'', cl_role = ''db'', cl_workers = [''w''],
     cl_endpoint = None, cl_access_key = ''key''\<rparr>"

definition joining_network :: sdk_network where
  "joining_network = calm_network\<lparr>sn_reads := [''101'' @ crlf @ crlf]\<rparr>"

text \<open>The options at a given address, the lengths of their packets, and a start over the native transport.\<close>

definition joining_at :: "string \<Rightarrow> client_options" where
  "joining_at url = joining_options\<lparr>cl_mqtt_url := url\<rparr>"

lemma joining_packets:
  assumes "json_dump text_lib (meta_json (joining_at url)) = Inr j"
  shows "length (sdk_publish ''apr/node/meta'' j) < 200" "length (sdk_connect (joining_at url) 1 2) < 200"
    "length (sdk_subscribe ''apr/+'') = 12" "length (publish_body ''apr/node/meta'' j 0 0) < 128"
    "connect_length (joining_at url) 1 2 < 128"
proof -
  have "length j < 100"
    using assms by (auto simp: text_lib_def joining_at_def joining_options_def meta_json_def obj_of_def put_text_def)
  then show b: "length (publish_body ''apr/node/meta'' j 0 0) < 128" by (simp add: publish_body_plain)
  show "length (sdk_publish ''apr/node/meta'' j) < 200"
    using publish_short [OF b] b by (simp add: sdk_publish_def)
  show "length (sdk_connect (joining_at url) 1 2) < 200" "connect_length (joining_at url) 1 2 < 128"
    "length (sdk_subscribe ''apr/+'') = 12"
    by (simp_all add: sdk_connect_def connect_length_def sdk_subscribe_def sdk_write_str_def Let_def joining_at_def
        joining_options_def sdk_username_def nat_to_string.simps)
qed

lemma joining_start:
  obtains s where "sdk_start text_lib joining_options joining_network sdk_session_new = (True, s)"
    "length (concat (tl (ss_sent s))) < 2 ^ 63"
proof -
  have at: "joining_at ''ws://h:1/'' = joining_options" by (simp add: joining_at_def joining_options_def)
  have u: "parse_url (cl_mqtt_url joining_options) = (''ws'', ''h'', ''1'', ''/'')"
    by (simp add: joining_options_def parse_url_def find_char_def starts_with_def)
  have "read_response [''101'' @ crlf @ crlf] [] = ''101'' @ crlf @ crlf"
    by (rule read_response_one) simp
  then have r: "find_sub ''101'' (read_response (sn_reads joining_network) []) \<noteq> None"
    by (simp add: joining_network_def crlf_def starts_with_def)
  have "\<exists>s. sdk_start text_lib joining_options joining_network sdk_session_new = (True, s)"
    using r by (simp add: sdk_start_def u Let_def sdk_handshake_def sdk_write_def opening_chain_def sdk_send_def
        publish_metadata_def joining_network_def calm_network_def text_lib_def)
  then obtain s where s: "sdk_start text_lib joining_options joining_network sdk_session_new = (True, s)" by blast
  obtain j where j: "json_dump text_lib (meta_json joining_options) = Inr j" "ss_sent s = opening_bytes joining_options joining_network j"
    by (rule sdk_start_sent [OF s])
  have frame: "length (encode_frame p opc) \<le> 10 + length p" for p opc by (simp add: encode_frame_def encode_length_def)
  have "length (concat (tl (ss_sent s))) < 2 ^ 63"
    using joining_packets [where url = "''ws://h:1/''", unfolded at, OF j(1)] frame [of "sdk_connect joining_options 1 2" 2]
      frame [of "sdk_subscribe ''apr/+''" 2] frame [of "sdk_publish ''apr/node/meta'' j" 2]
    by (simp add: j(2) opening_bytes_def u Let_def send_bytes_def joining_network_def calm_network_def)
  then show thesis by (rule that [OF s])
qed

lemma native_start:
  obtains s where "sdk_start text_lib (joining_at ''mqtt://h:1/'') calm_network sdk_session_new = (True, s)"
    "length (concat (ss_sent s)) \<le> 1000"
proof -
  let ?o = "joining_at ''mqtt://h:1/''"
  have u: "parse_url (cl_mqtt_url ?o) = (''mqtt'', ''h'', ''1'', ''/'')"
    by (simp add: joining_at_def parse_url_def find_char_def starts_with_def)
  have "\<exists>s. sdk_start text_lib ?o calm_network sdk_session_new = (True, s)"
    by (simp add: sdk_start_def u Let_def sdk_write_def opening_chain_def sdk_send_def publish_metadata_def
        calm_network_def text_lib_def)
  then obtain s where s: "sdk_start text_lib ?o calm_network sdk_session_new = (True, s)" by blast
  obtain j where j: "json_dump text_lib (meta_json ?o) = Inr j" "ss_sent s = opening_bytes ?o calm_network j"
    by (rule sdk_start_sent [OF s])
  have "length (concat (ss_sent s)) \<le> 1000"
    using joining_packets [OF j(1)] by (simp add: j(2) opening_bytes_def u Let_def send_bytes_def calm_network_def)
  then show thesis by (rule that [OF s])
qed

theorem native_start_coalesced_witness:
  "\<exists>s w'. sdk_start text_lib (joining_at ''mqtt://h:1/'') calm_network sdk_session_new = (True, s) \<and>
     on_bytes_read (toy_mqtt_env\<lparr>me_lib := text_lib\<rparr>) 0 (concat (ss_sent s)) toy_world = (None, w') \<and>
     ms_authenticated (sess w' 0) \<and> ms_subs (sess w' 0) = [] \<and> ms_node_id (sess w' 0) = []"
proof -
  let ?env = "toy_mqtt_env\<lparr>me_lib := text_lib\<rparr>" and ?o = "joining_at ''mqtt://h:1/''"
  obtain s where s: "sdk_start (me_lib ?env) ?o calm_network sdk_session_new = (True, s)" "length (concat (ss_sent s)) \<le> 1000"
    using native_start by auto
  have w: "0 < length (mw_sessions toy_world)" "\<not> ms_handshake_done (sess toy_world 0)" "ms_acc (sess toy_world 0) = acc_empty"
    "\<not> ms_closing (sess toy_world 0)" "\<not> ms_is_ws (sess toy_world 0)" "ms_subs (sess toy_world 0) = []" "ms_node_id (sess toy_world 0) = []"
    by (simp_all add: toy_world_def toy_session_def mqtt_session_new_def)
  have u: "fst (parse_url (cl_mqtt_url ?o)) \<notin> {''ws'', ''wss''}"
    by (simp add: joining_at_def parse_url_def find_char_def starts_with_def)
  have k: "me_access_key ?env = cl_access_key ?o" by (simp add: toy_mqtt_env_def joining_at_def joining_options_def)
  have "connect_length ?o (sn_rand1 calm_network) (sn_rand2 calm_network) < 128"
    using joining_packets(5) [of "''mqtt://h:1/''"] by (simp add: calm_network_def text_lib_def)
  moreover have "length (concat (ss_sent s)) \<le> me_max_buffer ?env" using s(2) by (simp add: toy_mqtt_env_def)
  ultimately obtain w' where "on_bytes_read ?env 0 (concat (ss_sent s)) toy_world = (None, w')"
    "ms_authenticated (sess w' 0)" "ms_subs (sess w' 0) = ms_subs (sess toy_world 0)"
    "ms_node_id (sess w' 0) = ms_node_id (sess toy_world 0)"
    using native_start_coalesced [OF w(1-5) k s(1) u] by blast
  then show ?thesis using s(1) w(6,7) by auto
qed


section \<open>The snapshot\<close>

lemma snapshot_request_text:
  "snapshot_request host = request_text ''GET'' ''/registry'' [(''count'', ''1000'')] ''HTTP/1.1''
     [(''Host'', host), (''Connection'', ''close'')]"
  by (simp add: snapshot_request_def request_text_def target_text_def head_text_def)

lemma snapshot_request_message:
  "snapshot_request host =
     message_text ([''GET /registry?count=1000 HTTP/1.1'', ''Host: '' @ host, ''Connection: close''], [], None)"
  by (simp add: snapshot_request_def message_text_def head_text_def)

lemma snapshot_request_ok:
  assumes "no_line_end host" "length host < 2 ^ 63"
  shows "message_ok ([''GET /registry?count=1000 HTTP/1.1'', ''Host: '' @ host, ''Connection: close''], [], None)"
proof -
  have "\<not> is_length_header (''Host: '' @ host)" "\<not> is_length_header ''Connection: close''"
    using no_length_header [of "''Host''" "'' '' @ host"] no_length_header [of "''Connection''" "'' close''"]
    by (simp_all add: iequals_ascii_def)
  moreover have "\<not> is_length_header ''GET /registry?count=1000 HTTP/1.1''" by (rule no_colon_no_length) simp
  moreover have "length (message_text ([''GET /registry?count=1000 HTTP/1.1'', ''Host: '' @ host, ''Connection: close''], [], None)) < 2 ^ 64"
    using assms(2) by (simp add: message_text_def head_text_def crlf_def)
  ultimately show ?thesis using assms(1) by (simp add: message_ok_def good_line_def no_line_end_def)
qed

text \<open>How the server reads it: the first page of a thousand nodes, unfiltered, and the connection is to be closed.\<close>

lemma snapshot_request_parsed:
  assumes "no_line_end host" "host = [] \<or> hd host \<noteq> CHR '' ''" "iteration iter"
  shows "let r = parse_raw_http iter (snapshot_request host) in
    req_path r = ''/registry'' \<and> map_of (req_query r) = [''count'' \<mapsto> ''1000''] \<and> \<not> req_keep_alive r"
proof -
  let ?r = "parse_raw_http iter (snapshot_request host)"
  have p: "let r = ?r in req_path r = ''/registry'' \<and> map_of (req_query r) = [''count'' \<mapsto> ''1000''] \<and>
      req_keep_alive r = keep_alive_of ''HTTP/1.1'' (connection_header iter (req_headers r)) \<and>
      req_headers r = [(''Host'', host), (''Connection'', ''close'')]"
    using parse_raw_request [of "''GET''" "''/registry''" "[(''count'', ''1000'')]" "''HTTP/1.1''"
        "[(''Host'', host), (''Connection'', ''close'')]" iter] assms(1,2)
    unfolding snapshot_request_text
    by (auto simp: token_text_def plain_query_def plain_header_def no_line_end_def Let_def)
  have n: "\<not> iequals_ascii ''Host'' ''Connection''" "iequals_ascii ''Connection'' ''Connection''"
    by (simp_all add: iequals_ascii_def)
  let ?hs = "[(''Host'', host), (''Connection'', ''close'')]"
  have "mset (filter (\<lambda>kv. iequals_ascii (fst kv) ''Connection'') (iter ?hs)) = mset [(''Connection'', ''close'')]"
    using assms(3) n by (simp add: iteration_def)
  then have "filter (\<lambda>kv. iequals_ascii (fst kv) ''Connection'') (iter ?hs) = [(''Connection'', ''close'')]"
    unfolding mset.simps mset_single_iff .
  then have "connection_header iter ?hs = ''close''" by (simp add: connection_header_def)
  moreover have "keep_alive_of ''HTTP/1.1'' ''close'' = False" by code_simp
  ultimately show ?thesis using p by (simp add: Let_def)
qed

text \<open>What the client makes of the answer.\<close>

lemma node_from_canon:
  assumes "dumps_all L" "dump_parse L" "i64_range (n_added_at n)" "i64_range (n_active_at n)"
    and "\<forall>e. n_expires_in n = Some e \<longrightarrow> i64_range e"
  shows "node_from_json L (canon (node_to_json n)) = Inr (n\<lparr>n_extra := canon_obj (n_extra n)\<rparr>)"
proof -
  obtain "text" where t: "json_dump L (node_to_json n) = Inr text" using assms(1) by (auto simp: dumps_all_def)
  then have "json_parse L text = Inr (canon (node_to_json n))" using assms(2) by (simp add: dump_parse_def)
  with node_json_roundtrip [OF assms(2) t assms(3-5)] show ?thesis by simp
qed

definition stamps_ok :: "node_info \<Rightarrow> bool" where
  "stamps_ok n = (i64_range (n_added_at n) \<and> i64_range (n_active_at n) \<and> (\<forall>e. n_expires_in n = Some e \<longrightarrow> i64_range e))"

lemma store_nodes_canon:
  assumes "dumps_all L" "dump_parse L" "\<forall>n \<in> set ns. stamps_ok n"
  shows "store_nodes L (map (canon \<circ> node_to_json) ns) nodes =
    fold (\<lambda>n. AList.update (n_id n) (n\<lparr>n_extra := canon_obj (n_extra n)\<rparr>)) ns nodes"
  using assms(3)
proof (induction ns arbitrary: nodes)
  case (Cons n ns)
  then show ?case using node_from_canon [OF assms(1,2), of n] by (simp add: stamps_ok_def)
qed simp

lemma map_of_fold_put:
  assumes "distinct (map f xs)"
  shows "map_of (fold (\<lambda>x. AList.update (f x) (g x)) xs m) k =
    (case find (\<lambda>x. f x = k) xs of Some x \<Rightarrow> Some (g x) | None \<Rightarrow> map_of m k)"
  using assms
proof (induction xs arbitrary: m)
  case (Cons x xs)
  have "find (\<lambda>y. f y = k) xs = None" if "f x = k"
    using Cons.prems that by (force simp: find_None_iff image_iff)
  with Cons show ?case by (simp add: map_of_update split: option.split)
qed simp

lemma fetch_snapshot_stored:
  assumes "dumps_all L" "dump_parse L" "\<forall>n \<in> set ns. stamps_ok n"
    and "json_dump L (obj_of [(''total'', JUInt cnt), (''nodes'', JArr (map node_to_json ns))]) = Inr body"
    and "res = response_default\<lparr>res_body := body\<rparr>"
  shows "sc_nodes (fetch_snapshot L (response_text res ka) c) =
    fold (\<lambda>n. AList.update (n_id n) (n\<lparr>n_extra := canon_obj (n_extra n)\<rparr>)) ns (sc_nodes c)"
proof -
  let ?ls = "[''HTTP/1.1 200 OK'', ''Content-Type: application/json'', ''Content-Length: '' @ nat_to_string (length body),
      ''Connection: '' @ (if ka then ''keep-alive'' else ''close'')]"
  have n200: "nat_to_string 200 = ''200''" by (simp add: nat_to_string.simps digit_char_eval)
  have t: "response_text res ka = join_crlf ?ls @ crlf @ crlf @ body"
    by (simp add: response_text_def assms(5) n200)
  have "\<forall>l \<in> set ?ls. good_line l" using good_length_header [of "length body"] by (simp add: good_line_def)
  then have p: "find_sub (crlf @ crlf) (response_text res ka) = Some (length (join_crlf ?ls))"
    unfolding t by (intro find_blank_line) simp_all
  have "drop (length x + 4) (x @ crlf @ crlf @ body) = body" for x by (simp add: crlf_def)
  then have d: "drop (length (join_crlf ?ls) + 4) (response_text res ka) = body" unfolding t .
  let ?j = "obj_of [(''total'', JUInt cnt), (''nodes'', JArr (map node_to_json ns))]"
  have j: "json_parse L body = Inr (canon ?j)" using assms(2,4) by (simp add: dump_parse_def)
  have l: "jlookup (canon ?j) ''nodes'' = Some (JArr (map (canon \<circ> node_to_json) ns))"
    by (simp add: obj_of_def jlookup_def)
  show ?thesis
    unfolding fetch_snapshot_def p option.case d j sum.case l json.case
    by (simp add: store_nodes_canon [OF assms(1-3)])
qed

text \<open>A node as \<open>/registry\<close> reports it: in grace, with the seconds that remain.\<close>

definition reported :: "int \<Rightarrow> node_info \<Rightarrow> node_info" where
  "reported now n = (if n_status n = St_grace then n\<lparr>n_expires_in := Some (remaining_grace now n)\<rparr> else n)"

lemma reported_sel [simp]: "n_id (reported now n) = n_id n" "n_extra (reported now n) = n_extra n"
  by (simp_all add: reported_def)

lemma find_distinct: "distinct (map f xs) \<Longrightarrow> x \<in> set xs \<Longrightarrow> f x = k \<Longrightarrow> find (\<lambda>x. f x = k) xs = Some x"
  by (induction xs) force+

lemma matched_find:
  assumes "reg_ok L r" "iteration iter"
  shows "find (\<lambda>n. n_id n = k) (query_matched now iter [] [] r) =
    map_option (reported now) (find_node r k)"
proof -
  let ?xs = "query_matched now iter [] [] r"
  have live: "n_status n \<noteq> St_erased" if "(j, n) \<in> set (r_nodes r)" for j n
    using assms(1) that by (auto simp: reg_ok_def node_ok_def)
  then have xs: "set ?xs = reported now ` snd ` set (r_nodes r)"
    using iteration_set [OF assms(2), of "r_nodes r"]
    by (force simp: query_matched_def matches_filter_def reported_def)
  note ids = query_matched_ids [OF assms, of now "[]" "[]"]
  show ?thesis
  proof (cases "find_node r k")
    case (Some n)
    then have "(k, n) \<in> set (r_nodes r)" using map_of_SomeD by (simp add: find_node_def)
    then have "reported now n \<in> set ?xs" by (force simp: xs)
    moreover have "n_id n = k" using reg_ok_lookup [OF assms(1) Some] by simp
    ultimately show ?thesis using find_distinct [of n_id ?xs "reported now n" k] ids Some by simp
  next
    case None
    then have "k \<notin> set (map n_id ?xs)" using ids by auto
    then show ?thesis using None by (auto simp: find_None_iff)
  qed
qed

lemma snapshot_route:
  assumes "dumps_all (he_lib env)" "length (r_nodes (ht_registry st)) \<le> 1000" "iteration (he_iter_nodes env)"
    and "req_path req = ''/registry''" "map_of (req_query req) = [''count'' \<mapsto> ''1000'']"
  defines "ns \<equiv> query_matched (he_now env) (he_iter_nodes env) [] [] (ht_registry st)"
  obtains body where "fst (route_request env req st) = Inr (response_default\<lparr>res_body := body\<rparr>)"
    "json_dump (he_lib env) (obj_of [(''total'', JUInt (length ns)), (''nodes'', JArr (map node_to_json ns))]) = Inr body"
proof -
  have "size (mset (he_iter_nodes env (r_nodes (ht_registry st)))) = size (mset (r_nodes (ht_registry st)))"
    using assms(3) by (simp only: iteration_def)
  then have "length ns \<le> length (r_nodes (ht_registry st))"
    unfolding ns_def query_matched_def length_map by (intro le_trans [OF length_filter_le]) simp
  then have "page_of 1 1000 ns = Inr (length ns, ns)"
    using page_of_plain [of 1 1000 ns] assms(2) by simp
  then have q: "query_registry (he_now env) (he_iter_nodes env) 1 1000 [] [] (ht_registry st) = Inr (length ns, ns)"
    by (simp add: query_registry_def ns_def)
  have p: "number_param req ''page'' 1 = Inr 1" "number_param req ''count'' 50 = Inr 1000"
    "param_or_empty req ''role'' = []" "param_or_empty req ''worker'' = []"
  proof -
    have "nat_to_string 1000 = ''1000''" by (simp add: nat_to_string.simps digit_char_eval)
    then have "stoul ''1000'' = Inr 1000" using stoul_nat_to_string [of 1000] by simp
    then show "number_param req ''count'' 50 = Inr 1000" by (simp add: number_param_def query_param_def assms(5))
  qed (simp_all add: number_param_def param_or_empty_def query_param_def assms(5))
  let ?j = "obj_of [(''total'', JUInt (length ns)), (''nodes'', JArr (map node_to_json ns))]"
  obtain body where b: "json_dump (he_lib env) ?j = Inr body" using assms(1) by (auto simp: dumps_all_def)
  have "registry_route env req st = json_response env 200 ''OK'' ?j"
    by (simp only: registry_route_def p q bind_res.simps prod.case)
  also have "\<dots> = Inr (response_default\<lparr>res_body := body\<rparr>)"
    by (simp add: json_response_def b response_default_def)
  finally show thesis using that b assms(4) by (simp add: route_request_def)
qed


text \<open>A registry with one node, and a network that passes on what the server answers.\<close>

definition text_registry :: "nat registry" where
  "text_registry = snd (snd (register_or_update_node text_lib 200 1000 1000 ''api'' [''w''] None
     ''10.0.0.9'' [] (JObj []) (registry_init 8192)))"

lemma text_registry_nodes:
  "reg_ok text_lib text_registry"
  "r_nodes text_registry = [(node_id_string 1000 1, \<lparr>n_id = node_id_string 1000 1, n_role = ''api'', n_workers = [''w''],
     n_endpoint = None, n_status = St_ok, n_added_at = 1000, n_active_at = 1000, n_expires_in = None, n_extra = []\<rparr>)]"
proof -
  let ?x = "register_or_update_node text_lib 200 1000 1000 ''api'' [''w''] None
     ''10.0.0.9'' [] (JObj []) (registry_init 8192 :: nat registry)"
  have "?x = (fst ?x, fst (snd ?x), snd (snd ?x))" by simp
  from reg_reachable.register [OF reg_reachable.start _ this] have "reg_reachable text_lib 200 8192 text_registry"
    unfolding text_registry_def by simp
  then show "reg_ok text_lib text_registry" by (rule reachable_reg_ok)
  show "r_nodes text_registry = [(node_id_string 1000 1, \<lparr>n_id = node_id_string 1000 1, n_role = ''api'', n_workers = [''w''],
     n_endpoint = None, n_status = St_ok, n_added_at = 1000, n_active_at = 1000, n_expires_in = None, n_extra = []\<rparr>)]"
    by (simp add: text_registry_def register_or_update_node_def generate_node_id_def registry_init_def find_node_def
        put_node_def final_endpoint_def Let_def)
qed


end
