(* ===== verification/AppEvents.thy ===== *)
theory AppEvents
  imports EndToEnd
begin

text \<open>
  An application event on its whole way: published by one client, relayed by the server, and handed to
  the callbacks of another client, over WebSocket or the native transport.
\<close>

section \<open>The client's WebSocket stream\<close>

definition short_publish :: "string \<times> string \<Rightarrow> bool" where
  "short_publish m = (length (publish_body (fst m) (snd m) 0 0) < 128)"

definition publish_bytes :: "string \<times> string \<Rightarrow> bytes" where
  "publish_bytes m = encode_publish (fst m) (snd m) 0 0"

definition handle_message :: "json_lib \<Rightarrow> string \<times> string \<Rightarrow> sdk_client \<Rightarrow> sdk_client" where
  "handle_message L m c = sdk_handle_publish L (fst m) (snd m) c"

lemma binary_frames_simps [simp]:
  "binary_frames [] = []"
  "binary_frames (p # ps) = \<lparr>opcode = 0x02, fin = True, frame_payload = p\<rparr> # binary_frames ps"
  by (simp_all add: binary_frames_def)

lemma one_publish:
  assumes "short_publish m"
  shows "\<exists>n. process_mqtt_buffer L (publish_bytes m) 0 c = (None, n, handle_message L m c)"
proof -
  let ?p = "publish_bytes m"
  have s: "\<forall>(t, p) \<in> set [m]. length (publish_body t p 0 0) < 128" using assms by (auto simp: short_publish_def)
  have d: "drain sdk_dec (drop 0 ?p) = ([?p], [])" "readable ?p"
    using drain_short [OF s] fields_short assms by (auto simp: publish_bytes_def short_publish_def readable_def split_beta)
  show ?thesis
    using process_buffer_drain [of 0 ?p "[?p]" "[]" L c] d fold_short [OF s, of L c]
    by (auto simp: publish_bytes_def handle_message_def split_beta)
qed

lemma handle_message_stream [simp]:
  "sc_stream (handle_message L m c) = sc_stream c" "sc_is_ws (handle_message L m c) = sc_is_ws c"
  "handle_message L m (c\<lparr>sc_stream := s\<rparr>) = (handle_message L m c)\<lparr>sc_stream := s\<rparr>"
  by (auto simp: handle_message_def sdk_handle_publish_def apply_node_event_def Let_def split: sum.split option.split)

lemma handle_messages_stream [simp]:
  "sc_stream (fold (handle_message L) ms c) = sc_stream c" "sc_is_ws (fold (handle_message L) ms c) = sc_is_ws c"
  "fold (handle_message L) ms (c\<lparr>sc_stream := s\<rparr>) = (fold (handle_message L) ms c)\<lparr>sc_stream := s\<rparr>"
  by (induction ms arbitrary: c) simp_all

lemma ws_stream_drain:
  assumes "drain ws_dec s = (binary_frames (map publish_bytes ms), rest)" "\<forall>m \<in> set ms. short_publish m"
    and "\<forall>e. decode_frame rest \<noteq> Inl e"
  shows "process_ws_stream L s c = (None, rest, fold (handle_message L) ms c)"
  using assms
proof (induction ms arbitrary: s c)
  case Nil
  have "ws_dec s = None" "rest = s"
    using Nil(1) ws.drain_eq [of s] by (auto split: option.splits prod.splits)
  then have "decode_frame s = Inr None"
    using Nil(3) by (auto simp: ws_dec_def split: sum.splits option.splits)
  with \<open>rest = s\<close> show ?case by (subst process_ws_stream.simps) simp
next
  case (Cons m ms)
  let ?f = "\<lparr>opcode = 0x02, fin = True, frame_payload = publish_bytes m\<rparr>"
  obtain n where n: "decode_frame s = Inr (Some (n, ?f))" "drain ws_dec (drop n s) = (binary_frames (map publish_bytes ms), rest)"
    using Cons.prems(1) ws.drain_eq [of s] by (auto split: option.splits prod.splits)
  have "s \<noteq> []" using n(1) by (auto simp: decode_frame_def)
  moreover obtain k where "process_mqtt_buffer L (publish_bytes m) 0 c = (None, k, handle_message L m c)"
    using one_publish [of m L c] Cons.prems(2) by auto
  moreover have "process_ws_stream L (drop n s) (handle_message L m c) = (None, rest, fold (handle_message L) ms (handle_message L m c))"
    using Cons n(2) by simp
  ultimately show ?case using n(1) by (subst process_ws_stream.simps) (simp add: Let_def)
qed

lemma ws_reads_messages:
  assumes "sc_is_ws c" "drain ws_dec (sc_stream c) = ([], sc_stream c)"
    and "drain ws_dec (sc_stream c @ concat chunks) = (binary_frames (map publish_bytes ms), rest)"
    and "\<forall>m \<in> set ms. short_publish m" "\<forall>e. decode_frame rest \<noteq> Inl e"
  shows "sdk_reads L chunks c = (None, (fold (handle_message L) ms c)\<lparr>sc_stream := rest\<rparr>)"
  using assms
proof (induction chunks arbitrary: c ms)
  case Nil
  then have "ms = []" "rest = sc_stream c" by (auto simp: binary_frames_def)
  then show ?case by simp
next
  case (Cons d ds)
  let ?s = "sc_stream c @ d"
  obtain gs r where g: "drain ws_dec ?s = (gs, r)" by fastforce
  obtain hs z where h: "drain ws_dec (r @ concat ds) = (hs, z)" by fastforce
  have "binary_frames (map publish_bytes ms) = gs @ hs" and z: "z = rest"
    using ws.drain_append [OF g, of "concat ds"] Cons.prems(3) h by simp_all
  then obtain ms1 ms2 where ms: "ms = ms1 @ ms2" "gs = binary_frames (map publish_bytes ms1)" "hs = binary_frames (map publish_bytes ms2)"
    by (auto simp: binary_frames_def map_eq_append_conv comp_def)
  have noerr: "decode_frame r \<noteq> Inl e" for e using drain_no_error [OF h] z Cons.prems(5) by simp
  let ?c = "c\<lparr>sc_stream := ?s\<rparr>" and ?c1 = "(fold (handle_message L) ms1 c)\<lparr>sc_stream := r\<rparr>"
  have "process_ws_stream L ?s ?c = (None, r, fold (handle_message L) ms1 ?c)"
    using g ms Cons.prems(4) noerr by (intro ws_stream_drain) auto
  then have one: "sdk_read L d c = (None, ?c1)"
    using Cons.prems(1) by (simp add: sdk_read_def process_stream_def)
  have "sdk_reads L ds ?c1 = (None, (fold (handle_message L) ms2 ?c1)\<lparr>sc_stream := rest\<rparr>)"
    using Cons.prems ws.drain_idle [OF g] h ms z by (intro Cons.IH) simp_all
  then show ?case using one ms by simp
qed

text \<open>One message, over either transport, however it is cut.\<close>

lemma client_receives:
  assumes "short_publish m" "sc_stream c = []" "concat chunks = send_bytes (sc_is_ws c) (publish_bytes m)"
  shows "sdk_reads L chunks c = (None, handle_message L m c)"
proof (cases "sc_is_ws c")
  case True
  have "length (publish_bytes m) < 2 ^ 10"
    using assms(1) by (simp add: short_publish_def publish_bytes_def publish_short)
  then have "length (encode_frame (publish_bytes m) 0x02) < 2 ^ 63"
    by (simp add: encode_frame_def encode_length_def)
  then have d: "drain ws_dec (sc_stream c @ concat chunks) = (binary_frames (map publish_bytes [m]), [])"
    using binary_frames_drain [of "concat chunks" "[publish_bytes m]"] True assms(2,3) by (simp add: send_bytes_def)
  have "drain ws_dec (sc_stream c) = ([], sc_stream c)" "\<forall>e. decode_frame [] \<noteq> Inl e"
    by (simp_all add: assms(2) drain_def decode_frame_def)
  from ws_reads_messages [OF True this(1) d _ this(2)] assms(1,2) show ?thesis
    using handle_message_stream(3) [of L m "[]" c] by simp
next
  case False
  have "\<forall>(t, p) \<in> set [m]. length (publish_body t p 0 0) < 128" using assms(1) by (auto simp: short_publish_def)
  from sdk_stream_delivers [OF this False assms(2), of chunks L] False assms(3) show ?thesis
    by (simp add: send_bytes_def publish_bytes_def handle_message_def split_beta)
qed

section \<open>From client to client\<close>

lemma app_topic_outside: "\<not> starts_with ''apr/'' (app_topic role worker)"
  by (simp add: app_topic_def starts_with_def)



end
